(* ===== verification/Prelude.thy ===== *)
theory Prelude
  imports Main "HOL-Library.Word" "HOL-Library.List_Lexorder" "HOL-Library.Char_ord"
begin

text \<open>
  Shared material of the development: the result types of the model (a Go runtime panic, an
  error return), the fact collections the component theories fill, generic lemmas on sequences
  that are sorted by a strict order, and the locales that state the two interfaces every
  component with a sorted sequence relies on: the order of its keys (\<open>key_order\<close>) and, where the
  code does a binary search, the totality of that order (\<open>key_total\<close>). The locale
  \<open>step_invariant\<close> is the contract of a machine whose every step keeps an invariant.
\<close>

section \<open>Fact collections\<close>

named_theorems seq_simps \<open>rewrites for sequences sorted by a strict order\<close>
named_theorems strconv_simps \<open>rewrites for the decimal conversions\<close>
named_theorems wf_intros \<open>introduction rules for well-formedness of the store\<close>

section \<open>Results of Go code\<close>

text \<open>
  A call either returns or panics. An uncaught panic (index out of range, nil dereference) and a
  fatal error of the runtime (unlocking an unlocked mutex) both end the whole process: no recover
  is used anywhere in the program.
\<close>

datatype 'a go = Ret 'a | Panic

definition go_bind :: "'a go \<Rightarrow> ('a \<Rightarrow> 'b go) \<Rightarrow> 'b go" where
  "go_bind m f = (case m of Ret x \<Rightarrow> f x | Panic \<Rightarrow> Panic)"

lemma go_bind_simps [simp]:
  "go_bind (Ret x) f = f x"
  "go_bind Panic f = Panic"
  by (simp_all add: go_bind_def)

text \<open>A loop over a list whose body may panic.\<close>

fun go_fold :: "('c \<Rightarrow> 's \<Rightarrow> 's go) \<Rightarrow> 'c list \<Rightarrow> 's \<Rightarrow> 's go" where
  "go_fold f [] s = Ret s"
| "go_fold f (c # cs) s = go_bind (f c s) (go_fold f cs)"

lemma go_fold_append: "go_fold f (cs @ ds) s = go_bind (go_fold f cs s) (go_fold f ds)"
proof (induction cs arbitrary: s)
  case (Cons c cs)
  then show ?case by (cases "f c s") simp_all
qed simp

lemma go_fold_invariant:
  assumes "\<And>c s s'. c \<in> set cs \<Longrightarrow> I s \<Longrightarrow> f c s = Ret s' \<Longrightarrow> I s'" and "I s" and "go_fold f cs s = Ret s'"
  shows "I s'"
  using assms
proof (induction cs arbitrary: s)
  case (Cons c cs)
  from Cons.prems(3) obtain s1 where s1: "f c s = Ret s1" "go_fold f cs s1 = Ret s'"
    by (cases "f c s") auto
  show ?case using Cons.IH [OF _ _ s1(2)] Cons.prems(1,2) s1(1) by (meson list.set_intros)
qed simp

lemma go_bind_eq_Ret: "go_bind m f = Ret y \<longleftrightarrow> (\<exists>x. m = Ret x \<and> f x = Ret y)"
  by (cases m) auto

section \<open>Sequences sorted by a strict order\<close>

lemma takeWhile_eq_filter_sorted:
  assumes "sorted_wrt R xs" and "\<And>x y. R x y \<Longrightarrow> P y \<Longrightarrow> P x"
  shows "takeWhile P xs = filter P xs"
  using assms(1)
proof (induction xs)
  case (Cons x xs)
  show ?case
  proof (cases "P x")
    case True
    with Cons show ?thesis by simp
  next
    case False
    with Cons.prems assms(2) have "\<forall>y \<in> set xs. \<not> P y" by auto
    with False show ?thesis by (auto simp: filter_empty_conv)
  qed
qed simp

lemma dropWhile_eq_filter_sorted:
  assumes "sorted_wrt R xs" and "\<And>x y. R x y \<Longrightarrow> P y \<Longrightarrow> P x"
  shows "dropWhile P xs = filter (\<lambda>x. \<not> P x) xs"
  using assms(1)
proof (induction xs)
  case (Cons x xs)
  show ?case
  proof (cases "P x")
    case True
    with Cons show ?thesis by simp
  next
    case False
    with Cons.prems assms(2) have "\<forall>y \<in> set xs. \<not> P y" by auto
    with False show ?thesis by (auto simp: filter_id_conv)
  qed
qed simp

lemma sorted_wrt_take: "sorted_wrt R xs \<Longrightarrow> sorted_wrt R (take n xs)"
  by (metis append_take_drop_id sorted_wrt_append)

lemma sorted_wrt_drop: "sorted_wrt R xs \<Longrightarrow> sorted_wrt R (drop n xs)"
  by (metis append_take_drop_id sorted_wrt_append)

lemma take_length_takeWhile: "take (length (takeWhile P xs)) xs = takeWhile P xs"
  by (metis takeWhile_eq_take)

lemma drop_length_takeWhile: "drop (length (takeWhile P xs)) xs = dropWhile P xs"
  by (metis dropWhile_eq_drop)

lemma nth_length_takeWhile_iff:
  assumes "sorted_wrt R xs" and "\<And>x y. R x y \<Longrightarrow> P y \<Longrightarrow> P x" and "i < length xs"
  shows "P (xs ! i) \<longleftrightarrow> i < length (takeWhile P xs)"
proof
  assume "i < length (takeWhile P xs)"
  then show "P (xs ! i)" by (metis nth_mem set_takeWhileD takeWhile_nth)
next
  assume p: "P (xs ! i)"
  show "i < length (takeWhile P xs)"
  proof (rule ccontr)
    assume "\<not> i < length (takeWhile P xs)"
    then have le: "length (takeWhile P xs) \<le> i" by simp
    let ?m = "length (takeWhile P xs)"
    have m: "?m < length xs" using le assms(3) by simp
    then have np: "\<not> P (xs ! ?m)" by (rule nth_length_takeWhile)
    have "P (xs ! ?m)"
    proof (cases "?m = i")
      case True
      then show ?thesis using p by simp
    next
      case False
      with le have "?m < i" by simp
      with assms(1,3) have "R (xs ! ?m) (xs ! i)" by (simp add: sorted_wrt_iff_nth_less)
      then show ?thesis using p assms(2) by blast
    qed
    with np show False by simp
  qed
qed

lemma split_last_two:
  assumes "2 \<le> length l"
  shows "l = take (length l - 2) l @ [l ! (length l - 2), last l]"
proof -
  from assms obtain xs b where l: "l = xs @ [b]" by (cases l rule: rev_cases) auto
  with assms have "xs \<noteq> []" by auto
  then obtain ys a where "xs = ys @ [a]" by (cases xs rule: rev_cases) auto
  with l show ?thesis by (simp add: nth_append)
qed

lemma map_of_zip_nth_min:
  "distinct xs \<Longrightarrow> i < min (length ys) (length xs) \<Longrightarrow> map_of (zip xs ys) (xs ! i) = Some (ys ! i)"
proof (induction xs arbitrary: ys i)
  case (Cons x xs)
  then show ?case by (cases ys; cases i) auto
qed simp

section \<open>Interfaces\<close>

text \<open>
  The contract of the comparison a sorted sequence is kept by: a strict partial order on the
  elements the sequence may hold (\<open>ok\<close>). Clients get the correspondence between the index loops of
  the code (advance while a comparison holds) and filters of the sequence.
\<close>

locale key_order =
  fixes lt :: "'a \<Rightarrow> 'a \<Rightarrow> bool" and ok :: "'a \<Rightarrow> bool"
  assumes lt_irrefl: "ok x \<Longrightarrow> \<not> lt x x"
    and lt_trans: "ok x \<Longrightarrow> ok y \<Longrightarrow> ok z \<Longrightarrow> lt x y \<Longrightarrow> lt y z \<Longrightarrow> lt x z"
begin

lemma lt_asym: "ok x \<Longrightarrow> ok y \<Longrightarrow> lt x y \<Longrightarrow> \<not> lt y x"
  using lt_irrefl lt_trans by blast

lemma sorted_distinct: "sorted_wrt lt xs \<Longrightarrow> list_all ok xs \<Longrightarrow> distinct xs"
  by (induction xs) (auto simp: lt_irrefl)

lemma sorted_snoc:
  assumes "sorted_wrt lt xs" and "list_all ok xs" and "ok x" and "xs \<noteq> [] \<Longrightarrow> lt (last xs) x"
  shows "sorted_wrt lt (xs @ [x])"
proof -
  have "lt y x" if y: "y \<in> set xs" for y
  proof -
    from y have ne: "xs \<noteq> []" by auto
    then have l: "lt (last xs) x" by (rule assms(4))
    have app: "xs = butlast xs @ [last xs]" using ne by simp
    have "y = last xs \<or> y \<in> set (butlast xs)"
      using y app by (metis Un_iff empty_iff insert_iff list.set(1,2) set_append)
    moreover have "\<forall>z \<in> set (butlast xs). lt z (last xs)"
      using assms(1) app by (metis list.set_intros(1) sorted_wrt_append)
    ultimately show ?thesis
      using l lt_trans assms(2,3) y ne by (metis last_in_set list_all_iff)
  qed
  with assms(1) show ?thesis by (simp add: sorted_wrt_append)
qed

lemma sorted_wrt_ok:
  "sorted_wrt lt xs \<Longrightarrow> list_all ok xs \<Longrightarrow> sorted_wrt (\<lambda>x y. lt x y \<and> ok x \<and> ok y) xs"
  by (induction xs) (auto simp: list_all_iff)

lemma takeWhile_below:
  assumes "sorted_wrt lt xs" and "list_all ok xs" and "ok b"
  shows "takeWhile (\<lambda>x. lt x b) xs = filter (\<lambda>x. lt x b) xs"
  by (rule takeWhile_eq_filter_sorted [OF sorted_wrt_ok [OF assms(1,2)]])
    (use assms(3) lt_trans in blast)

lemma dropWhile_below:
  assumes "sorted_wrt lt xs" and "list_all ok xs" and "ok b"
  shows "dropWhile (\<lambda>x. lt x b) xs = filter (\<lambda>x. \<not> lt x b) xs"
  by (rule dropWhile_eq_filter_sorted [OF sorted_wrt_ok [OF assms(1,2)]])
    (use assms(3) lt_trans in blast)

lemma takeWhile_not_above:
  assumes "sorted_wrt lt xs" and "list_all ok xs" and "ok b"
  shows "takeWhile (\<lambda>x. \<not> lt b x) xs = filter (\<lambda>x. \<not> lt b x) xs"
  by (rule takeWhile_eq_filter_sorted [OF sorted_wrt_ok [OF assms(1,2)]])
    (use assms(3) lt_trans in blast)

lemma dropWhile_not_above:
  assumes "sorted_wrt lt xs" and "list_all ok xs" and "ok b"
  shows "dropWhile (\<lambda>x. \<not> lt b x) xs = filter (\<lambda>x. lt b x) xs"
  using dropWhile_eq_filter_sorted [OF sorted_wrt_ok [OF assms(1,2)], of "\<lambda>x. \<not> lt b x"]
    assms(3) lt_trans by auto

end

text \<open>Executions of a step relation: the events of a run, in order.\<close>

inductive run_of :: "('s \<Rightarrow> 'e \<Rightarrow> 's \<Rightarrow> bool) \<Rightarrow> 's \<Rightarrow> 'e list \<Rightarrow> 's \<Rightarrow> bool"
  for step :: "'s \<Rightarrow> 'e \<Rightarrow> 's \<Rightarrow> bool" where
  run_nil: "run_of step s [] s"
| run_cons: "step s e t \<Longrightarrow> run_of step t es u \<Longrightarrow> run_of step s (e # es) u"

inductive_simps run_of_Nil [simp]: "run_of step s [] t"
inductive_simps run_of_Cons: "run_of step s (e # es) t"

text \<open>
  The contract of a machine with an invariant: it holds at the start and every step keeps it.
  Clients get it for every finite run.
\<close>

locale step_invariant =
  fixes init :: "'s \<Rightarrow> bool" and step :: "'s \<Rightarrow> 'e \<Rightarrow> 's \<Rightarrow> bool" and inv :: "'s \<Rightarrow> bool"
  assumes inv_init: "init s \<Longrightarrow> inv s"
    and inv_step: "inv s \<Longrightarrow> step s e t \<Longrightarrow> inv t"
begin

lemma run_inv: "run_of step s es t \<Longrightarrow> inv s \<Longrightarrow> inv t"
  by (induction rule: run_of.induct) (auto intro: inv_step)

lemma run_from_init: "init s \<Longrightarrow> run_of step s es t \<Longrightarrow> inv t"
  using inv_init run_inv by blast

end

end
