(* ===== verification/GoLib.thy ===== *)
theory GoLib
  imports Prelude
begin

text \<open>
  What the program uses of the Go language and its standard library: strings as byte sequences,
  \<open>int64\<close> wrap-around, the time type, \<open>strconv\<close>, \<open>strings\<close>/\<open>bytes\<close>, \<open>sort.Search\<close>,
  \<open>slices.Insert\<close> and \<open>slices.Delete\<close>, and the comparison of \<open>float64\<close> values by their IEEE-754 bit
  patterns. A Go string and a \<open>[]byte\<close> are both a HOL \<open>string\<close>: a HOL character is exactly a byte.
\<close>

section \<open>Bytes and line ends\<close>

type_synonym bytes = string

definition CR :: char where "CR = CHR 0x0D"
definition LF :: char where "LF = CHR 0x0A"
definition crlf :: string where "crlf = [CR, LF]"

lemma crlf_simps [simp]: "length crlf = 2" "CR \<noteq> LF" "LF \<noteq> CR"
  by (simp_all add: crlf_def CR_def LF_def)

definition byte_val :: "char \<Rightarrow> 8 word" where "byte_val c = word_of_nat (of_char c)"
definition byte_char :: "8 word \<Rightarrow> char" where "byte_char w = char_of (unat w)"

lemma byte_char_val [simp]: "byte_char (byte_val c) = c"
proof -
  have "unat (byte_val c) = of_char c"
    by (cases c) (simp add: byte_val_def unat_of_nat)
  then show ?thesis by (simp add: byte_char_def)
qed

lemma byte_val_char [simp]: "byte_val (byte_char w) = w"
proof -
  have "unat w < 256" using unsigned_less [of w] by simp
  then show ?thesis by (simp add: byte_val_def byte_char_def of_char_of)
qed

section \<open>Integers and time\<close>

text \<open>\<open>int64\<close> arithmetic wraps around.\<close>

definition wrap64 :: "int \<Rightarrow> int" where "wrap64 x = signed_take_bit 63 x"

definition max_int64 :: int where "max_int64 = 2 ^ 63 - 1"
definition min_int64 :: int where "min_int64 = - (2 ^ 63)"

definition is_int64 :: "int \<Rightarrow> bool" where "is_int64 x \<longleftrightarrow> min_int64 \<le> x \<and> x \<le> max_int64"

lemma wrap64_id [simp]: "is_int64 x \<Longrightarrow> wrap64 x = x"
  by (simp add: wrap64_def is_int64_def min_int64_def max_int64_def signed_take_bit_int_eq_self)

lemma wrap64_max: "wrap64 (max_int64 + 1) = min_int64"
  by (simp add: wrap64_def max_int64_def min_int64_def)

lemma is_int64_wrap64: "is_int64 (wrap64 x)"
proof -
  have "wrap64 x < 2 ^ 63" using signed_take_bit_int_less_exp [of 63 x] by (simp add: wrap64_def)
  moreover have "- (2 ^ 63) \<le> wrap64 x"
    using signed_take_bit_int_greater_eq_minus_exp [of 63 x] by (simp add: wrap64_def)
  ultimately show ?thesis by (simp add: is_int64_def min_int64_def max_int64_def)
qed

text \<open>
  A \<open>time.Time\<close> is the number of nanoseconds since the Unix epoch; the zero value of the type is
  the first instant of year 1 and \<open>IsZero\<close> tests for it. A \<open>time.Duration\<close> is an \<open>int64\<close> number of
  nanoseconds, so \<open>time.Duration(ms) * time.Millisecond\<close> wraps around.
\<close>

type_synonym time = int

definition zero_time :: time where "zero_time = - 62135596800 * 10 ^ 9"
definition IsZero :: "time \<Rightarrow> bool" where "IsZero t \<longleftrightarrow> t = zero_time"
definition After :: "time \<Rightarrow> time \<Rightarrow> bool" where "After t u \<longleftrightarrow> u < t"
definition Milliseconds :: "int \<Rightarrow> int" where "Milliseconds ms = wrap64 (ms * 1000000)"
definition UnixMilli :: "time \<Rightarrow> int" where "UnixMilli t = t div 1000000"

section \<open>Decimal conversion: strconv\<close>

definition digit_char :: "nat \<Rightarrow> char" where "digit_char d = char_of (48 + d)"
definition digit_val :: "char \<Rightarrow> nat" where "digit_val c = of_char c - 48"
definition is_digit :: "char \<Rightarrow> bool" where
  "is_digit c \<longleftrightarrow> 48 \<le> (of_char c :: nat) \<and> (of_char c :: nat) \<le> 57"

lemma digit_char_simps [strconv_simps]:
  assumes "d < 10"
  shows "is_digit (digit_char d)" and "digit_val (digit_char d) = d"
  using assms by (simp_all add: is_digit_def digit_val_def digit_char_def of_char_of)

lemma not_is_digit [strconv_simps]:
  "\<not> is_digit CR" "\<not> is_digit LF" "\<not> is_digit (CHR ''-'')" "\<not> is_digit (CHR ''+'')"
  by (simp_all add: is_digit_def CR_def LF_def)

fun FormatNat :: "nat \<Rightarrow> string" where
  "FormatNat n =
     (if n < 10 then [digit_char n] else FormatNat (n div 10) @ [digit_char (n mod 10)])"

declare FormatNat.simps [simp del]

definition FormatInt :: "int \<Rightarrow> string" where
  "FormatInt v = (if v < 0 then CHR ''-'' # FormatNat (nat (- v)) else FormatNat (nat v))"

lemma FormatNat_not_Nil [simp]: "FormatNat n \<noteq> []"
  by (subst FormatNat.simps) simp

lemma FormatNat_digits: "list_all is_digit (FormatNat n)"
proof (induction n rule: FormatNat.induct)
  case (1 n)
  then show ?case
    by (cases "n < 10") (simp_all add: FormatNat.simps [of n] strconv_simps)
qed

lemma FormatNat_set: "c \<in> set (FormatNat n) \<Longrightarrow> is_digit c"
  using FormatNat_digits by (auto simp: list_all_iff)

text \<open>
  \<open>strconv.ParseUint(s, 10, 64)\<close>, \<open>strconv.ParseInt(s, 10, 64)\<close> and \<open>strconv.Atoi\<close> (64-bit \<open>int\<close>).
  A range error comes with the saturated value, a syntax error with zero; a range error is
  reported as soon as the accumulated value overflows.
\<close>

datatype num_err = NoErr | SyntaxErr | RangeErr

definition max_uint64 :: nat where "max_uint64 = 2 ^ 64 - 1"

fun parse_uint_loop :: "string \<Rightarrow> nat \<Rightarrow> nat \<times> num_err" where
  "parse_uint_loop [] n = (n, NoErr)"
| "parse_uint_loop (c # cs) n =
     (if \<not> is_digit c then (0, SyntaxErr)
      else let n1 = n * 10 + digit_val c
           in if max_uint64 < n1 then (max_uint64, RangeErr) else parse_uint_loop cs n1)"

definition ParseUint :: "string \<Rightarrow> nat \<times> num_err" where
  "ParseUint s = (if s = [] then (0, SyntaxErr) else parse_uint_loop s 0)"

definition strip_sign :: "string \<Rightarrow> bool \<times> string" where
  "strip_sign s =
     (case s of [] \<Rightarrow> (False, [])
      | c # cs \<Rightarrow> if c = CHR ''+'' then (False, cs) else if c = CHR ''-'' then (True, cs) else (False, s))"

definition ParseInt :: "string \<Rightarrow> int \<times> num_err" where
  "ParseInt s =
     (case strip_sign s of (neg, ds) \<Rightarrow>
        case ParseUint ds of (un, err) \<Rightarrow>
          if err = SyntaxErr then (0, SyntaxErr)
          else if \<not> neg \<and> 2 ^ 63 \<le> un then (max_int64, RangeErr)
          else if neg \<and> 2 ^ 63 < un then (min_int64, RangeErr)
          else (if neg then - int un else int un, NoErr))"

abbreviation Atoi :: "string \<Rightarrow> int \<times> num_err" where "Atoi \<equiv> ParseInt"

lemma parse_uint_loop_append:
  "parse_uint_loop xs n = (m, NoErr) \<Longrightarrow> parse_uint_loop (xs @ ys) n = parse_uint_loop ys m"
  by (induction xs arbitrary: n) (auto simp: Let_def split: if_splits)

lemma parse_uint_loop_FormatNat:
  "n \<le> max_uint64 \<Longrightarrow> parse_uint_loop (FormatNat n) 0 = (n, NoErr)"
proof (induction n rule: FormatNat.induct)
  case (1 n)
  show ?case
  proof (cases "n < 10")
    case True
    with "1.prems" show ?thesis
      by (simp add: FormatNat.simps [of n] strconv_simps Let_def)
  next
    case False
    with "1.prems" have "n div 10 \<le> max_uint64" by simp
    with "1.IH" False have "parse_uint_loop (FormatNat (n div 10)) 0 = (n div 10, NoErr)" by simp
    then have "parse_uint_loop (FormatNat (n div 10) @ [digit_char (n mod 10)]) 0
        = parse_uint_loop [digit_char (n mod 10)] (n div 10)"
      by (rule parse_uint_loop_append)
    also have "\<dots> = (n, NoErr)"
      using "1.prems" by (simp add: strconv_simps Let_def)
    finally show ?thesis using False by (simp add: FormatNat.simps [of n])
  qed
qed

lemma ParseUint_FormatNat [strconv_simps]:
  "n \<le> max_uint64 \<Longrightarrow> ParseUint (FormatNat n) = (n, NoErr)"
  by (simp add: ParseUint_def parse_uint_loop_FormatNat)

lemma strip_sign_FormatNat [strconv_simps]: "strip_sign (FormatNat n) = (False, FormatNat n)"
proof (cases "FormatNat n")
  case (Cons c cs)
  then have "is_digit c" using FormatNat_set [of c n] by simp
  then have "c \<noteq> CHR ''+''" and "c \<noteq> CHR ''-''" using not_is_digit by blast+
  with Cons show ?thesis by (simp add: strip_sign_def)
qed (simp add: strip_sign_def)

lemma ParseInt_FormatInt [strconv_simps]:
  assumes "is_int64 v"
  shows "ParseInt (FormatInt v) = (v, NoErr)"
proof (cases "v < 0")
  case True
  have m: "nat (- v) \<le> max_uint64" and b: "\<not> 2 ^ 63 < nat (- v)"
    using assms by (simp_all add: is_int64_def min_int64_def max_uint64_def nat_le_iff not_less)
  from True b show ?thesis
    by (simp add: FormatInt_def ParseInt_def strip_sign_def ParseUint_FormatNat [OF m])
next
  case False
  have m: "nat v \<le> max_uint64" and b: "\<not> 2 ^ 63 \<le> nat v"
    using assms False
    by (simp_all add: is_int64_def max_int64_def max_uint64_def nat_le_iff not_le nat_less_iff)
  from False b show ?thesis
    by (simp add: FormatInt_def ParseInt_def strip_sign_FormatNat ParseUint_FormatNat [OF m])
qed

subsection \<open>Decimal numerals, as a specification of \<open>ParseInt\<close>\<close>

text \<open>The strings that stand for an \<open>int64\<close>: an optional sign and at least one digit, in range.\<close>

definition decimal :: "string \<Rightarrow> nat \<Rightarrow> nat" where
  "decimal ds n = foldl (\<lambda>m c. m * 10 + digit_val c) n ds"

definition denotes :: "string \<Rightarrow> int \<Rightarrow> bool" where
  "denotes x v \<longleftrightarrow> is_int64 v \<and>
     (\<exists>ds. ds \<noteq> [] \<and> list_all is_digit ds \<and>
        ((x = ds \<or> x = CHR ''+'' # ds) \<and> v = int (decimal ds 0) \<or>
         x = CHR ''-'' # ds \<and> v = - int (decimal ds 0)))"

lemma decimal_simps [simp]:
  "decimal [] n = n" "decimal (c # cs) n = decimal cs (n * 10 + digit_val c)"
  by (simp_all add: decimal_def)

lemma decimal_ge: "n \<le> decimal ds n"
  by (induction ds arbitrary: n) (simp, metis decimal_simps(2) le_add1 le_trans mult.commute
      mult_le_mono1 nat_mult_1 one_le_numeral trans_le_add1)

lemma parse_uint_loop_iff:
  "n \<le> max_uint64 \<Longrightarrow> parse_uint_loop ds n = (m, NoErr) \<longleftrightarrow>
     list_all is_digit ds \<and> m = decimal ds n \<and> m \<le> max_uint64"
proof (induction ds arbitrary: n)
  case (Cons c ds)
  show ?case
  proof (cases "is_digit c \<and> \<not> max_uint64 < n * 10 + digit_val c")
    case True
    then show ?thesis using Cons.IH [of "n * 10 + digit_val c"] by (simp add: Let_def)
  next
    case False
    have "n * 10 + digit_val c \<le> decimal ds (n * 10 + digit_val c)" by (rule decimal_ge)
    with False show ?thesis by (auto simp: Let_def)
  qed
qed auto

lemma ParseUint_iff:
  "ParseUint ds = (m, NoErr) \<longleftrightarrow>
     ds \<noteq> [] \<and> list_all is_digit ds \<and> m = decimal ds 0 \<and> m \<le> max_uint64"
  using parse_uint_loop_iff [of 0 ds m] by (simp add: ParseUint_def max_uint64_def)

lemma parse_uint_loop_saturates: "parse_uint_loop ds n = (m, RangeErr) \<Longrightarrow> m = max_uint64"
  by (induction ds arbitrary: n) (auto simp: Let_def split: if_splits)

lemma ParseUint_saturates: "ParseUint ds = (m, RangeErr) \<Longrightarrow> m = max_uint64"
  by (auto simp: ParseUint_def parse_uint_loop_saturates split: if_splits)

lemma ParseInt_NoErr_strip:
  "ParseInt x = (v, NoErr) \<longleftrightarrow>
     (\<exists>n. ParseUint (snd (strip_sign x)) = (n, NoErr) \<and> is_int64 v \<and>
        v = (if fst (strip_sign x) then - int n else int n))"
proof -
  obtain neg ds where x: "strip_sign x = (neg, ds)" by fastforce
  obtain un er where u: "ParseUint ds = (un, er)" by fastforce
  have sat: "er = RangeErr \<Longrightarrow> un = max_uint64" using u ParseUint_saturates by simp
  have pos: "is_int64 (int un) \<longleftrightarrow> \<not> 2 ^ 63 \<le> un"
    by (auto simp: is_int64_def min_int64_def max_int64_def)
  have neg: "is_int64 (- int un) \<longleftrightarrow> \<not> 2 ^ 63 < un"
    by (auto simp: is_int64_def min_int64_def max_int64_def)
  show ?thesis
    using sat pos neg by (cases er; cases neg) (auto simp: ParseInt_def x u max_uint64_def)
qed

lemma strip_sign_cases:
  "list_all is_digit (snd (strip_sign x)) \<Longrightarrow> snd (strip_sign x) \<noteq> [] \<Longrightarrow>
     (fst (strip_sign x) \<longrightarrow> x = CHR ''-'' # snd (strip_sign x)) \<and>
     (\<not> fst (strip_sign x) \<longrightarrow> x = snd (strip_sign x) \<or> x = CHR ''+'' # snd (strip_sign x))"
  by (cases x) (auto simp: strip_sign_def)

lemma strip_sign_digits:
  "ds \<noteq> [] \<Longrightarrow> list_all is_digit ds \<Longrightarrow> strip_sign ds = (False, ds)"
  by (cases ds) (auto simp: strip_sign_def strconv_simps)

theorem ParseInt_denotes: "ParseInt x = (v, NoErr) \<longleftrightarrow> denotes x v"
proof
  assume "ParseInt x = (v, NoErr)"
  then obtain n where "ParseUint (snd (strip_sign x)) = (n, NoErr)" and "is_int64 v"
    and "v = (if fst (strip_sign x) then - int n else int n)"
    unfolding ParseInt_NoErr_strip by blast
  then show "denotes x v"
    using strip_sign_cases [of x] unfolding denotes_def ParseUint_iff
    by (intro conjI exI [of _ "snd (strip_sign x)"]) (auto split: if_splits)
next
  assume "denotes x v"
  then obtain ds where v: "is_int64 v" and ds: "ds \<noteq> []" "list_all is_digit ds"
    and x: "(x = ds \<or> x = CHR ''+'' # ds) \<and> v = int (decimal ds 0) \<or>
        x = CHR ''-'' # ds \<and> v = - int (decimal ds 0)"
    unfolding denotes_def by blast
  have "strip_sign (CHR ''+'' # ds) = (False, ds)" "strip_sign (CHR ''-'' # ds) = (True, ds)"
    by (simp_all add: strip_sign_def)
  moreover have "decimal ds 0 \<le> max_uint64"
    using x v by (auto simp: is_int64_def min_int64_def max_int64_def max_uint64_def)
  ultimately show "ParseInt x = (v, NoErr)"
    using x v ds strip_sign_digits [of ds] by (auto simp: ParseInt_NoErr_strip ParseUint_iff)
qed

lemma successor_wraps:
  "is_int64 v \<Longrightarrow> wrap64 (v + 1) = (if v = max_int64 then min_int64 else v + 1)"
  using wrap64_max by (auto simp: is_int64_def)

section \<open>Strings\<close>

text \<open>\<open>strings.Cut(s, sep)\<close> for a one-byte separator: the parts around its first occurrence.\<close>

definition Cut :: "string \<Rightarrow> char \<Rightarrow> string \<times> string \<times> bool" where
  "Cut s sep =
     (case dropWhile (\<lambda>c. c \<noteq> sep) s of
        [] \<Rightarrow> (s, [], False)
      | _ # after \<Rightarrow> (takeWhile (\<lambda>c. c \<noteq> sep) s, after, True))"

definition HasSuffix :: "string \<Rightarrow> string \<Rightarrow> bool" where
  "HasSuffix s suf \<longleftrightarrow> length suf \<le> length s \<and> drop (length s - length suf) s = suf"

definition CutPrefix :: "string \<Rightarrow> string \<Rightarrow> string \<times> bool" where
  "CutPrefix s pre = (if take (length pre) s = pre then (drop (length pre) s, True) else (s, False))"

lemma Cut_append [simp]:
  "sep \<notin> set xs \<Longrightarrow> Cut (xs @ sep # ys) sep = (xs, ys, True)"
proof -
  assume a: "sep \<notin> set xs"
  then have "dropWhile (\<lambda>c. c \<noteq> sep) (xs @ sep # ys) = sep # ys"
    by (induction xs) auto
  moreover from a have "takeWhile (\<lambda>c. c \<noteq> sep) (xs @ sep # ys) = xs"
    by (induction xs) auto
  ultimately show ?thesis by (simp add: Cut_def)
qed

text \<open>
  \<open>strings.ToUpper\<close> and \<open>strings.EqualFold\<close>: exact on ASCII strings. On other strings Go consults
  the Unicode case tables, which are the parameter \<open>uni\<close>.
\<close>

definition is_ascii :: "string \<Rightarrow> bool" where
  "is_ascii s \<longleftrightarrow> list_all (\<lambda>c. (of_char c :: nat) < 128) s"

definition upper_char :: "char \<Rightarrow> char" where
  "upper_char c =
     (if 97 \<le> (of_char c :: nat) \<and> (of_char c :: nat) \<le> 122 then char_of ((of_char c :: nat) - 32) else c)"

definition ToUpper :: "(string \<Rightarrow> string) \<Rightarrow> string \<Rightarrow> string" where
  "ToUpper uni s = (if is_ascii s then map upper_char s else uni s)"

definition EqualFold :: "(string \<Rightarrow> string \<Rightarrow> bool) \<Rightarrow> string \<Rightarrow> string \<Rightarrow> bool" where
  "EqualFold uni s t =
     (if is_ascii s \<and> is_ascii t then map upper_char s = map upper_char t else uni s t)"

text \<open>
  \<open>bytes.Fields\<close> and \<open>strings.Fields\<close> split around runs of Unicode white space. \<open>space_width\<close> is the
  number of bytes of the white-space rune at the head of the input, zero when there is none. A
  multi-byte white-space rune starts with a byte that is no UTF-8 continuation byte, so it is
  recognised at every position, exactly as by decoding the string rune by rune.
\<close>

definition byte_in :: "nat list \<Rightarrow> char \<Rightarrow> bool" where
  "byte_in ns c \<longleftrightarrow> of_char c \<in> set ns"

fun space_width :: "string \<Rightarrow> nat" where
  "space_width (a # b # c # cs) =
     (if byte_in [9, 10, 11, 12, 13, 32] a then 1
      else if byte_in [0xC2] a \<and> byte_in [0x85, 0xA0] b then 2
      else if byte_in [0xE1] a \<and> byte_in [0x9A] b \<and> byte_in [0x80] c then 3
      else if byte_in [0xE2] a \<and> byte_in [0x80] b
              \<and> byte_in ([0x80..<0x8B] @ [0xA8, 0xA9, 0xAF]) c then 3
      else if byte_in [0xE2] a \<and> byte_in [0x81] b \<and> byte_in [0x9F] c then 3
      else if byte_in [0xE3] a \<and> byte_in [0x80] b \<and> byte_in [0x80] c then 3
      else 0)"
| "space_width [a, b] =
     (if byte_in [9, 10, 11, 12, 13, 32] a then 1
      else if byte_in [0xC2] a \<and> byte_in [0x85, 0xA0] b then 2
      else 0)"
| "space_width [a] = (if byte_in [9, 10, 11, 12, 13, 32] a then 1 else 0)"
| "space_width [] = 0"

text \<open>\<open>fields_loop skip cur s\<close>: \<open>skip\<close> bytes of a white-space rune are still to be passed, \<open>cur\<close> is
  the field being read.\<close>

fun fields_loop :: "nat \<Rightarrow> string \<Rightarrow> string \<Rightarrow> string list" where
  "fields_loop k cur [] = (if cur = [] then [] else [cur])"
| "fields_loop (Suc k) cur (c # cs) = fields_loop k cur cs"
| "fields_loop 0 cur (c # cs) =
     (case space_width (c # cs) of
        0 \<Rightarrow> fields_loop 0 (cur @ [c]) cs
      | Suc k \<Rightarrow> (if cur = [] then fields_loop k [] cs else cur # fields_loop k [] cs))"

definition Fields :: "string \<Rightarrow> string list" where "Fields s = fields_loop 0 [] s"

text \<open>\<open>strings.TrimSpace\<close>: white space is removed from the front and, where only white space follows,
  from the end.\<close>

fun trim_left :: "nat \<Rightarrow> string \<Rightarrow> string" where
  "trim_left k [] = []"
| "trim_left (Suc k) (c # cs) = trim_left k cs"
| "trim_left 0 (c # cs) = (case space_width (c # cs) of 0 \<Rightarrow> c # cs | Suc k \<Rightarrow> trim_left k cs)"

fun trim_right :: "string \<Rightarrow> string" where
  "trim_right [] = []"
| "trim_right (c # cs) = (if trim_left 0 (c # cs) = [] then [] else c # trim_right cs)"

definition TrimSpace :: "string \<Rightarrow> string" where "TrimSpace s = trim_right (trim_left 0 s)"

text \<open>\<open>strings.Split(s, sep)\<close> for a one-byte separator.\<close>

fun Split :: "string \<Rightarrow> char \<Rightarrow> string list" where
  "Split [] sep = [[]]"
| "Split (c # cs) sep =
     (if c = sep then [] # Split cs sep
      else case Split cs sep of [] \<Rightarrow> [[c]] | w # ws \<Rightarrow> (c # w) # ws)"

section \<open>Slices and binary search\<close>

definition slices_Insert :: "'a list \<Rightarrow> nat \<Rightarrow> 'a \<Rightarrow> 'a list go" where
  "slices_Insert s i v = (if i \<le> length s then Ret (take i s @ v # drop i s) else Panic)"

definition slices_Delete :: "'a list \<Rightarrow> nat \<Rightarrow> nat \<Rightarrow> 'a list go" where
  "slices_Delete s i j = (if i \<le> j \<and> j \<le> length s then Ret (take i s @ drop j s) else Panic)"

text \<open>\<open>sort.Search(n, f)\<close>: the loop of the library, least index in \<open>[0, n]\<close> from which \<open>f\<close> holds.\<close>

function search_loop :: "(nat \<Rightarrow> bool) \<Rightarrow> nat \<Rightarrow> nat \<Rightarrow> nat" where
  "search_loop f i j =
     (if i < j
      then let h = (i + j) div 2
           in if \<not> f h then search_loop f (h + 1) j else search_loop f i h
      else i)"
  by pat_completeness auto
termination
  by (relation "measure (\<lambda>(f, i, j). j - i)") auto

declare search_loop.simps [simp del]

definition Search :: "nat \<Rightarrow> (nat \<Rightarrow> bool) \<Rightarrow> nat" where "Search n f = search_loop f 0 n"

lemma search_loop_threshold:
  assumes "\<And>k. k < n \<Longrightarrow> f k \<longleftrightarrow> m \<le> k" and "i \<le> m" and "m \<le> j" and "j \<le> n"
  shows "search_loop f i j = m"
  using assms
proof (induction f i j rule: search_loop.induct)
  case (1 f i j)
  show ?case
  proof (cases "i < j")
    case False
    with "1.prems" show ?thesis by (simp add: search_loop.simps [of f i j])
  next
    case True
    let ?h = "(i + j) div 2"
    have h: "?h < n" using True "1.prems" by simp
    show ?thesis
    proof (cases "f ?h")
      case False
      then have "?h < m" using h "1.prems"(1) by (meson not_le)
      then have "search_loop f (?h + 1) j = m"
        using "1.IH"(1) [OF True refl] False "1.prems" by simp
      with True False show ?thesis by (simp add: search_loop.simps [of f i j])
    next
      case fh: True
      then have "m \<le> ?h" using h "1.prems"(1) by blast
      then have "search_loop f i ?h = m"
        using "1.IH"(2) [OF True refl] fh "1.prems" h by simp
      with True fh show ?thesis by (simp add: search_loop.simps [of f i j])
    qed
  qed
qed

lemma Search_threshold:
  "(\<And>k. k < n \<Longrightarrow> f k \<longleftrightarrow> m \<le> k) \<Longrightarrow> m \<le> n \<Longrightarrow> Search n f = m"
  unfolding Search_def using search_loop_threshold [of n f m 0 n] by auto

text \<open>
  The contract of the order a binary search relies on: it is total up to elements with equal
  keys. Clients get the exact index \<open>sort.Search\<close> returns, and that inserting there keeps the
  sequence sorted.
\<close>

locale key_total = key_order +
  fixes key :: "'a \<Rightarrow> 'k"
  assumes lt_total: "ok x \<Longrightarrow> ok y \<Longrightarrow> key x \<noteq> key y \<Longrightarrow> lt x y \<or> lt y x"
begin

lemma search_lower_bound:
  assumes "sorted_wrt lt xs" and "list_all ok xs" and "ok b"
  shows "Search (length xs) (\<lambda>i. \<not> lt (xs ! i) b) = length (takeWhile (\<lambda>x. lt x b) xs)"
proof (rule Search_threshold)
  fix k
  assume k: "k < length xs"
  have "lt (xs ! k) b \<longleftrightarrow> k < length (takeWhile (\<lambda>x. lt x b) xs)"
    by (rule nth_length_takeWhile_iff [OF sorted_wrt_ok [OF assms(1,2)] _ k])
      (use assms(3) lt_trans in blast)
  then show "\<not> lt (xs ! k) b \<longleftrightarrow> length (takeWhile (\<lambda>x. lt x b) xs) \<le> k" by auto
next
  show "length (takeWhile (\<lambda>x. lt x b) xs) \<le> length xs" by (rule length_takeWhile_le)
qed

lemma sorted_insert:
  assumes "sorted_wrt lt xs" and "list_all ok xs" and "ok b" and "key b \<notin> key ` set xs"
  shows "sorted_wrt lt (takeWhile (\<lambda>x. lt x b) xs @ b # dropWhile (\<lambda>x. lt x b) xs)"
proof -
  let ?t = "takeWhile (\<lambda>x. lt x b) xs" and ?d = "dropWhile (\<lambda>x. lt x b) xs"
  have okx: "\<And>x. x \<in> set xs \<Longrightarrow> ok x" using assms(2) by (simp add: list_all_iff)
  have st: "sorted_wrt lt ?t" "sorted_wrt lt ?d" "\<forall>x \<in> set ?t. \<forall>y \<in> set ?d. lt x y"
    using assms(1) sorted_wrt_append [of lt ?t ?d] by simp_all
  have tb: "\<forall>x \<in> set ?t. lt x b" by (meson set_takeWhileD)
  have bd: "lt b y" if "y \<in> set ?d" for y
  proof -
    from that have "y \<in> set xs" and "\<not> lt y b"
      using dropWhile_below [OF assms(1-3)] by auto
    then show ?thesis using lt_total assms(3,4) okx by (metis image_eqI)
  qed
  have "sorted_wrt lt (b # ?d)" using st(2) bd by (simp only: sorted_wrt.simps) blast
  moreover have "\<forall>x \<in> set ?t. \<forall>y \<in> set (b # ?d). lt x y"
    using st(3) tb by (metis set_ConsD)
  ultimately show ?thesis
    by (intro sorted_wrt_append [THEN iffD2] conjI st(1))
qed

lemma search_member:
  assumes "sorted_wrt lt (pre @ b # post)" and "list_all ok (pre @ b # post)"
  shows "Search (length (pre @ b # post)) (\<lambda>i. \<not> lt ((pre @ b # post) ! i) b) = length pre"
proof -
  from assms have "ok b" and "\<forall>x \<in> set pre. lt x b" by (auto simp: sorted_wrt_append)
  then have "takeWhile (\<lambda>x. lt x b) (pre @ b # post) = pre"
    using lt_irrefl by (simp add: takeWhile_append)
  with search_lower_bound [OF assms \<open>ok b\<close>] show ?thesis by simp
qed

lemma insert_at_search:
  assumes "sorted_wrt lt xs" and "list_all ok xs" and "ok b"
  shows "slices_Insert xs (Search (length xs) (\<lambda>i. \<not> lt (xs ! i) b)) b =
    Ret (takeWhile (\<lambda>x. lt x b) xs @ b # dropWhile (\<lambda>x. lt x b) xs)"
  unfolding search_lower_bound [OF assms]
  by (simp add: slices_Insert_def length_takeWhile_le takeWhile_eq_take [symmetric] dropWhile_eq_drop [symmetric])

end

section \<open>Comparison of \<open>float64\<close> values\<close>

text \<open>
  A \<open>float64\<close> is its 64-bit pattern: sign, 11 exponent bits, 52 fraction bits. \<open>f64_key\<close> orders the
  non-NaN patterns as the IEEE comparison orders their values; both zeros get the key 0.
\<close>

type_synonym float64 = "64 word"

definition f64_mag :: "float64 \<Rightarrow> int" where "f64_mag x = uint (take_bit 63 x)"
definition f64_neg :: "float64 \<Rightarrow> bool" where "f64_neg x \<longleftrightarrow> bit x 63"
definition f64_isNaN :: "float64 \<Rightarrow> bool" where "f64_isNaN x \<longleftrightarrow> 0x7FF0000000000000 < f64_mag x"
definition f64_key :: "float64 \<Rightarrow> int" where
  "f64_key x = (if f64_neg x then - f64_mag x else f64_mag x)"

definition f64_lt :: "float64 \<Rightarrow> float64 \<Rightarrow> bool" where
  "f64_lt x y \<longleftrightarrow> \<not> f64_isNaN x \<and> \<not> f64_isNaN y \<and> f64_key x < f64_key y"

definition f64_le :: "float64 \<Rightarrow> float64 \<Rightarrow> bool" where
  "f64_le x y \<longleftrightarrow> \<not> f64_isNaN x \<and> \<not> f64_isNaN y \<and> f64_key x \<le> f64_key y"

definition f64_eq :: "float64 \<Rightarrow> float64 \<Rightarrow> bool" where
  "f64_eq x y \<longleftrightarrow> \<not> f64_isNaN x \<and> \<not> f64_isNaN y \<and> f64_key x = f64_key y"

abbreviation f64_zero :: float64 where "f64_zero \<equiv> 0"
abbreviation f64_one :: float64 where "f64_one \<equiv> 0x3FF0000000000000"
abbreviation f64_two :: float64 where "f64_two \<equiv> 0x4000000000000000"
abbreviation f64_nan :: float64 where "f64_nan \<equiv> 0x7FF8000000000001"

section \<open>Conversion between \<open>float64\<close> and \<open>uint64\<close>\<close>

fun log2 :: "nat \<Rightarrow> nat" where
  "log2 n = (if n < 2 then 0 else Suc (log2 (n div 2)))"

declare log2.simps [simp del]

lemma log2_bounds: "0 < n \<Longrightarrow> 2 ^ log2 n \<le> n \<and> n < 2 ^ (log2 n + 1)"
proof (induction n rule: log2.induct)
  case (1 n)
  show ?case
  proof (cases "n < 2")
    case True
    with 1 show ?thesis by (simp add: log2.simps [of n])
  next
    case False
    with 1 have "2 ^ log2 (n div 2) \<le> n div 2" and "n div 2 < 2 ^ (log2 (n div 2) + 1)" by auto
    with False show ?thesis by (auto simp: log2.simps [of n])
  qed
qed

lemma log2_less: "0 < n \<Longrightarrow> n < 2 ^ k \<Longrightarrow> log2 n < k"
  using log2_bounds [of n] by (metis le_less_trans nat_power_less_imp_less zero_less_numeral)

text \<open>
  \<open>float64(n)\<close>: the leading bit gives the exponent; numbers of more than 53 bits are rounded to the
  nearest multiple, ties to even (a carry out of the fraction runs into the exponent field).
\<close>

definition f64_of_uint64 :: "nat \<Rightarrow> float64" where
  "f64_of_uint64 n =
     (if n = 0 then 0
      else
        let e = log2 n;
            frac = (if e \<le> 52 then n * 2 ^ (52 - e)
                    else let d = 2 ^ (e - 52); q = n div d; r = n mod d
                         in if 2 * r < d \<or> 2 * r = d \<and> even q then q else q + 1)
        in word_of_nat ((1023 + e) * 2 ^ 52 + (frac - 2 ^ 52)))"

text \<open>
  \<open>uint64(x)\<close> and \<open>uint32(x)\<close>, by width: truncation. Values outside the range of the type, and NaN, give a result the language
  leaves to the implementation, here the parameter \<open>impl\<close>.
\<close>

definition f64_to_uint :: "nat \<Rightarrow> (float64 \<Rightarrow> nat) \<Rightarrow> float64 \<Rightarrow> nat" where
  "f64_to_uint w impl x =
     (let e = nat (f64_mag x) div 2 ^ 52; m = nat (f64_mag x) mod 2 ^ 52
      in if e < 1023 then 0
         else if f64_neg x \<or> 1023 + w \<le> e then impl x
         else if e < 1023 + 52 then (2 ^ 52 + m) div 2 ^ (1023 + 52 - e)
         else (2 ^ 52 + m) * 2 ^ (e - (1023 + 52)))"

lemma f64_mag_word:
  assumes "v < 2 ^ 63"
  shows "f64_mag (word_of_nat v) = int v \<and> \<not> f64_neg (word_of_nat v)"
proof -
  have "\<not> bit v 63" unfolding bit_iff_odd using assms by simp
  moreover have "take_bit 63 (int v) = int v" using assms by (intro take_bit_int_eq_self) simp_all
  moreover have "take_bit 64 v = v" using assms by (intro take_bit_nat_eq_self) simp
  ultimately show ?thesis
    by (simp add: f64_mag_def f64_neg_def bit_of_nat_iff unsigned_take_bit_eq unsigned_of_nat)
qed

lemma f64_uint64_round_trip:
  assumes "n < 2 ^ 53"
  shows "f64_to_uint 64 impl (f64_of_uint64 n) = n \<and> \<not> f64_isNaN (f64_of_uint64 n)"
proof (cases "n = 0")
  case True
  then show ?thesis by (simp add: f64_of_uint64_def f64_to_uint_def f64_mag_def f64_isNaN_def)
next
  case False
  define e where "e = log2 n"
  have e: "2 ^ e \<le> n" "n < 2 ^ (e + 1)" "e \<le> 52"
    using False log2_bounds [of n] log2_less [of n 53] assms by (auto simp: e_def)
  define f where "f = n * 2 ^ (52 - e) - 2 ^ 52"
  have p52: "(2::nat) ^ e * 2 ^ (52 - e) = 2 ^ 52" using e(3) by (simp add: power_add [symmetric])
  have lo: "2 ^ 52 \<le> n * 2 ^ (52 - e)" using mult_le_mono1 [OF e(1), of "2 ^ (52 - e)"] p52 by simp
  have "n * 2 ^ (52 - e) < 2 ^ (e + 1) * 2 ^ (52 - e)" using e(2) by (intro mult_strict_right_mono) simp_all
  also have "\<dots> = 2 * 2 ^ 52" using p52 by simp
  finally have f: "f < 2 ^ 52" by (simp add: f_def)
  define v where "v = (1023 + e) * 2 ^ 52 + f"
  have x: "f64_of_uint64 n = word_of_nat v"
    using False e(3) by (simp add: f64_of_uint64_def Let_def e_def [symmetric] v_def f_def)
  have "(1023 + e) * 2 ^ 52 \<le> 1075 * (2::nat) ^ 52" using e(3) by (intro mult_le_mono1) simp
  with f have "v < 2 ^ 63" and real: "v < 0x7FF0000000000000" by (simp_all add: v_def)
  with f64_mag_word [of v] have mag: "f64_mag (f64_of_uint64 n) = int v" "\<not> f64_neg (f64_of_uint64 n)"
    by (simp_all add: x)
  have fields: "v div 2 ^ 52 = 1023 + e" "v mod 2 ^ 52 = f" using f unfolding v_def by (simp_all only: div_mult_self3 mod_mult_self3 div_less mod_less)
  have whole: "2 ^ 52 + f = n * 2 ^ (52 - e)" using lo by (simp add: f_def)
  show ?thesis
  proof (cases "e = 52")
    case True
    then show ?thesis using mag fields whole real by (simp add: f64_to_uint_def f64_isNaN_def Let_def)
  next
    case False
    then show ?thesis using mag fields whole e(3) real by (simp add: f64_to_uint_def f64_isNaN_def Let_def)
  qed
qed

text \<open>No \<open>uint64\<close> converts to NaN.\<close>

lemma f64_of_uint64_real:
  assumes "n < 2 ^ 64"
  shows "\<not> f64_isNaN (f64_of_uint64 n)"
proof (cases "n < 2 ^ 53")
  case True
  then show ?thesis using f64_uint64_round_trip by blast
next
  case False
  define e where "e = log2 n"
  have e: "n < 2 ^ (e + 1)" "e < 64"
    using False log2_bounds [of n] log2_less [of n 64] assms by (auto simp: e_def)
  define d where "d = (2::nat) ^ (e - 52)"
  define frac where "frac = (if e \<le> 52 then n * 2 ^ (52 - e)
      else if 2 * (n mod d) < d \<or> 2 * (n mod d) = d \<and> even (n div d) then n div d else n div d + 1)"
  define v where "v = (1023 + e) * 2 ^ 52 + (frac - 2 ^ 52)"
  have "e \<ge> 53" using False e(1) power_increasing [of "e + 1" 53 "2::nat"] by (cases "e + 1 \<le> 53") auto
  moreover have "n div d \<le> 2 ^ 53"
  proof -
    have "53 + (e - 52) = e + 1" using \<open>e \<ge> 53\<close> by simp
    then have "2 ^ 53 * d = 2 ^ (e + 1)" unfolding d_def by (simp only: power_add [symmetric])
    with e(1) have "n < 2 ^ 53 * d" by simp
    then show ?thesis using less_mult_imp_div_less [of n "2 ^ 53" d] by simp
  qed
  ultimately have "frac \<le> 2 ^ 53 + 1" by (auto simp: frac_def)
  moreover have "(1023 + e) * 2 ^ 52 \<le> 1087 * (2::nat) ^ 52" using e(2) by (intro mult_le_mono1) simp
  ultimately have v: "v < 2 ^ 63" "v < 0x7FF0000000000000" by (simp_all add: v_def)
  have "f64_of_uint64 n = word_of_nat v"
    using False unfolding f64_of_uint64_def e_def [symmetric] Let_def d_def [symmetric] frac_def [symmetric] v_def
    by auto
  with f64_mag_word [OF v(1)] v(2) show ?thesis by (simp add: f64_isNaN_def)
qed

end
