(* ===== verification/Store.thy ===== *)
theory Store
  imports GoLib
begin

text \<open>
  The keyspace of \<^verbatim>\<open>src/app/store.go\<close>: its types, the string operations, expiry, and the watcher
  bookkeeping of optimistic locking. A method that holds the mutex over its whole body is one
  function on the store. Pointers the store holds into objects of other goroutines (transactions,
  BLPOP channels) are numbers; the objects they lead to are the components \<open>txs\<close> and \<open>chans\<close> of the
  record. A stream or sorted set is reached through one entry only, so it is part of the entry.
\<close>

section \<open>Types\<close>

datatype store_error =
  ErrBitValue | ErrNotInteger | ErrBitOffset | ErrIDZero | ErrInvalidID | ErrWrongType | ErrIDTooSmall
| ErrGeo string

fun Error :: "store_error \<Rightarrow> string" where
  "Error ErrBitValue = ''ERR bit is not an integer or out of range''"
| "Error ErrNotInteger = ''ERR value is not an integer or out of range''"
| "Error ErrBitOffset = ''ERR bit offset is not an integer or out of range''"
| "Error ErrIDZero = ''ERR The ID specified in XADD must be greater than 0-0''"
| "Error ErrInvalidID = ''ERR Invalid stream ID specified as stream command argument''"
| "Error ErrWrongType = ''WRONGTYPE Operation against a key holding the wrong kind of value''"
| "Error ErrIDTooSmall =
     ''ERR The ID specified in XADD is equal or smaller than the target stream top item''"
| "Error (ErrGeo pair) = ''ERR invalid longitude,latitude pair '' @ pair"

datatype StreamID = StreamID (Ms: "64 word") (Seq: "64 word")

record StreamEntry =
  ID :: StreamID
  SFields :: "string list"

record Stream =
  Entries :: "StreamEntry list"
  LastID :: StreamID

record ZsetEntry =
  name :: string
  score :: float64

record Zset =
  scores :: "string \<rightharpoonup> float64"
  zsorted :: "ZsetEntry list"

record entry =
  e_kind :: string
  e_value :: string
  e_list :: "string list"
  e_stream :: "Stream option"
  e_expiresAt :: time
  e_zset :: "Zset option"

text \<open>The zero value of the struct.\<close>

definition zero_entry :: entry where
  "zero_entry = \<lparr>e_kind = [], e_value = [], e_list = [], e_stream = None,
     e_expiresAt = zero_time, e_zset = None\<rparr>"

type_synonym popped = "string \<times> string"
type_synonym txid = nat
type_synonym chanid = nat

text \<open>\<open>client.go\<close>: the transaction of a connection.\<close>

record transaction =
  tx_active :: bool
  tx_queued :: "bytes list list"
  tx_watched :: "string list"
  tx_dirty :: bool

definition zero_transaction :: transaction where
  "zero_transaction = \<lparr>tx_active = False, tx_queued = [], tx_watched = [], tx_dirty = False\<rparr>"

text \<open>
  \<open>notify\<close> is the number of the current broadcast channel: closing it and making a new one is
  counting it up. \<open>chans\<close> holds the buffered values of every BLPOP channel (capacity one), \<open>next_chan\<close>
  the next unused channel number.
\<close>

record store =
  data :: "string \<rightharpoonup> entry"
  waiters :: "string \<rightharpoonup> chanid list"
  notify :: nat
  watchers :: "string \<rightharpoonup> txid list"
  txs :: "txid \<Rightarrow> transaction"
  chans :: "chanid \<Rightarrow> popped list"
  next_chan :: chanid

text \<open>Reading a Go map of slices at a missing key gives the empty slice.\<close>

definition slice_at :: "(string \<rightharpoonup> 'a list) \<Rightarrow> string \<Rightarrow> 'a list" where
  "slice_at m k = (case m k of None \<Rightarrow> [] | Some l \<Rightarrow> l)"

lemma slice_at_simps [simp]:
  "slice_at Map.empty k = []"
  "slice_at (m(k \<mapsto> l)) k' = (if k = k' then l else slice_at m k')"
  "slice_at (m(k := None)) k' = (if k = k' then [] else slice_at m k')"
  by (auto simp: slice_at_def)

lemma slice_at_if [simp]:
  "slice_at (\<lambda>b. if b = k then Some l else m b) k' = (if k' = k then l else slice_at m k')"
  "slice_at (\<lambda>b. if b = k then None else m b) k' = (if k' = k then [] else slice_at m k')"
  by (auto simp: slice_at_def)

text \<open>Reading the map of entries at a missing key gives the zero entry.\<close>

definition entry_at :: "store \<Rightarrow> string \<Rightarrow> entry" where
  "entry_at s k = (case data s k of None \<Rightarrow> zero_entry | Some e \<Rightarrow> e)"

definition newStore :: store where
  "newStore = \<lparr>data = Map.empty, waiters = Map.empty, notify = 0, watchers = Map.empty,
     txs = (\<lambda>_. zero_transaction), chans = (\<lambda>_. []), next_chan = 0\<rparr>"

section \<open>Expiry\<close>

definition expired :: "entry \<Rightarrow> time \<Rightarrow> bool" where
  "expired e now \<longleftrightarrow> \<not> IsZero (e_expiresAt e) \<and> After now (e_expiresAt e)"

section \<open>Watchers\<close>

definition markWatchersLocked :: "string \<Rightarrow> store \<Rightarrow> store" where
  "markWatchersLocked key s =
     s\<lparr>txs := fold (\<lambda>tx h. h(tx := (h tx)\<lparr>tx_dirty := True\<rparr>)) (slice_at (watchers s) key) (txs s)\<rparr>"

definition Watch :: "txid \<Rightarrow> string list \<Rightarrow> store \<Rightarrow> store" where
  "Watch tx keys s =
     fold (\<lambda>key s. s\<lparr>watchers := (watchers s)(key \<mapsto> slice_at (watchers s) key @ [tx]),
                     txs := (txs s)(tx := (txs s tx)\<lparr>tx_watched := tx_watched (txs s tx) @ [key]\<rparr>)\<rparr>)
       keys s"

definition CheckDirty :: "txid \<Rightarrow> store \<Rightarrow> bool" where
  "CheckDirty tx s = tx_dirty (txs s tx)"

text \<open>
  The body of the loop of \<open>Unwatch\<close> over the watched keys: it walks the queue of the key, deletes the
  key from the map for every other transaction it finds and stores the empty slice \<open>queue[:0]\<close> for
  its own.
\<close>

definition unwatch_key :: "txid \<Rightarrow> string \<Rightarrow> store \<Rightarrow> store" where
  "unwatch_key tx k s =
     (let queue = slice_at (watchers s) k;
          ws = fold (\<lambda>w ws. if w \<noteq> tx then ws(k := None) else ws(k \<mapsto> [])) queue (watchers s)
      in s\<lparr>watchers := ws,
           txs := (txs s)(tx := (txs s tx)\<lparr>tx_watched := [], tx_dirty := False\<rparr>)\<rparr>)"

definition Unwatch :: "txid \<Rightarrow> store \<Rightarrow> store" where
  "Unwatch tx s = fold (unwatch_key tx) (tx_watched (txs s tx)) s"

section \<open>Strings\<close>

definition Set :: "string \<Rightarrow> string \<Rightarrow> time \<Rightarrow> store \<Rightarrow> store" where
  "Set key val expiresAt s =
     (let s1 = markWatchersLocked key s
      in s1\<lparr>data := (data s1)(key \<mapsto>
           zero_entry\<lparr>e_value := val, e_expiresAt := expiresAt, e_kind := ''string''\<rparr>)\<rparr>)"

definition Get :: "time \<Rightarrow> string \<Rightarrow> store \<Rightarrow> string \<times> bool" where
  "Get now key s =
     (case data s key of
        None \<Rightarrow> ([], False)
      | Some e \<Rightarrow>
          if \<not> IsZero (e_expiresAt e) \<and> After now (e_expiresAt e) then ([], False)
          else (e_value e, True))"

definition EntryType :: "string \<Rightarrow> store \<Rightarrow> string \<times> bool" where
  "EntryType key s = (case data s key of None \<Rightarrow> ([], False) | Some e \<Rightarrow> (e_kind e, True))"

definition Increment :: "string \<Rightarrow> store \<Rightarrow> (store_error + int) \<times> store" where
  "Increment key s =
     (let ok = data s key \<noteq> None; e = entry_at s key
      in if ok \<and> e_kind e \<noteq> ''string'' then (Inl ErrWrongType, s)
         else
           (let (v, err) = (if ok then ParseInt (e_value e) else (0, NoErr))
            in if err \<noteq> NoErr then (Inl ErrNotInteger, s)
               else
                 (let v' = wrap64 (v + 1);
                      s1 = s\<lparr>data := (data s)(key \<mapsto>
                             e\<lparr>e_kind := ''string'', e_value := FormatInt v'\<rparr>)\<rparr>
                  in (Inr v', markWatchersLocked key s1))))"

section \<open>The whole keyspace\<close>

text \<open>
  Ranging over a Go map visits every key once, in an order the language leaves open: \<open>order\<close> is that
  order. The pattern of \<open>Keys\<close> is not used by the code.
\<close>

definition Keys :: "(string set \<Rightarrow> string list) \<Rightarrow> string \<Rightarrow> store \<Rightarrow> string list" where
  "Keys order pattern s = order (dom (data s))"

definition evict_key :: "time \<Rightarrow> string \<Rightarrow> store \<Rightarrow> store" where
  "evict_key now k s =
     (case data s k of
        None \<Rightarrow> s
      | Some e \<Rightarrow>
          if \<not> IsZero (e_expiresAt e) \<and> After now (e_expiresAt e)
          then (let s1 = markWatchersLocked k s in s1\<lparr>data := (data s1)(k := None)\<rparr>)
          else s)"

definition evictExpired :: "(string set \<Rightarrow> string list) \<Rightarrow> time \<Rightarrow> store \<Rightarrow> store" where
  "evictExpired order now s = fold (evict_key now) (order (dom (data s))) s"

section \<open>Watchers: what marking and watching do\<close>

lemma fold_dirty:
  "fold (\<lambda>tx h. h(tx := (h tx)\<lparr>tx_dirty := True\<rparr>)) q h t =
     (if t \<in> set q then (h t)\<lparr>tx_dirty := True\<rparr> else h t)"
  by (induction q arbitrary: h) auto

lemma markWatchersLocked_simps [simp]:
  "data (markWatchersLocked k s) = data s"
  "waiters (markWatchersLocked k s) = waiters s"
  "notify (markWatchersLocked k s) = notify s"
  "watchers (markWatchersLocked k s) = watchers s"
  "chans (markWatchersLocked k s) = chans s"
  "next_chan (markWatchersLocked k s) = next_chan s"
  by (simp_all add: markWatchersLocked_def)

lemma txs_markWatchersLocked:
  "txs (markWatchersLocked k s) t =
     (if t \<in> set (slice_at (watchers s) k) then (txs s t)\<lparr>tx_dirty := True\<rparr> else txs s t)"
  by (simp add: markWatchersLocked_def fold_dirty)

lemma dirty_markWatchersLocked [simp]:
  "tx_dirty (txs (markWatchersLocked k s) t) \<longleftrightarrow>
     tx_dirty (txs s t) \<or> t \<in> set (slice_at (watchers s) k)"
  by (simp add: txs_markWatchersLocked)

lemma tx_fields_markWatchersLocked [simp]:
  "tx_watched (txs (markWatchersLocked k s) t) = tx_watched (txs s t)"
  "tx_active (txs (markWatchersLocked k s) t) = tx_active (txs s t)"
  "tx_queued (txs (markWatchersLocked k s) t) = tx_queued (txs s t)"
  by (simp_all add: txs_markWatchersLocked)

lemma Watch_watchers:
  "slice_at (watchers (Watch tx keys s)) k =
     slice_at (watchers s) k @ replicate (count_list keys k) tx"
proof (induction keys arbitrary: s)
  case (Cons a keys)
  then show ?case by (simp add: Watch_def replicate_app_Cons_same)
qed (simp add: Watch_def)

lemma Watch_frame [simp]: "data (Watch tx keys s) = data s"
  unfolding Watch_def by (induction keys arbitrary: s) simp_all

lemma Watch_txs:
  "txs (Watch tx keys s) t =
     (if t = tx then (txs s t)\<lparr>tx_watched := tx_watched (txs s t) @ keys\<rparr> else txs s t)"
proof (induction keys arbitrary: s)
  case (Cons a keys)
  then show ?case by (simp add: Watch_def)
qed (simp add: Watch_def)

text \<open>
  After \<open>Unwatch\<close> no transaction at all is registered for the keys its caller watched, and its caller
  is clean when it watched any key.
\<close>

lemma fold_unwatch_queue:
  "fold (\<lambda>w ws. if w \<noteq> tx then ws(k := None) else ws(k \<mapsto> [])) q ws =
     (if q = [] then ws else if last q \<noteq> tx then ws(k := None) else ws(k \<mapsto> []))"
  by (induction q arbitrary: ws) auto

lemma unwatch_key_watchers:
  "slice_at (watchers (unwatch_key tx k s)) k' = (if k = k' then [] else slice_at (watchers s) k')"
  by (auto simp: unwatch_key_def Let_def fold_unwatch_queue)

lemma unwatch_key_txs:
  "txs (unwatch_key tx k s) =
     (txs s)(tx := (txs s tx)\<lparr>tx_watched := [], tx_dirty := False\<rparr>)"
  by (simp add: unwatch_key_def Let_def)

lemma unwatch_fold_watchers:
  "slice_at (watchers (fold (unwatch_key tx) ks s)) k =
     (if k \<in> set ks then [] else slice_at (watchers s) k)"
  by (induction ks arbitrary: s) (auto simp: unwatch_key_watchers)

lemma unwatch_fold_txs:
  "txs (fold (unwatch_key tx) ks s) =
     (if ks = [] then txs s else (txs s)(tx := (txs s tx)\<lparr>tx_watched := [], tx_dirty := False\<rparr>))"
  by (induction ks arbitrary: s) (auto simp: unwatch_key_txs)

lemma unwatch_key_frame [simp]:
  "data (unwatch_key tx k s) = data s" "waiters (unwatch_key tx k s) = waiters s"
  "notify (unwatch_key tx k s) = notify s" "chans (unwatch_key tx k s) = chans s"
  "next_chan (unwatch_key tx k s) = next_chan s"
  by (simp_all add: unwatch_key_def Let_def)

lemma Unwatch_frame [simp]: "data (Unwatch tx s) = data s"
proof -
  have "data (fold (unwatch_key tx) ks s) = data s" for ks
    by (induction ks arbitrary: s) simp_all
  then show ?thesis by (simp add: Unwatch_def)
qed

lemma Unwatch_watchers:
  "slice_at (watchers (Unwatch tx s)) k =
     (if k \<in> set (tx_watched (txs s tx)) then [] else slice_at (watchers s) k)"
  by (simp add: Unwatch_def unwatch_fold_watchers)

section \<open>The keyspace as an expiring map\<close>

text \<open>
  The contract of the callback \<open>SetFunc\<close> that the RDB loader is given, and of \<open>SET\<close>/\<open>GET\<close>: a write is
  visible under its key until its deadline has passed, and under no other key. The client lemma is the
  lookup after a sequence of writes.
\<close>

definition visible :: "time \<Rightarrow> string \<times> time \<Rightarrow> string \<times> bool" where
  "visible now b =
     (if \<not> IsZero (snd b) \<and> After now (snd b) then ([], False) else (fst b, True))"

locale expiring_map =
  fixes put :: "string \<Rightarrow> string \<Rightarrow> time \<Rightarrow> 's \<Rightarrow> 's"
    and look :: "time \<Rightarrow> string \<Rightarrow> 's \<Rightarrow> string \<times> bool"
  assumes look_put: "look now k (put k v t s) = visible now (v, t)"
    and look_put_other: "k \<noteq> k' \<Longrightarrow> look now k (put k' v t s) = look now k s"
begin

definition put_all :: "(string \<times> string \<times> time) list \<Rightarrow> 's \<Rightarrow> 's" where
  "put_all bs s = fold (\<lambda>(k, v, t). put k v t) bs s"

lemma look_put_all:
  "look now k (put_all bs s) =
     (case map_of (rev bs) k of None \<Rightarrow> look now k s | Some b \<Rightarrow> visible now b)"
proof (induction bs rule: rev_induct)
  case (snoc b bs)
  obtain k' v t where b: "b = (k', v, t)" by (cases b) auto
  show ?case
  proof (cases "k = k'")
    case True
    then show ?thesis by (simp add: put_all_def b look_put)
  next
    case False
    with snoc show ?thesis by (simp add: put_all_def b look_put_other)
  qed
qed (simp add: put_all_def)

end

interpretation kv: expiring_map Set Get
  by unfold_locales (simp_all add: Set_def Get_def Let_def visible_def zero_entry_def)

section \<open>Eviction\<close>

lemma data_evict_key:
  "data (evict_key now k s) =
     (\<lambda>k'. if k' = k \<and> (\<exists>e. data s k = Some e \<and> expired e now) then None else data s k')"
  by (auto simp: evict_key_def expired_def Let_def split: option.splits)

lemma watchers_evict_key [simp]: "watchers (evict_key now k s) = watchers s"
  by (auto simp: evict_key_def Let_def split: option.splits)

lemma dirty_evict_key:
  "tx_dirty (txs (evict_key now k s) t) \<longleftrightarrow> tx_dirty (txs s t) \<or>
     ((\<exists>e. data s k = Some e \<and> expired e now) \<and> t \<in> set (slice_at (watchers s) k))"
  by (auto simp: evict_key_def expired_def Let_def split: option.splits)

lemma data_evict_fold:
  "data (fold (evict_key now) ks s) k =
     (case data s k of
        None \<Rightarrow> None
      | Some e \<Rightarrow> if k \<in> set ks \<and> expired e now then None else Some e)"
proof (induction ks arbitrary: s)
  case (Cons a ks)
  then show ?case by (auto simp: data_evict_key split: option.splits)
qed (simp split: option.splits)

lemma dirty_evict_fold:
  "tx_dirty (txs (fold (evict_key now) ks s) t) \<longleftrightarrow> tx_dirty (txs s t) \<or>
     (\<exists>k \<in> set ks. \<exists>e. data s k = Some e \<and> expired e now \<and> t \<in> set (slice_at (watchers s) k))"
proof (induction ks arbitrary: s)
  case (Cons a ks)
  show ?case
    by (auto simp: Cons.IH dirty_evict_key data_evict_key split: if_splits)
qed simp

text \<open>The order in which Go ranges over a map is unspecified but complete.\<close>

definition ranges :: "('a set \<Rightarrow> 'a list) \<Rightarrow> bool" where
  "ranges order \<longleftrightarrow> (\<forall>S. finite S \<longrightarrow> set (order S) = S \<and> distinct (order S))"

lemma rangesD: "ranges order \<Longrightarrow> finite S \<Longrightarrow> set (order S) = S"
  by (simp add: ranges_def)

lemma ranges_sorted: "ranges sorted_list_of_set"
  by (simp add: ranges_def)

lemma Get_evictExpired:
  assumes "ranges order" and "finite (dom (data s))" and "now \<le> now'"
  shows "Get now' k (evictExpired order now s) = Get now' k s"
  using assms rangesD [OF assms(1,2)]
  by (auto simp: Get_def evictExpired_def data_evict_fold expired_def After_def dom_def
      split: option.splits)

section \<open>Properties\<close>

text \<open>SET then GET: a value is read back under its own key until its deadline has passed, a key
  that was overwritten by an expired value reads as missing, and every other key is unchanged.\<close>

theorem set_then_get:
  "Get now k' (Set k v t s) = (if k' = k then visible now (v, t) else Get now k' s)"
  by (simp add: kv.look_put kv.look_put_other)

text \<open>C27. The sweeper removes exactly the expired entries, marks exactly the transactions that watch
  one of them, and no read at or after the sweep can tell that it ran.\<close>

theorem sweep_is_invisible:
  assumes "ranges order" and "finite (dom (data s))" and "now \<le> now'"
  shows "data (evictExpired order now s) k =
      (case data s k of None \<Rightarrow> None | Some e \<Rightarrow> if expired e now then None else Some e) \<and>
    (CheckDirty t (evictExpired order now s) \<longleftrightarrow> CheckDirty t s \<or>
      (\<exists>k e. data s k = Some e \<and> expired e now \<and> t \<in> set (slice_at (watchers s) k))) \<and>
    Get now' k (evictExpired order now s) = Get now' k s"
proof -
  note order = rangesD [OF assms(1,2)]
  have "data (evictExpired order now s) k =
      (case data s k of None \<Rightarrow> None | Some e \<Rightarrow> if expired e now then None else Some e)"
    using order by (auto simp: evictExpired_def data_evict_fold split: option.splits)
  moreover have "CheckDirty t (evictExpired order now s) \<longleftrightarrow> CheckDirty t s \<or>
      (\<exists>k e. data s k = Some e \<and> expired e now \<and> t \<in> set (slice_at (watchers s) k))"
    using order by (auto simp: CheckDirty_def evictExpired_def dirty_evict_fold)
  ultimately show ?thesis using Get_evictExpired [OF assms] by blast
qed

theorem sweep_is_invisible_witness:
  "data (evictExpired sorted_list_of_set 20 (Set ''k'' ''v'' 10 newStore)) ''k'' = None"
proof -
  have "finite (dom (data (Set ''k'' ''v'' 10 newStore)))"
    by (simp add: Set_def Let_def newStore_def)
  from sweep_is_invisible [OF ranges_sorted this, of 20 20 "''k''" 0] show ?thesis
    by (simp add: Set_def Let_def newStore_def expired_def IsZero_def After_def zero_time_def)
qed

text \<open>C26. Optimistic locking: once a transaction watches a key, a SET of that key and a successful
  INCR of it make the transaction dirty; a SET of a key it is not registered for leaves it as it
  was.\<close>

theorem watch_detects_writes:
  assumes "k \<in> set keys" and "tx' \<notin> set (slice_at (watchers s) k)"
  shows "CheckDirty tx (Set k v t (Watch tx keys s)) \<and>
    (\<forall>n s'. Increment k (Watch tx keys s) = (Inr n, s') \<longrightarrow> CheckDirty tx s') \<and>
    CheckDirty tx' (Set k v t s) = CheckDirty tx' s"
proof -
  have "tx \<in> set (slice_at (watchers (Watch tx keys s)) k)"
    using assms(1) by (simp add: Watch_watchers count_list_0_iff)
  with assms(2) show ?thesis
    by (auto simp: CheckDirty_def Set_def Increment_def Let_def split: if_splits prod.splits)
qed

theorem watch_detects_writes_witness:
  "CheckDirty 7 (Set ''k'' ''v'' zero_time (Watch 7 [''j'', ''k''] newStore))"
  using watch_detects_writes [of "''k''" "[''j'', ''k'']" 3 newStore 7] by (simp add: newStore_def)

text \<open>Defect: \<open>Unwatch\<close> drops the registrations of every transaction for the keys its caller
  watched. When two transactions watch a key and one of them ends, a later write of that key no
  longer makes the other one dirty, so its EXEC does not abort.\<close>

theorem unwatch_drops_other_watchers:
  assumes "t \<noteq> tx" and "k \<in> set keys"
  shows "CheckDirty t (Set k v e (Unwatch tx (Watch tx keys (Watch t [k] s)))) = CheckDirty t s"
proof -
  let ?s = "Watch tx keys (Watch t [k] s)"
  have "k \<in> set (tx_watched (txs ?s tx))" using assms by (simp add: Watch_txs)
  then have "slice_at (watchers (Unwatch tx ?s)) k = []" by (simp add: Unwatch_watchers)
  moreover have "tx_dirty (txs (Unwatch tx ?s) t) = tx_dirty (txs s t)"
    using assms(1) by (simp add: Unwatch_def unwatch_fold_txs Watch_txs)
  ultimately show ?thesis by (simp add: CheckDirty_def Set_def Let_def)
qed

theorem unwatch_drops_other_watchers_witness:
  "\<not> CheckDirty 1 (Set ''k'' ''v'' zero_time (Unwatch 2 (Watch 2 [''k''] (Watch 1 [''k''] newStore))))"
  using unwatch_drops_other_watchers [of 1 2 "''k''" "[''k'']" "''v''" zero_time newStore]
  by (simp add: CheckDirty_def newStore_def zero_transaction_def)

text \<open>C36. INCR on every branch. A key that holds another kind of value, or a string that is not an
  optional sign and decimal digits in the range of \<open>int64\<close>, gets its error and nothing changes. A
  string that denotes \<open>v\<close>, in whatever spelling, gets \<open>v + 1\<close> as the reply and as its new text, and
  the largest integer is followed by the smallest; the expiry of the entry stays, no other key
  changes and every watcher of the key is marked. A missing key becomes the string 1 with no
  expiry. The new text denotes the number replied.\<close>

theorem increment_result:
  "(data s k = Some e \<and> e_kind e \<noteq> ''string'' \<longrightarrow> Increment k s = (Inl ErrWrongType, s)) \<and>
   (data s k = Some e \<and> e_kind e = ''string'' \<and> (\<nexists>v. denotes (e_value e) v) \<longrightarrow>
      Increment k s = (Inl ErrNotInteger, s)) \<and>
   (data s k = Some e \<and> e_kind e = ''string'' \<and> denotes (e_value e) v \<longrightarrow>
      (\<exists>s' v'. v' = (if v = max_int64 then min_int64 else v + 1) \<and> Increment k s = (Inr v', s') \<and>
         data s' = (data s)(k \<mapsto> e\<lparr>e_value := FormatInt v'\<rparr>) \<and> denotes (FormatInt v') v' \<and>
         (\<forall>t. CheckDirty t s' \<longleftrightarrow> CheckDirty t s \<or> t \<in> set (slice_at (watchers s) k)))) \<and>
   (data s k = None \<longrightarrow>
      (\<exists>s'. Increment k s = (Inr 1, s') \<and>
         data s' = (data s)(k \<mapsto> zero_entry\<lparr>e_kind := ''string'', e_value := ''1''\<rparr>) \<and>
         (\<forall>t. CheckDirty t s' \<longleftrightarrow> CheckDirty t s \<or> t \<in> set (slice_at (watchers s) k))))"
proof -
  have none: "Increment k s = (Inl ErrNotInteger, s)"
    if "data s k = Some e" "e_kind e = ''string''" "\<nexists>v. denotes (e_value e) v"
  proof -
    obtain v er where p: "ParseInt (e_value e) = (v, er)" by fastforce
    with that(3) have "er \<noteq> NoErr" using ParseInt_denotes by blast
    with that p show ?thesis by (simp add: Increment_def entry_at_def)
  qed
  have one: "wrap64 1 = 1" "FormatInt 1 = ''1''"
    by (simp add: is_int64_def min_int64_def max_int64_def) code_simp
  have some: "\<exists>s' v'. v' = (if v = max_int64 then min_int64 else v + 1) \<and>
      Increment k s = (Inr v', s') \<and>
      data s' = (data s)(k \<mapsto> e\<lparr>e_value := FormatInt v'\<rparr>) \<and> denotes (FormatInt v') v' \<and>
      (\<forall>t. CheckDirty t s' \<longleftrightarrow> CheckDirty t s \<or> t \<in> set (slice_at (watchers s) k))"
    if e: "data s k = Some e" "e_kind e = ''string''" and v: "denotes (e_value e) v"
  proof -
    let ?v = "if v = max_int64 then min_int64 else v + 1"
    have w: "wrap64 (v + 1) = ?v" using v by (intro successor_wraps) (simp add: denotes_def)
    have "denotes (FormatInt ?v) ?v"
      unfolding ParseInt_denotes [symmetric] w [symmetric] by (intro ParseInt_FormatInt is_int64_wrap64)
    moreover have k: "e\<lparr>e_kind := ''string'', e_value := x\<rparr> = e\<lparr>e_value := x\<rparr>" for x
      using e(2) by (cases e) simp
    moreover have "Increment k s =
        (Inr ?v, markWatchersLocked k (s\<lparr>data := (data s)(k \<mapsto> e\<lparr>e_value := FormatInt ?v\<rparr>)\<rparr>))"
      using e v unfolding ParseInt_denotes [symmetric] w [symmetric]
      by (simp add: Increment_def entry_at_def Let_def k)
    ultimately show ?thesis by (auto simp: CheckDirty_def)
  qed
  show ?thesis
    using none some one by (auto simp: Increment_def entry_at_def CheckDirty_def Let_def)
qed

theorem increment_result_witness:
  "fst (Increment ''l'' (newStore\<lparr>data := [''l'' \<mapsto> zero_entry\<lparr>e_kind := ''list''\<rparr>]\<rparr>)) = Inl ErrWrongType \<and>
   Increment ''k'' (Set ''k'' ''4x'' zero_time newStore) =
     (Inl ErrNotInteger, Set ''k'' ''4x'' zero_time newStore) \<and>
   fst (Increment ''k'' (Set ''k'' ''+041'' zero_time newStore)) = Inr 42 \<and>
   fst (Increment ''k'' (Set ''k'' (FormatInt max_int64) zero_time newStore)) = Inr min_int64 \<and>
   fst (Increment ''j'' (Set ''k'' ''4x'' zero_time newStore)) = Inr 1"
proof -
  let ?e = "\<lambda>x. zero_entry\<lparr>e_value := x, e_expiresAt := zero_time, e_kind := ''string''\<rparr>"
  have d: "data (Set ''k'' x zero_time newStore) = [''k'' \<mapsto> ?e x]" for x
    by (simp add: Set_def Let_def newStore_def)
  have "ParseInt ''4x'' = (0, SyntaxErr)"
    by (simp add: ParseInt_def strip_sign_def ParseUint_def is_digit_def digit_val_def max_uint64_def)
  then have x: "\<nexists>v. denotes ''4x'' v" by (simp flip: ParseInt_denotes)
  have "ParseInt ''+041'' = (41, NoErr)"
    by (simp add: ParseInt_def strip_sign_def ParseUint_def is_digit_def digit_val_def max_uint64_def)
  then have y: "denotes ''+041'' 41" by (simp flip: ParseInt_denotes)
  have z: "denotes (FormatInt max_int64) max_int64"
    unfolding ParseInt_denotes [symmetric]
    by (rule ParseInt_FormatInt) (simp add: is_int64_def min_int64_def max_int64_def)
  have m: "(41 :: int) \<noteq> max_int64" by (simp add: max_int64_def)
  show ?thesis
    using increment_result [of "newStore\<lparr>data := [''l'' \<mapsto> zero_entry\<lparr>e_kind := ''list''\<rparr>]\<rparr>" "''l''"
        "zero_entry\<lparr>e_kind := ''list''\<rparr>" 0]
      increment_result [of "Set ''k'' ''4x'' zero_time newStore" "''k''" "?e ''4x''" 0]
      increment_result [of "Set ''k'' ''+041'' zero_time newStore" "''k''" "?e ''+041''" 41]
      increment_result [of "Set ''k'' (FormatInt max_int64) zero_time newStore" "''k''"
        "?e (FormatInt max_int64)" max_int64]
      increment_result [of "Set ''k'' ''4x'' zero_time newStore" "''j''" zero_entry 0]
      d x y z m by auto
qed

end
