(* ===== verification/RespReader.thy ===== *)
theory RespReader
  imports GoLib "HOL-Library.Sublist"
begin

text \<open>
  The RESP reader, \<^verbatim>\<open>src/app/resp/reader.go\<close>. The state of a \<open>Reader\<close> is the input that is still
  unread, as a byte string that ends where the connection or file ends; every function returns an
  error or its result with the input that remains. The loop of \<open>ReadCommand\<close> is a recursive
  function whose termination is that every iteration consumes input.
\<close>

section \<open>Limits and errors\<close>

definition maxLineLength :: nat where "maxLineLength = 64 * 1024"
definition maxBulkLength :: int where "maxBulkLength = 512 * 1024 * 1024"
definition maxArrayLen :: int where "maxArrayLen = 1024 * 1024"

datatype read_err = EOF | ErrUnexpectedEOF | ProtocolError string

definition ProtocolError_Error :: "string \<Rightarrow> string" where
  "ProtocolError_Error msg = ''Protocol error: '' @ msg"

definition protoErr :: "string \<Rightarrow> read_err" where "protoErr msg = ProtocolError msg"

definition unexpectedEOF :: "read_err \<Rightarrow> read_err" where
  "unexpectedEOF err = (if err = EOF then ErrUnexpectedEOF else err)"

text \<open>\<open>fmt\<close>'s \<open>%c\<close> on a byte: the UTF-8 encoding of the rune with that number.\<close>

definition fmt_c :: "char \<Rightarrow> string" where
  "fmt_c c = (let n = of_char c :: nat
     in if n < 128 then [c] else [char_of (0xC0 + n div 64), char_of (0x80 + n mod 64)])"

section \<open>Lines and integers\<close>

text \<open>\<open>bufio.Reader.ReadBytes\<close>: the input up to and including the delimiter, \<open>None\<close> at the end of
  the input.\<close>

fun ReadBytes :: "char \<Rightarrow> bytes \<Rightarrow> (bytes \<times> bytes) option" where
  "ReadBytes d [] = None"
| "ReadBytes d (c # cs) =
     (if c = d then Some ([c], cs)
      else case ReadBytes d cs of None \<Rightarrow> None | Some (l, r) \<Rightarrow> Some (c # l, r))"

definition readLine :: "bytes \<Rightarrow> read_err + (bytes \<times> bytes)" where
  "readLine r =
     (case ReadBytes LF r of
        None \<Rightarrow> Inl (unexpectedEOF EOF)
      | Some (line, r') \<Rightarrow>
          if maxLineLength < length line then Inl (protoErr ''line too long'')
          else if length line < 2 \<or> line ! (length line - 2) \<noteq> CR
               then Inl (protoErr ''expected CLRF line terminator'')
          else Inr (take (length line - 2) line, r'))"

fun parseInt_loop :: "bytes \<Rightarrow> int \<Rightarrow> read_err + int" where
  "parseInt_loop [] n = Inr n"
| "parseInt_loop (c # cs) n =
     (if \<not> is_digit c then Inl (protoErr ''invalid integer'')
      else let n' = n * 10 + int (digit_val c)
           in if maxBulkLength < n' then Inl (protoErr ''integer overflow'')
              else parseInt_loop cs n')"

definition parseInt :: "bytes \<Rightarrow> read_err + int" where
  "parseInt b =
     (if b = [] then Inl (protoErr ''empty integer'')
      else if hd b = CHR ''-''
      then (if length b = 1 then Inl (protoErr ''invalid'')
            else case parseInt_loop (tl b) 0 of Inl e \<Rightarrow> Inl e | Inr n \<Rightarrow> Inr (- n))
      else parseInt_loop b 0)"

section \<open>Commands\<close>

definition readBulkString :: "bytes \<Rightarrow> read_err + (bytes \<times> bytes)" where
  "readBulkString r =
     (case readLine r of
        Inl e \<Rightarrow> Inl e
      | Inr (line, r1) \<Rightarrow>
          (case parseInt line of
             Inl _ \<Rightarrow> Inl (protoErr ''invalid bulk length'')
           | Inr n \<Rightarrow>
               if n < 0 \<or> maxBulkLength < n then Inl (protoErr ''invalid bulk length'')
               else let k = nat n
                    in if length r1 < k + 2 then Inl ErrUnexpectedEOF
                       else if r1 ! k \<noteq> CR \<or> r1 ! (k + 1) \<noteq> LF
                       then Inl (protoErr ''expected CRLF after bulk payload'')
                       else Inr (take k r1, drop (k + 2) r1)))"

text \<open>The loop over the \<open>n\<close> arguments of a multibulk command.\<close>

fun read_args :: "nat \<Rightarrow> bytes \<Rightarrow> read_err + (bytes list \<times> bytes)" where
  "read_args 0 r = Inr ([], r)"
| "read_args (Suc n) r =
     (case r of
        [] \<Rightarrow> Inl (unexpectedEOF EOF)
      | b # r1 \<Rightarrow>
          if b \<noteq> CHR ''$'' then Inl (protoErr (''expected '' @ [CHR 0x27] @ ''$'' @ [CHR 0x27] @
            '', got '' @ [CHR 0x27] @ fmt_c b @ [CHR 0x27]))
          else case readBulkString r1 of
                 Inl e \<Rightarrow> Inl e
               | Inr (arg, r2) \<Rightarrow>
                   (case read_args n r2 of Inl e \<Rightarrow> Inl e | Inr (args, r3) \<Rightarrow> Inr (arg # args, r3)))"

text \<open>\<open>None\<close> is Go's nil command: an empty array or a blank line, which the caller skips.\<close>

definition readCommandArray :: "bytes \<Rightarrow> read_err + (bytes list option \<times> bytes)" where
  "readCommandArray r =
     (case readLine r of
        Inl e \<Rightarrow> Inl e
      | Inr (line, r1) \<Rightarrow>
          (case parseInt line of
             Inl _ \<Rightarrow> Inl (protoErr ''invalid multibulk length'')
           | Inr n \<Rightarrow>
               if n < 0 \<or> maxArrayLen < n then Inl (protoErr ''invalid multibulk length'')
               else if n = 0 then Inr (None, r1)
               else case read_args (nat n) r1 of
                      Inl e \<Rightarrow> Inl e
                    | Inr (args, r2) \<Rightarrow> Inr (Some args, r2)))"

definition readInlineCommand :: "bytes \<Rightarrow> read_err + (bytes list option \<times> bytes)" where
  "readInlineCommand r =
     (case readLine r of
        Inl e \<Rightarrow> Inl e
      | Inr (line, r1) \<Rightarrow> (let fs = Fields line in if fs = [] then Inr (None, r1) else Inr (Some fs, r1)))"

section \<open>Every read consumes input\<close>

lemma ReadBytes_append: "ReadBytes d r = Some (l, r') \<Longrightarrow> r = l @ r' \<and> l \<noteq> [] \<and> last l = d"
  by (induction r arbitrary: l) (auto split: if_splits option.splits)

lemma readLine_append:
  assumes "readLine r = Inr (line, r')"
  shows "r = line @ [CR, LF] @ r'" and "length line + 2 \<le> maxLineLength"
proof -
  from assms obtain l where l: "ReadBytes LF r = Some (l, r')" and len: "2 \<le> length l"
    and cr: "l ! (length l - 2) = CR" and line: "line = take (length l - 2) l"
    and max: "length l \<le> maxLineLength"
    by (auto simp: readLine_def split: option.splits if_splits)
  from ReadBytes_append [OF l] have r: "r = l @ r'" and last: "last l = LF" by simp_all
  have "l = take (length l - 2) l @ [l ! (length l - 2), last l]"
    using len by (rule split_last_two)
  with r last cr line show "r = line @ [CR, LF] @ r'" by simp
  show "length line + 2 \<le> maxLineLength" using line len max by simp
qed

lemma readLine_length: "readLine r = Inr (line, r') \<Longrightarrow> length r' < length r"
  using readLine_append(1) by fastforce

lemma readBulkString_length: "readBulkString r = Inr (arg, r') \<Longrightarrow> length r' < length r"
  by (auto simp: readBulkString_def Let_def split: sum.splits prod.splits if_splits
      dest: readLine_length)

lemma read_args_length: "read_args n r = Inr (args, r') \<Longrightarrow> length r' \<le> length r"
proof (induction n arbitrary: r args)
  case (Suc n)
  then show ?case
    by (fastforce split: list.splits if_splits sum.splits prod.splits dest: readBulkString_length)
qed simp

lemma readCommandArray_length: "readCommandArray r = Inr (c, r') \<Longrightarrow> length r' < length r"
  by (fastforce simp: readCommandArray_def split: sum.splits prod.splits if_splits
      dest: readLine_length read_args_length)

lemma readInlineCommand_length: "readInlineCommand r = Inr (c, r') \<Longrightarrow> length r' < length r"
  by (auto simp: readInlineCommand_def Let_def split: sum.splits prod.splits if_splits
      dest: readLine_length)

text \<open>
  The loop: an empty array or a blank line is skipped. \<open>UnreadByte\<close> after a one-byte read cannot
  fail, so its error branch does not occur.
\<close>

function ReadCommand :: "bytes \<Rightarrow> read_err + (bytes list \<times> bytes)" where
  "ReadCommand r =
     (case r of
        [] \<Rightarrow> Inl EOF
      | b # r1 \<Rightarrow>
          if b = CHR ''*''
          then (case readCommandArray r1 of
                  Inl e \<Rightarrow> Inl e
                | Inr (c, r2) \<Rightarrow> (case c of None \<Rightarrow> ReadCommand r2 | Some cmd \<Rightarrow> Inr (cmd, r2)))
          else (case readInlineCommand r of
                  Inl e \<Rightarrow> Inl e
                | Inr (c, r2) \<Rightarrow> (case c of None \<Rightarrow> ReadCommand r2 | Some cmd \<Rightarrow> Inr (cmd, r2))))"
  by pat_completeness auto
termination
  by (relation "measure length")
    (auto dest: readCommandArray_length readInlineCommand_length)

declare ReadCommand.simps [simp del]

section \<open>Reading is independent of fragmentation\<close>

text \<open>
  The contract every function of the reader keeps: bytes that arrive later change neither a result
  that is complete nor a protocol error that is certain. The client lemma is that a proper prefix of
  a frame is never accepted and never rejected as malformed: the reader asks for more input.
\<close>

locale incremental_parser =
  fixes parse :: "bytes \<Rightarrow> read_err + ('a \<times> bytes)"
  assumes ext_ok: "parse r = Inr (x, r') \<Longrightarrow> parse (r @ q) = Inr (x, r' @ q)"
    and ext_err: "parse r = Inl (ProtocolError m) \<Longrightarrow> parse (r @ q) = Inl (ProtocolError m)"
begin

lemma torn:
  assumes "parse (p @ q) = Inr (x, [])" and "q \<noteq> []"
  shows "parse p = Inl EOF \<or> parse p = Inl ErrUnexpectedEOF"
proof (cases "parse p")
  case (Inl e)
  with ext_err [of p _ q] assms(1) show ?thesis by (cases e) auto
next
  case (Inr y)
  then obtain x' r' where "parse p = Inr (x', r')" by (cases y) auto
  then have "parse (p @ q) = Inr (x', r' @ q)" by (rule ext_ok)
  with assms show ?thesis by simp
qed

end

lemma ReadBytes_ext: "ReadBytes d r = Some (l, r') \<Longrightarrow> ReadBytes d (r @ q) = Some (l, r' @ q)"
  by (induction r arbitrary: l) (auto split: if_splits option.splits)

lemma readLine_ext:
  "(readLine r = Inr (x, r') \<longrightarrow> readLine (r @ q) = Inr (x, r' @ q)) \<and>
   (readLine r = Inl (ProtocolError m) \<longrightarrow> readLine (r @ q) = Inl (ProtocolError m))"
proof (cases "ReadBytes LF r")
  case None
  then show ?thesis by (simp add: readLine_def unexpectedEOF_def)
next
  case (Some y)
  then obtain l r1 where l: "ReadBytes LF r = Some (l, r1)" by (cases y) auto
  from l ReadBytes_ext [OF l, of q] show ?thesis by (auto simp: readLine_def)
qed

interpretation line: incremental_parser readLine
  by unfold_locales (simp_all add: readLine_ext)

lemma readLine_not_EOF: "readLine r \<noteq> Inl EOF"
  by (auto simp: readLine_def unexpectedEOF_def protoErr_def split: option.splits)

lemma readBulkString_cases:
  assumes "readLine r = Inr (line, r1)"
  shows "readBulkString r =
    (case parseInt line of Inl _ \<Rightarrow> Inl (protoErr ''invalid bulk length'')
     | Inr n \<Rightarrow>
         if n < 0 \<or> maxBulkLength < n then Inl (protoErr ''invalid bulk length'')
         else let k = nat n
              in if length r1 < k + 2 then Inl ErrUnexpectedEOF
                 else if r1 ! k \<noteq> CR \<or> r1 ! (k + 1) \<noteq> LF
                 then Inl (protoErr ''expected CRLF after bulk payload'')
                 else Inr (take k r1, drop (k + 2) r1))"
  using assms by (simp add: readBulkString_def)

interpretation bulk_string: incremental_parser readBulkString
proof unfold_locales
  fix r x r' q
  assume a: "readBulkString r = Inr (x, r')"
  then obtain line r1 where l: "readLine r = Inr (line, r1)"
    by (auto simp: readBulkString_def split: sum.splits)
  show "readBulkString (r @ q) = Inr (x, r' @ q)"
    using a unfolding readBulkString_cases [OF l] readBulkString_cases [OF line.ext_ok [OF l]]
    by (auto simp: Let_def nth_append split: sum.splits if_splits)
next
  fix r m q
  assume a: "readBulkString r = Inl (ProtocolError m)"
  show "readBulkString (r @ q) = Inl (ProtocolError m)"
  proof (cases "readLine r")
    case (Inl e)
    with a have "readLine r = Inl (ProtocolError m)" by (simp add: readBulkString_def)
    from line.ext_err [OF this] show ?thesis by (simp add: readBulkString_def)
  next
    case (Inr y)
    then obtain line r1 where l: "readLine r = Inr (line, r1)" by (cases y) auto
    show ?thesis
      using a unfolding readBulkString_cases [OF l] readBulkString_cases [OF line.ext_ok [OF l]]
      by (auto simp: Let_def nth_append split: sum.splits if_splits)
  qed
qed

lemma readBulkString_not_EOF: "readBulkString r \<noteq> Inl EOF"
  by (auto simp: readBulkString_def protoErr_def Let_def readLine_not_EOF split: sum.splits)

lemma read_args_ext:
  "(read_args n r = Inr (x, r') \<longrightarrow> read_args n (r @ q) = Inr (x, r' @ q)) \<and>
   (read_args n r = Inl (ProtocolError m) \<longrightarrow> read_args n (r @ q) = Inl (ProtocolError m))"
proof (induction n arbitrary: r x)
  case (Suc n)
  show ?case
  proof (cases r)
    case Nil
    then show ?thesis by (simp add: unexpectedEOF_def)
  next
    case (Cons b r1)
    show ?thesis
    proof (cases "readBulkString r1")
      case (Inl e)
      with Cons show ?thesis
        using bulk_string.ext_err [of r1 m q] by (cases "b = CHR ''$''") auto
    next
      case (Inr y)
      then obtain arg r2 where b: "readBulkString r1 = Inr (arg, r2)" by (cases y) auto
      have ih: "read_args n r2 = Inr (y, r') \<Longrightarrow> read_args n (r2 @ q) = Inr (y, r' @ q)"
        "read_args n r2 = Inl (ProtocolError m) \<Longrightarrow> read_args n (r2 @ q) = Inl (ProtocolError m)"
        for y using Suc.IH [of r2] by simp_all
      from Cons b bulk_string.ext_ok [OF b, of q] ih show ?thesis
        by (cases "b = CHR ''$''"; cases "read_args n r2") auto
    qed
  qed
qed simp

lemma read_args_not_EOF: "read_args n r \<noteq> Inl EOF"
  by (induction n arbitrary: r)
    (auto simp: unexpectedEOF_def protoErr_def readBulkString_not_EOF
      split: list.splits sum.splits prod.splits)

interpretation args: incremental_parser "read_args n" for n
  by unfold_locales (simp_all add: read_args_ext)

lemma readCommandArray_ext:
  "(readCommandArray r = Inr (x, r') \<longrightarrow> readCommandArray (r @ q) = Inr (x, r' @ q)) \<and>
   (readCommandArray r = Inl (ProtocolError m) \<longrightarrow>
      readCommandArray (r @ q) = Inl (ProtocolError m))"
proof (cases "readLine r")
  case (Inl e)
  then show ?thesis using line.ext_err [of r m q] by (auto simp: readCommandArray_def)
next
  case (Inr y)
  then obtain l r1 where l: "readLine r = Inr (l, r1)" by (cases y) auto
  from l line.ext_ok [OF l, of q] show ?thesis
    by (auto simp: readCommandArray_def split: sum.splits if_splits prod.splits
        dest: args.ext_ok [where q = q] args.ext_err [where q = q])
qed

interpretation command_array: incremental_parser readCommandArray
  by unfold_locales (simp_all add: readCommandArray_ext)

lemma readInlineCommand_ext:
  "(readInlineCommand r = Inr (x, r') \<longrightarrow> readInlineCommand (r @ q) = Inr (x, r' @ q)) \<and>
   (readInlineCommand r = Inl (ProtocolError m) \<longrightarrow>
      readInlineCommand (r @ q) = Inl (ProtocolError m))"
proof (cases "readLine r")
  case (Inl e)
  then show ?thesis using line.ext_err [of r m q] by (auto simp: readInlineCommand_def)
next
  case (Inr y)
  then obtain l r1 where l: "readLine r = Inr (l, r1)" by (cases y) auto
  from l line.ext_ok [OF l, of q] show ?thesis
    by (auto simp: readInlineCommand_def Let_def split: if_splits)
qed

interpretation inline_command: incremental_parser readInlineCommand
  by unfold_locales (simp_all add: readInlineCommand_ext)

lemma readCommandArray_not_EOF: "readCommandArray r \<noteq> Inl EOF"
  by (auto simp: readCommandArray_def protoErr_def readLine_not_EOF read_args_not_EOF
      split: sum.splits)

lemma readInlineCommand_not_EOF: "readInlineCommand r \<noteq> Inl EOF"
  by (auto simp: readInlineCommand_def Let_def readLine_not_EOF split: sum.splits)

text \<open>
  One iteration of the loop of \<open>ReadCommand\<close> on a non-empty input: which of the two forms is read.
\<close>

definition read_one :: "bytes \<Rightarrow> read_err + (bytes list option \<times> bytes)" where
  "read_one r = (if hd r = CHR ''*'' then readCommandArray (tl r) else readInlineCommand r)"

lemma ReadCommand_step:
  "r \<noteq> [] \<Longrightarrow> ReadCommand r =
     (case read_one r of
        Inl e \<Rightarrow> Inl e
      | Inr (c, r2) \<Rightarrow> (case c of None \<Rightarrow> ReadCommand r2 | Some cmd \<Rightarrow> Inr (cmd, r2)))"
  by (cases r) (simp_all add: ReadCommand.simps [of "_ # _"] read_one_def)

lemma ReadCommand_Nil [simp]: "ReadCommand [] = Inl EOF"
  by (simp add: ReadCommand.simps)

lemma read_one_ext:
  assumes "r \<noteq> []"
  shows "read_one r = Inr (x, r') \<Longrightarrow> read_one (r @ q) = Inr (x, r' @ q)"
    and "read_one r = Inl (ProtocolError m) \<Longrightarrow> read_one (r @ q) = Inl (ProtocolError m)"
  using assms command_array.ext_ok [of "tl r" x r' q] command_array.ext_err [of "tl r" m q]
    inline_command.ext_ok [of r x r' q] inline_command.ext_err [of r m q]
  by (auto simp: read_one_def split: if_splits)

lemma read_one_length: "r \<noteq> [] \<Longrightarrow> read_one r = Inr (c, r') \<Longrightarrow> length r' < length r"
  by (cases r)
    (auto simp: read_one_def dest: readCommandArray_length readInlineCommand_length split: if_splits)

lemma read_one_not_EOF: "read_one r \<noteq> Inl EOF"
  by (simp add: read_one_def readCommandArray_not_EOF readInlineCommand_not_EOF)

text \<open>Induction over the iterations of the loop.\<close>

lemma ReadCommand_induct [case_names empty fail skip found]:
  assumes "P []"
    and "\<And>r e. r \<noteq> [] \<Longrightarrow> read_one r = Inl e \<Longrightarrow> P r"
    and "\<And>r r2. r \<noteq> [] \<Longrightarrow> read_one r = Inr (None, r2) \<Longrightarrow> P r2 \<Longrightarrow> P r"
    and "\<And>r cmd r2. r \<noteq> [] \<Longrightarrow> read_one r = Inr (Some cmd, r2) \<Longrightarrow> P r"
  shows "P r"
proof (induction r rule: length_induct)
  case (1 r)
  show ?case
  proof (cases "r = []")
    case False
    show ?thesis
    proof (cases "read_one r")
      case (Inr y)
      then obtain c r2 where c: "read_one r = Inr (c, r2)" by (cases y) auto
      show ?thesis
      proof (cases c)
        case None
        moreover from False c have "length r2 < length r" by (rule read_one_length)
        ultimately show ?thesis using 1 False c assms(3) by blast
      qed (use c False assms(4) in blast)
    qed (use False assms(2) in blast)
  qed (use assms(1) in simp)
qed

lemma ReadCommand_ext:
  "(ReadCommand r = Inr (x, r') \<longrightarrow> ReadCommand (r @ q) = Inr (x, r' @ q)) \<and>
   (ReadCommand r = Inl (ProtocolError m) \<longrightarrow> ReadCommand (r @ q) = Inl (ProtocolError m))"
proof (induction r rule: ReadCommand_induct)
  case (fail r e)
  then show ?case
    using read_one_ext(2) [OF fail(1), of m q] by (auto simp: ReadCommand_step)
next
  case (skip r r2)
  then show ?case
    using read_one_ext(1) [OF skip(1,2), of q] by (simp add: ReadCommand_step)
next
  case (found r cmd r2)
  then show ?case
    using read_one_ext(1) [OF found, of q] by (auto simp: ReadCommand_step)
qed simp

interpretation command: incremental_parser ReadCommand
  by unfold_locales (simp_all add: ReadCommand_ext)

section \<open>What the reader returns\<close>

lemma read_args_bounds:
  "read_args n r = Inr (args, r') \<Longrightarrow>
     length args = n \<and> (\<forall>a \<in> set args. int (length a) \<le> maxBulkLength)"
proof (induction n arbitrary: r args)
  case (Suc n)
  then obtain r1 arg r2 as where
    "readBulkString r1 = Inr (arg, r2)" and "read_args n r2 = Inr (as, r')" and "args = arg # as"
    by (auto split: list.splits if_splits sum.splits prod.splits)
  moreover from this(1) have "int (length arg) \<le> maxBulkLength"
    by (auto simp: readBulkString_def Let_def split: sum.splits prod.splits if_splits)
  ultimately show ?case using Suc.IH by auto
qed simp

text \<open>A command within the limits of the reader.\<close>

definition command_in_limits :: "bytes list \<Rightarrow> bool" where
  "command_in_limits cmd \<longleftrightarrow> cmd \<noteq> [] \<and> int (length cmd) \<le> maxArrayLen
     \<and> list_all (\<lambda>a. int (length a) \<le> maxBulkLength) cmd"

lemma fields_loop_length: "length (concat (fields_loop k cur s)) \<le> length cur + length s"
proof (induction k cur s rule: fields_loop.induct)
  case (3 cur c cs)
  show ?case
  proof (cases "space_width (c # cs)")
    case 0
    with 3 show ?thesis by simp
  next
    case (Suc k)
    with 3 show ?thesis by (cases "cur = []") force+
  qed
qed auto

lemma fields_loop_not_Nil: "f \<in> set (fields_loop k cur s) \<Longrightarrow> f \<noteq> []"
  by (induction k cur s rule: fields_loop.induct) (auto split: nat.splits if_splits)

lemma Fields_bounds:
  "length (Fields s) \<le> length s"
  "f \<in> set (Fields s) \<Longrightarrow> length f \<le> length s"
proof -
  have c: "length (concat (Fields s)) \<le> length s"
    unfolding Fields_def using fields_loop_length [of 0 "[]" s] by simp
  have ne: "\<forall>f \<in> set (Fields s). f \<noteq> []"
    unfolding Fields_def using fields_loop_not_Nil by blast
  have "length xs \<le> length (concat xs)" if "\<forall>f \<in> set xs. f \<noteq> []" for xs :: "string list"
    using that
  proof (induction xs)
    case (Cons a xs)
    then have "0 < length a" and "length xs \<le> length (concat xs)" by simp_all
    then have "Suc (length xs) \<le> length a + length (concat xs)" by linarith
    then show ?case by simp
  qed simp
  with ne c show "length (Fields s) \<le> length s" by (meson order.trans)
  show "length f \<le> length s" if f: "f \<in> set (Fields s)"
  proof -
    from f obtain us vs where "Fields s = us @ f # vs" by (meson split_list)
    with c show ?thesis by simp
  qed
qed

lemma readLine_suffix: "readLine r = Inr (line, r') \<Longrightarrow> strict_suffix r' r"
  by (drule readLine_append(1)) (simp add: strict_suffix_def suffix_def)

lemma readBulkString_suffix: "readBulkString r = Inr (arg, r') \<Longrightarrow> suffix r' r"
  by (fastforce simp: readBulkString_def Let_def split: sum.splits prod.splits if_splits
      dest: readLine_suffix intro: suffix_order.trans [OF suffix_drop] suffix_order.less_imp_le)

lemma read_args_suffix: "read_args n r = Inr (args, r') \<Longrightarrow> suffix r' r"
proof (induction n arbitrary: r args)
  case (Suc n)
  then obtain b r1 arg r2 as where "r = b # r1" and "readBulkString r1 = Inr (arg, r2)"
    and "read_args n r2 = Inr (as, r')"
    by (auto split: list.splits if_splits sum.splits prod.splits)
  then show ?case
    using Suc.IH readBulkString_suffix suffix_order.trans suffix_ConsI by metis
qed simp

lemma read_one_suffix:
  assumes "r \<noteq> []" and "read_one r = Inr (c, r')"
  shows "strict_suffix r' r"
proof -
  have "suffix r' r"
  proof (cases "hd r = CHR ''*''")
    case True
    with assms(2) have "readCommandArray (tl r) = Inr (c, r')" by (simp add: read_one_def)
    then have "suffix r' (tl r)"
      by (auto simp: readCommandArray_def split: sum.splits prod.splits if_splits
          dest!: readLine_suffix read_args_suffix
          intro: suffix_order.less_imp_le suffix_order.le_less_trans)
    then show ?thesis by (metis assms(1) list.collapse suffix_ConsI)
  next
    case False
    with assms show ?thesis
      by (auto simp: read_one_def readInlineCommand_def Let_def split: sum.splits prod.splits if_splits
          dest!: readLine_suffix intro: suffix_order.less_imp_le)
  qed
  moreover have "length r' < length r" using assms by (rule read_one_length)
  ultimately show ?thesis by (metis order.irrefl suffix_order.less_le)
qed

lemma read_one_limits:
  assumes "r \<noteq> []" and "read_one r = Inr (Some cmd, r')"
  shows "command_in_limits cmd"
proof (cases "hd r = CHR ''*''")
  case True
  with assms(2) obtain n r1 where "n \<noteq> 0" and "\<not> n < 0" and "\<not> maxArrayLen < n"
    and "read_args (nat n) r1 = Inr (cmd, r')"
    by (auto simp: read_one_def readCommandArray_def split: sum.splits prod.splits if_splits)
  with read_args_bounds [of "nat n" r1 cmd r'] show ?thesis
    by (auto simp: command_in_limits_def list_all_iff)
next
  case False
  with assms(2) obtain line r1 where l: "readLine r = Inr (line, r1)" and c: "cmd = Fields line"
    and "cmd \<noteq> []"
    by (auto simp: read_one_def readInlineCommand_def Let_def split: sum.splits prod.splits if_splits)
  moreover have "int (length line) \<le> maxArrayLen" and "int (length line) \<le> maxBulkLength"
    using readLine_append(2) [OF l]
    by (simp_all add: maxLineLength_def maxArrayLen_def maxBulkLength_def)
  ultimately show ?thesis
    using Fields_bounds(1) [of line] Fields_bounds(2) [of _ line]
    by (force simp: command_in_limits_def list_all_iff)
qed

lemma ReadCommand_result:
  "ReadCommand r = Inr (cmd, rest) \<Longrightarrow> command_in_limits cmd \<and> strict_suffix rest r"
proof (induction r rule: ReadCommand_induct)
  case (skip r r2)
  then show ?case
    using read_one_suffix [OF skip(1,2)] by (auto simp: ReadCommand_step)
next
  case (found r cmd r2)
  then show ?case
    using read_one_suffix [OF found(1,2)] read_one_limits [OF found(1,2)]
    by (auto simp: ReadCommand_step)
qed (auto simp: ReadCommand_step)

lemma ReadCommand_EOF_skips:
  "ReadCommand r = Inl EOF \<Longrightarrow> ReadCommand (r @ q) = ReadCommand q"
proof (induction r rule: ReadCommand_induct)
  case (fail r e)
  then show ?case using read_one_not_EOF [of r] by (auto simp: ReadCommand_step)
next
  case (skip r r2)
  then show ?case using read_one_ext(1) [OF skip(1,2), of q] by (simp add: ReadCommand_step)
qed (auto simp: ReadCommand_step)

section \<open>Properties\<close>

text \<open>C1. What \<open>ReadCommand\<close> returns does not depend on how the input is fragmented: bytes that arrive
  after a complete command, or after a protocol error, change neither.\<close>

theorem read_command_incremental:
  "(ReadCommand r = Inr (cmd, rest) \<longrightarrow> ReadCommand (r @ later) = Inr (cmd, rest @ later)) \<and>
   (ReadCommand r = Inl (ProtocolError m) \<longrightarrow> ReadCommand (r @ later) = Inl (ProtocolError m))"
  by (simp add: command.ext_ok command.ext_err)

theorem read_command_incremental_witness:
  "ReadCommand (''PING'' @ crlf) = Inr ([''PING''], []) \<and>
   ReadCommand ((''PING'' @ crlf) @ ''*1'') = Inr ([''PING''], ''*1'')"
proof -
  have "ReadCommand (''PING'' @ crlf) = Inr ([''PING''], [])"
    by (simp add: ReadCommand_step read_one_def readInlineCommand_def readLine_def crlf_def CR_def
        LF_def maxLineLength_def Fields_def byte_in_def)
  then show ?thesis
    using read_command_incremental [of "''PING'' @ crlf" "[''PING'']" "[]" "''*1''" "[]"] by simp
qed

text \<open>C32. A command the reader returns is never empty, has at most \<open>maxArrayLen\<close> arguments of at most
  \<open>maxBulkLength\<close> bytes each, and the reader has consumed a non-empty prefix of its input, no more.\<close>

theorem read_command_in_limits:
  "ReadCommand r = Inr (cmd, rest) \<Longrightarrow>
     cmd \<noteq> [] \<and> int (length cmd) \<le> maxArrayLen \<and>
     (\<forall>a \<in> set cmd. int (length a) \<le> maxBulkLength) \<and> (\<exists>p. p \<noteq> [] \<and> r = p @ rest)"
  using ReadCommand_result [of r cmd rest]
  by (auto simp: command_in_limits_def list_all_iff strict_suffix_def suffix_def)

theorem read_command_in_limits_witness:
  "ReadCommand (''PING'' @ crlf) = Inr ([''PING''], []) \<and> [''PING''] \<noteq> [] \<and>
   int (length [''PING'']) \<le> maxArrayLen"
proof -
  have "ReadCommand (''PING'' @ crlf) = Inr ([''PING''], [])"
    by (simp add: ReadCommand_step read_one_def readInlineCommand_def readLine_def crlf_def CR_def
        LF_def maxLineLength_def Fields_def byte_in_def)
  then show ?thesis using read_command_in_limits [of "''PING'' @ crlf" "[''PING'']" "[]"] by simp
qed

end
