(* ===== verification/RespWrite.thy ===== *)
theory RespWrite
  imports RespReader
begin

text \<open>
  The RESP encoders of \<^verbatim>\<open>src/app/resp_write.go\<close> (those of stream replies are in the theory of
  streams) and their agreement with the reader: what \<open>EncodeRaw\<close> and \<open>encodeCommand\<close> write,
  \<open>ReadCommand\<close> reads back. The append-only file and the replication link both rely on it, through the
  locale \<open>frame_codec\<close>.
\<close>

section \<open>Encoders\<close>

definition Itoa :: "nat \<Rightarrow> string" where "Itoa n = FormatInt (int n)"

lemma Itoa_FormatNat: "Itoa n = FormatNat n"
  by (simp add: Itoa_def FormatInt_def)

definition bulk :: "string \<Rightarrow> string" where
  "bulk s = ''$'' @ Itoa (length s) @ crlf @ s @ crlf"

definition array_header :: "nat \<Rightarrow> string" where
  "array_header n = ''*'' @ Itoa n @ crlf"

definition EncodeRaw :: "bytes list \<Rightarrow> bytes" where
  "EncodeRaw cmd =
     fold (\<lambda>arg b. b @ (''$'' @ Itoa (length arg) @ crlf) @ arg @ crlf) cmd (array_header (length cmd))"

definition encodeCommand :: "string list \<Rightarrow> bytes" where
  "encodeCommand args = fold (\<lambda>arg b. b @ bulk arg) args (array_header (length args))"

definition writeArray :: "string list \<Rightarrow> bytes" where
  "writeArray items = fold (\<lambda>item b. b @ bulk item) items (array_header (length items))"

definition bulkString :: "string list \<Rightarrow> bytes" where
  "bulkString args = fold (\<lambda>arg b. b @ bulk arg) args (array_header (length args))"

lemma fold_append_concat: "fold (\<lambda>x b. b @ f x) xs acc = acc @ concat (map f xs)"
  by (induction xs arbitrary: acc) simp_all

lemma encoders_concat:
  "encodeCommand args = array_header (length args) @ concat (map bulk args)"
  "writeArray args = array_header (length args) @ concat (map bulk args)"
  "bulkString args = array_header (length args) @ concat (map bulk args)"
  by (simp_all add: encodeCommand_def writeArray_def bulkString_def fold_append_concat)

lemma EncodeRaw_encodeCommand: "EncodeRaw cmd = encodeCommand cmd"
proof -
  have "(\<lambda>arg b. b @ (''$'' @ Itoa (length arg) @ crlf) @ arg @ crlf) = (\<lambda>arg b. b @ bulk arg)"
    by (simp add: bulk_def fun_eq_iff)
  then show ?thesis by (simp add: EncodeRaw_def encodeCommand_def)
qed

section \<open>Reading numbers and lines back\<close>

lemma length_FormatNat: "0 < k \<Longrightarrow> n < 10 ^ k \<Longrightarrow> length (FormatNat n) \<le> k"
proof (induction k arbitrary: n)
  case (Suc k)
  show ?case
  proof (cases "n < 10")
    case True
    then show ?thesis by (simp add: FormatNat.simps [of n])
  next
    case False
    then have k: "0 < k" using Suc.prems(2) by (cases k) simp_all
    have "n div 10 < 10 ^ k" using Suc.prems(2) by (simp add: less_mult_imp_div_less mult.commute)
    with Suc.IH [OF k] False show ?thesis by (simp add: FormatNat.simps [of n])
  qed
qed simp

lemma ReadBytes_delim: "d \<notin> set xs \<Longrightarrow> ReadBytes d (xs @ d # r) = Some (xs @ [d], r)"
  by (induction xs) auto

lemma readLine_crlf:
  assumes "LF \<notin> set xs" and "length xs + 2 \<le> maxLineLength"
  shows "readLine (xs @ crlf @ r) = Inr (xs, r)"
proof -
  have "ReadBytes LF ((xs @ [CR]) @ LF # r) = Some ((xs @ [CR]) @ [LF], r)"
    using assms(1) by (intro ReadBytes_delim) simp
  with assms(2) show ?thesis by (simp add: readLine_def crlf_def nth_append)
qed

lemma parseInt_loop_append:
  "parseInt_loop xs n = Inr m \<Longrightarrow> parseInt_loop (xs @ ys) n = parseInt_loop ys m"
  by (induction xs arbitrary: n) (auto simp: Let_def split: if_splits)

lemma parseInt_loop_FormatNat:
  "int n \<le> maxBulkLength \<Longrightarrow> parseInt_loop (FormatNat n) 0 = Inr (int n)"
proof (induction n rule: FormatNat.induct)
  case (1 n)
  show ?case
  proof (cases "n < 10")
    case True
    with "1.prems" show ?thesis by (simp add: FormatNat.simps [of n] strconv_simps Let_def)
  next
    case False
    then have "parseInt_loop (FormatNat (n div 10)) 0 = Inr (int (n div 10))"
      using "1.IH" "1.prems" by simp
    then have "parseInt_loop (FormatNat (n div 10) @ [digit_char (n mod 10)]) 0
        = parseInt_loop [digit_char (n mod 10)] (int (n div 10))"
      by (rule parseInt_loop_append)
    also have "\<dots> = Inr (int n)"
    proof -
      have "int (n div 10) * 10 + int (n mod 10) = int n" by presburger
      then show ?thesis using "1.prems" by (simp add: strconv_simps Let_def)
    qed
    finally show ?thesis using False by (simp add: FormatNat.simps [of n])
  qed
qed

lemma parseInt_FormatNat: "int n \<le> maxBulkLength \<Longrightarrow> parseInt (FormatNat n) = Inr (int n)"
proof -
  assume n: "int n \<le> maxBulkLength"
  obtain c cs where c: "FormatNat n = c # cs" by (cases "FormatNat n") auto
  then have "c \<noteq> CHR ''-''"
    using FormatNat_set [of c n] not_is_digit by auto
  with c parseInt_loop_FormatNat [OF n] show ?thesis by (simp add: parseInt_def)
qed

lemma number_line:
  assumes "int n \<le> maxBulkLength"
  shows "readLine (FormatNat n @ crlf @ r) = Inr (FormatNat n, r)"
proof (rule readLine_crlf)
  show "LF \<notin> set (FormatNat n)" using FormatNat_set not_is_digit by blast
  have "n < 10 ^ 20" using assms by (simp add: maxBulkLength_def)
  from length_FormatNat [OF _ this] show "length (FormatNat n) + 2 \<le> maxLineLength"
    by (simp add: maxLineLength_def)
qed

section \<open>Reading encoded commands back\<close>

lemma readBulkString_bulk:
  assumes "int (length a) \<le> maxBulkLength"
  shows "readBulkString (FormatNat (length a) @ crlf @ a @ crlf @ r) = Inr (a, r)"
  using assms readBulkString_cases [OF number_line [OF assms]]
  by (simp add: parseInt_FormatNat Let_def crlf_def nth_append)

lemma read_args_bulks:
  "list_all (\<lambda>a. int (length a) \<le> maxBulkLength) args \<Longrightarrow>
     read_args (length args) (concat (map bulk args) @ r) = Inr (args, r)"
proof (induction args)
  case (Cons a args)
  then show ?case by (simp add: bulk_def Itoa_FormatNat readBulkString_bulk)
qed simp

lemma readCommandArray_encode:
  assumes "command_in_limits cmd"
  shows "readCommandArray (Itoa (length cmd) @ crlf @ concat (map bulk cmd) @ r) = Inr (Some cmd, r)"
proof -
  from assms have le: "int (length cmd) \<le> maxArrayLen" and pos: "length cmd \<noteq> 0"
    and all: "list_all (\<lambda>a. int (length a) \<le> maxBulkLength) cmd"
    by (simp_all add: command_in_limits_def)
  from le have b: "int (length cmd) \<le> maxBulkLength" by (simp add: maxArrayLen_def maxBulkLength_def)
  from le pos show ?thesis
    by (simp add: readCommandArray_def Itoa_FormatNat number_line [OF b] parseInt_FormatNat [OF b]
        read_args_bulks [OF all])
qed

lemma ReadCommand_encodeCommand:
  assumes "command_in_limits cmd"
  shows "ReadCommand (encodeCommand cmd @ r) = Inr (cmd, r)"
  using readCommandArray_encode [OF assms, of r]
  by (simp add: encoders_concat array_header_def ReadCommand_step read_one_def)

text \<open>
  The contract between a writer and a reader of frames: a frame in front of any input is read back
  whole and leaves that input. The clients get that a whole stream of frames is read back, in order.
\<close>

locale frame_codec =
  fixes enc :: "'c \<Rightarrow> bytes" and dec :: "bytes \<Rightarrow> read_err + ('c \<times> bytes)" and ok :: "'c \<Rightarrow> bool"
  assumes dec_enc: "ok c \<Longrightarrow> dec (enc c @ r) = Inr (c, r)"
    and dec_end: "dec [] = Inl EOF"
begin

inductive decodes :: "bytes \<Rightarrow> 'c list \<Rightarrow> bytes \<Rightarrow> bool" where
  decodes_nil: "decodes r [] r"
| decodes_cons: "dec r = Inr (c, r') \<Longrightarrow> decodes r' cs r'' \<Longrightarrow> decodes r (c # cs) r''"

lemma decodes_stream: "list_all ok cs \<Longrightarrow> decodes (concat (map enc cs) @ r) cs r"
proof (induction cs)
  case (Cons c cs)
  then show ?case by (auto intro: decodes_cons dec_enc)
qed (simp add: decodes_nil)

lemma enc_injective: "ok c \<Longrightarrow> ok d \<Longrightarrow> enc c = enc d \<Longrightarrow> c = d"
  using dec_enc [of c "[]"] dec_enc [of d "[]"] by simp

end

interpretation resp: frame_codec encodeCommand ReadCommand command_in_limits
  by unfold_locales (simp_all add: ReadCommand_encodeCommand)

interpretation resp_raw: frame_codec EncodeRaw ReadCommand command_in_limits
  by unfold_locales (simp_all add: EncodeRaw_encodeCommand ReadCommand_encodeCommand)

lemma torn_frame_lemma:
  assumes "command_in_limits cmd" and "EncodeRaw cmd = p @ q" and "p \<noteq> []" and "q \<noteq> []"
  shows "ReadCommand p = Inl ErrUnexpectedEOF"
proof -
  have "ReadCommand (p @ q) = Inr (cmd, [])" using resp_raw.dec_enc [OF assms(1), of "[]"] assms(2) by simp
  from command.torn [OF this assms(4)] have or: "ReadCommand p = Inl EOF \<or> ReadCommand p = Inl ErrUnexpectedEOF" .
  have enc: "EncodeRaw cmd = CHR ''*'' # Itoa (length cmd) @ crlf @ concat (map bulk cmd)"
    by (simp add: EncodeRaw_encodeCommand encoders_concat array_header_def)
  with assms(2,3) obtain p' where p: "p = CHR ''*'' # p'" by (cases p) auto
  with assms(2) enc have tail: "p' @ q = Itoa (length cmd) @ crlf @ concat (map bulk cmd) @ []" by simp
  have "ReadCommand p \<noteq> Inl EOF"
  proof
    assume "ReadCommand p = Inl EOF"
    then obtain r2 where "readCommandArray p' = Inr (None, r2)"
      using p readCommandArray_not_EOF [of p']
      by (auto simp: ReadCommand_step read_one_def split: sum.splits prod.splits option.splits)
    from command_array.ext_ok [OF this, of q] show False
      using tail readCommandArray_encode [OF assms(1), of "[]"] by simp
  qed
  with or show ?thesis by blast
qed

section \<open>Properties\<close>

text \<open>C2. A command within the limits that \<open>EncodeRaw\<close> or \<open>encodeCommand\<close> writes is read back by
  \<open>ReadCommand\<close> byte for byte, whatever follows it on the wire; payloads may hold any bytes, line ends
  included.\<close>

theorem encode_read_round_trip:
  assumes "command_in_limits cmd"
  shows "ReadCommand (EncodeRaw cmd @ rest) = Inr (cmd, rest) \<and>
         ReadCommand (encodeCommand cmd @ rest) = Inr (cmd, rest)"
  using resp_raw.dec_enc [OF assms] resp.dec_enc [OF assms] by simp

theorem encode_read_round_trip_witness:
  "ReadCommand (EncodeRaw [''ECHO'', ''a'' @ crlf @ ''b''] @ ''x'') = Inr ([''ECHO'', ''a'' @ crlf @ ''b''], ''x'')"
proof -
  have "command_in_limits [''ECHO'', ''a'' @ crlf @ ''b'']"
    by (simp add: command_in_limits_def maxArrayLen_def maxBulkLength_def)
  from encode_read_round_trip [OF this, of "''x''"] show ?thesis by blast
qed

text \<open>C33. Every truncation of an encoded command is reported as \<open>io.ErrUnexpectedEOF\<close>: it is neither
  accepted, nor taken for malformed input, nor for the clean end of the stream.\<close>

theorem torn_frame:
  assumes "command_in_limits cmd" and "EncodeRaw cmd = p @ q" and "p \<noteq> []" and "q \<noteq> []"
  shows "ReadCommand p = Inl ErrUnexpectedEOF"
  using assms by (rule torn_frame_lemma)

theorem torn_frame_witness: "ReadCommand (''*1'' @ crlf @ ''$4'') = Inl ErrUnexpectedEOF"
proof (rule torn_frame)
  show "command_in_limits [''PING'']"
    by (simp add: command_in_limits_def maxArrayLen_def maxBulkLength_def)
  show "EncodeRaw [''PING''] = (''*1'' @ crlf @ ''$4'') @ crlf @ ''PING'' @ crlf"
    by code_simp
qed (simp_all add: crlf_def)

end
