(* ===== verification/Streams.thy ===== *)
theory Streams
  imports Store RespWrite
begin

text \<open>
  Streams of \<^verbatim>\<open>src/app/store.go\<close>: IDs and their order, XADD, XRANGE, XREAD and the sections of a
  blocking XREAD, with the stream replies of \<^verbatim>\<open>src/app/resp_write.go\<close>. The IDs of a stream are 64-bit
  words; \<open>nextSeq\<close> wraps around.
\<close>

section \<open>Stream IDs\<close>

definition less :: "StreamID \<Rightarrow> StreamID \<Rightarrow> bool" where
  "less a b = (if Ms a \<noteq> Ms b then Ms a < Ms b else Seq a < Seq b)"

definition isValidStreamId :: "StreamID \<Rightarrow> StreamID \<Rightarrow> bool" where
  "isValidStreamId lastId newId =
     (if Ms newId < Ms lastId then False
      else if Ms newId = Ms lastId then (if Seq newId \<le> Seq lastId then False else True)
      else True)"

definition StreamID_String :: "StreamID \<Rightarrow> string" where
  "StreamID_String i = FormatNat (unat (Ms i)) @ ''-'' @ FormatNat (unat (Seq i))"

definition nextSeq :: "64 word \<Rightarrow> StreamID \<Rightarrow> 64 word" where
  "nextSeq ms lst =
     (if ms = Ms lst then Seq lst + 1 else if ms = 0 then 1 else 0)"

definition parseID :: "string \<Rightarrow> store_error + StreamID" where
  "parseID s =
     (case Cut s (CHR ''-'') of (msStr, seqStr, ok) \<Rightarrow>
        if \<not> ok then Inl ErrInvalidID
        else case ParseUint msStr of (ms, err1) \<Rightarrow>
          if err1 \<noteq> NoErr then Inl ErrInvalidID
          else case ParseUint seqStr of (seq, err2) \<Rightarrow>
            if err2 \<noteq> NoErr then Inl ErrInvalidID
            else Inr (StreamID (word_of_nat ms) (word_of_nat seq)))"

definition zero_id :: StreamID where "zero_id = StreamID 0 0"
definition max_id :: StreamID where "max_id = StreamID (- 1) (- 1)"

instantiation StreamID :: linorder
begin

definition less_StreamID :: "StreamID \<Rightarrow> StreamID \<Rightarrow> bool" where
  "less_StreamID a b \<longleftrightarrow> less a b"

definition less_eq_StreamID :: "StreamID \<Rightarrow> StreamID \<Rightarrow> bool" where
  "less_eq_StreamID a b \<longleftrightarrow> less a b \<or> a = b"

instance
proof
  fix x y :: StreamID
  show "x \<le> y \<or> y \<le> x"
    by (cases x; cases y) (auto simp: less_eq_StreamID_def less_def)
qed (auto simp: less_StreamID_def less_eq_StreamID_def less_def split: if_splits)

end

lemma less_iff: "less a b \<longleftrightarrow> a < b"
  by (simp add: less_StreamID_def)

lemma isValidStreamId_iff: "isValidStreamId lastId newId \<longleftrightarrow> lastId < newId"
  by (auto simp: isValidStreamId_def less_StreamID_def less_def)

lemma zero_id_least [simp]: "zero_id \<le> a"
  by (cases a) (auto simp: less_eq_StreamID_def less_def zero_id_def word_gt_0)

lemma max_id_greatest [simp]: "a \<le> max_id"
  by (cases a) (use word_order.extremum in \<open>force simp: less_eq_StreamID_def less_def max_id_def order.order_iff_strict\<close>)

section \<open>Operations\<close>

definition zero_stream :: Stream where "zero_stream = \<lparr>Entries = [], LastID = zero_id\<rparr>"

text \<open>The ID an XADD asks for: generated whole, generated sequence number, or given.\<close>

definition xadd_id :: "time \<Rightarrow> string \<Rightarrow> StreamID \<Rightarrow> store_error + StreamID" where
  "xadd_id now rawID lastID =
     (if rawID = ''*''
      then (let ms = word_of_int (UnixMilli now);
                ms = (if ms < Ms lastID then Ms lastID else ms)
            in Inr (StreamID ms (nextSeq ms lastID)))
      else if HasSuffix rawID ''-*''
      then (case ParseUint (fst (Cut rawID (CHR ''-''))) of (ms, err) \<Rightarrow>
              if err \<noteq> NoErr then Inl ErrInvalidID
              else Inr (StreamID (word_of_nat ms) (nextSeq (word_of_nat ms) lastID)))
      else parseID rawID)"

definition XAdd :: "time \<Rightarrow> string \<Rightarrow> string \<Rightarrow> string list \<Rightarrow> store \<Rightarrow> ((store_error + string) \<times> store) go"
where
  "XAdd now key rawID flds s =
     (let ok = data s key \<noteq> None; st0 = entry_at s key
      in if ok \<and> e_kind st0 \<noteq> ''stream'' then Ret (Inl ErrWrongType, s)
         else
           (let st = (if ok then st0 else zero_entry\<lparr>e_kind := ''stream'', e_stream := Some zero_stream\<rparr>)
            in case e_stream st of
                 None \<Rightarrow> Panic
               | Some str \<Rightarrow>
                   (case xadd_id now rawID (LastID str) of
                      Inl err \<Rightarrow> Ret (Inl err, s)
                    | Inr streamId \<Rightarrow>
                        if Ms streamId = 0 \<and> Seq streamId = 0 then Ret (Inl ErrIDZero, s)
                        else if \<not> isValidStreamId (LastID str) streamId then Ret (Inl ErrIDTooSmall, s)
                        else
                          (let str' = str\<lparr>Entries := Entries str @ [\<lparr>ID = streamId, SFields = flds\<rparr>],
                                          LastID := streamId\<rparr>
                           in Ret (Inr (StreamID_String streamId),
                                s\<lparr>data := (data s)(key \<mapsto> st\<lparr>e_stream := Some str'\<rparr>),
                                  notify := notify s + 1\<rparr>)))))"

text \<open>The two index loops of \<open>Filter\<close> and the loop of \<open>readAfterLocked\<close>.\<close>

fun skip_while :: "(StreamEntry \<Rightarrow> bool) \<Rightarrow> StreamEntry list \<Rightarrow> nat" where
  "skip_while P [] = 0"
| "skip_while P (e # es) = (if P e then Suc (skip_while P es) else 0)"

definition Filter :: "Stream \<Rightarrow> StreamID \<Rightarrow> StreamID \<Rightarrow> StreamEntry list" where
  "Filter st startId endId =
     (let entries = Entries st;
          lo = skip_while (\<lambda>e. less (ID e) startId) entries;
          hi = lo + skip_while (\<lambda>e. \<not> less endId (ID e)) (drop lo entries)
      in take (hi - lo) (drop lo entries))"

definition XRange :: "string \<Rightarrow> string \<Rightarrow> string \<Rightarrow> store \<Rightarrow> (store_error + StreamEntry list) go" where
  "XRange key start end' s =
     (case (if start = ''-'' then Inr zero_id else parseID start) of
        Inl err \<Rightarrow> Ret (Inl err)
      | Inr startID \<Rightarrow>
          (case (if end' = ''+'' then Inr max_id else parseID end') of
             Inl err \<Rightarrow> Ret (Inl err)
           | Inr endID \<Rightarrow>
               (case data s key of
                  None \<Rightarrow> Ret (Inr [])
                | Some e \<Rightarrow>
                    if e_kind e \<noteq> ''stream'' then Ret (Inl ErrWrongType)
                    else case e_stream e of
                           None \<Rightarrow> Panic
                         | Some st \<Rightarrow> Ret (Inr (Filter st startID endID)))))"

definition readAfterLocked :: "string \<Rightarrow> StreamID \<Rightarrow> store \<Rightarrow> StreamEntry list go" where
  "readAfterLocked key after s =
     (case data s key of
        None \<Rightarrow> Ret []
      | Some e \<Rightarrow>
          if e_kind e \<noteq> ''stream'' then Ret []
          else case e_stream e of
                 None \<Rightarrow> Panic
               | Some st \<Rightarrow>
                   Ret (drop (skip_while (\<lambda>x. \<not> less after (ID x)) (Entries st)) (Entries st)))"

text \<open>The cursor of one stream argument: \<open>$\<close> is the last ID at the time of the call.\<close>

definition resolve_after :: "store \<Rightarrow> string \<Rightarrow> string \<Rightarrow> (store_error + StreamID) go" where
  "resolve_after s k raw =
     (if raw = ''$''
      then (case data s k of
              None \<Rightarrow> Ret (Inr zero_id)
            | Some e \<Rightarrow>
                if e_kind e = ''stream''
                then (case e_stream e of None \<Rightarrow> Panic | Some st \<Rightarrow> Ret (Inr (LastID st)))
                else Ret (Inr zero_id))
      else Ret (parseID raw))"

fun resolve_afters :: "store \<Rightarrow> string list \<Rightarrow> string list \<Rightarrow> (store_error + StreamID list) go" where
  "resolve_afters s [] raws = Ret (Inr [])"
| "resolve_afters s (k # ks) [] = Panic"
| "resolve_afters s (k # ks) (raw # raws) =
     go_bind (resolve_after s k raw) (\<lambda>r.
       case r of
         Inl err \<Rightarrow> Ret (Inl err)
       | Inr a \<Rightarrow> go_bind (resolve_afters s ks raws) (\<lambda>rs.
           case rs of Inl err \<Rightarrow> Ret (Inl err) | Inr as \<Rightarrow> Ret (Inr (a # as))))"

record streamResult =
  sr_key :: string
  sr_entries :: "StreamEntry list"

fun collect_results :: "store \<Rightarrow> (string \<times> StreamID) list \<Rightarrow> streamResult list go" where
  "collect_results s [] = Ret []"
| "collect_results s ((k, after) # kas) =
     go_bind (readAfterLocked k after s) (\<lambda>entries.
       go_bind (collect_results s kas) (\<lambda>out.
         Ret (if entries = [] then out else \<lparr>sr_key = k, sr_entries = entries\<rparr> # out)))"

text \<open>
  \<open>XRead\<close> holds the read lock; on an ID it cannot parse it calls \<open>Unlock\<close>, and unlocking the write
  half of a mutex that is not write-locked is a fatal error of the runtime.
\<close>

definition XRead :: "string list \<Rightarrow> string list \<Rightarrow> store \<Rightarrow> streamResult list go" where
  "XRead keys rawIDs s =
     go_bind (resolve_afters s keys rawIDs) (\<lambda>r.
       case r of Inl err \<Rightarrow> Panic | Inr afters \<Rightarrow> collect_results s (zip keys afters))"

text \<open>
  The sections of \<open>XReadBlock\<close>: the cursors are resolved once; every iteration of the loop either
  returns what it found or waits for the broadcast channel it read under the lock, here its number.
  The wait ends when \<open>XAdd\<close> has closed that channel, that is, when \<open>notify\<close> differs from the number.
\<close>

datatype xread_state = XDone "streamResult list" | XParked nat

definition XReadBlock_begin :: "string list \<Rightarrow> string list \<Rightarrow> store \<Rightarrow> StreamID list option go" where
  "XReadBlock_begin keys rawIDs s =
     go_bind (resolve_afters s keys rawIDs) (\<lambda>r.
       case r of Inl err \<Rightarrow> Ret None | Inr afters \<Rightarrow> Ret (Some afters))"

definition XReadBlock_check :: "string list \<Rightarrow> StreamID list \<Rightarrow> store \<Rightarrow> xread_state go" where
  "XReadBlock_check keys afters s =
     go_bind (collect_results s (zip keys afters)) (\<lambda>out.
       Ret (if out \<noteq> [] then XDone out else XParked (notify s)))"

section \<open>Replies\<close>

definition write_entry :: "StreamEntry \<Rightarrow> bytes" where
  "write_entry e = array_header 2 @ bulk (StreamID_String (ID e))
     @ array_header (length (SFields e)) @ concat (map bulk (SFields e))"

definition writeStream :: "StreamEntry list \<Rightarrow> bytes" where
  "writeStream entries = array_header (length entries) @ concat (map write_entry entries)"

definition writeXRead :: "streamResult list \<Rightarrow> bytes" where
  "writeXRead results =
     array_header (length results) @
     concat (map (\<lambda>r. array_header 2 @ bulk (sr_key r) @ array_header (length (sr_entries r))
                    @ concat (map write_entry (sr_entries r))) results)"

section \<open>IDs as text\<close>

lemma word_less_plus_1:
  fixes w :: "64 word"
  assumes "w \<noteq> - 1"
  shows "w < w + 1"
proof -
  have "unat (- 1 :: 64 word) = 2 ^ 64 - 1" by (simp add: unsigned_minus_1_eq_mask mask_eq_exp_minus_1)
  moreover have "unat w \<noteq> unat (- 1 :: 64 word)" using assms by (metis word_unat_eq_iff)
  ultimately have "unat w + 1 < 2 ^ 64" using unsigned_less [of w, where ?'a = nat] by simp
  then have "unat (w + 1) = unat w + 1" by (simp add: unat_word_ariths)
  then show ?thesis by (simp add: word_less_nat_alt)
qed

lemma dash_not_in_FormatNat: "CHR ''-'' \<notin> set (FormatNat n)"
  using FormatNat_set not_is_digit(3) by blast

lemma unat_le_max_uint64: "unat (w :: 64 word) \<le> max_uint64"
  using unsigned_less [of w, where ?'a = nat] by (simp add: max_uint64_def)

lemma parseID_String: "parseID (StreamID_String i) = Inr i"
  by (cases i)
    (simp add: parseID_def StreamID_String_def dash_not_in_FormatNat ParseUint_FormatNat
      unat_le_max_uint64)

section \<open>The invariant of a stream\<close>

text \<open>IDs grow strictly along a stream, are never \<open>0-0\<close>, and \<open>LastID\<close> is the ID of the last entry.\<close>

definition stream_inv :: "Stream \<Rightarrow> bool" where
  "stream_inv st \<longleftrightarrow>
     sorted_wrt (\<lambda>a b. less (ID a) (ID b)) (Entries st) \<and>
     (\<forall>e \<in> set (Entries st). zero_id < ID e) \<and>
     LastID st = (if Entries st = [] then zero_id else ID (last (Entries st)))"

interpretation ids: key_order "\<lambda>a b. less (ID a) (ID b)" "\<lambda>_. True"
  by unfold_locales (auto simp: less_iff)

lemma skip_while_length: "skip_while P es = length (takeWhile P es)"
  by (induction es) auto

lemma drop_skip_while: "drop (skip_while P es) es = dropWhile P es"
  by (simp add: skip_while_length drop_length_takeWhile)

lemma take_skip_while: "take (skip_while P es) es = takeWhile P es"
  by (simp add: skip_while_length take_length_takeWhile)

lemma stream_inv_zero [simp]: "stream_inv zero_stream"
  by (simp add: stream_inv_def zero_stream_def)

lemma stream_inv_append:
  assumes "stream_inv st" and "isValidStreamId (LastID st) i"
  shows "stream_inv (st\<lparr>Entries := Entries st @ [\<lparr>ID = i, SFields = fs\<rparr>], LastID := i\<rparr>)"
proof -
  from assms(2) have lt: "LastID st < i" by (simp add: isValidStreamId_iff)
  have "sorted_wrt (\<lambda>a b. less (ID a) (ID b)) (Entries st @ [\<lparr>ID = i, SFields = fs\<rparr>])"
    by (rule ids.sorted_snoc) (use assms lt in \<open>auto simp: stream_inv_def less_iff list_all_iff\<close>)
  moreover have "zero_id < i" using lt zero_id_least [of "LastID st"] by (rule le_less_trans [rotated])
  ultimately show ?thesis using assms(1) by (auto simp: stream_inv_def)
qed

lemma Filter_spec:
  assumes "stream_inv st"
  shows "Filter st a b = filter (\<lambda>e. a \<le> ID e \<and> ID e \<le> b) (Entries st)"
proof -
  have s: "sorted_wrt (\<lambda>x y. less (ID x) (ID y)) (Entries st)"
    using assms by (simp add: stream_inv_def)
  have all: "list_all (\<lambda>_. True) xs" for xs :: "StreamEntry list" by (simp add: list_all_iff)
  let ?d = "filter (\<lambda>e. \<not> less (ID e) a) (Entries st)"
  have d: "dropWhile (\<lambda>e. less (ID e) a) (Entries st) = ?d"
    using ids.dropWhile_below [OF s all, of "\<lparr>ID = a, SFields = []\<rparr>"] by simp
  have "sorted_wrt (\<lambda>x y. less (ID x) (ID y)) ?d" using s by (simp add: sorted_wrt_filter)
  from ids.takeWhile_not_above [OF this all, of "\<lparr>ID = b, SFields = []\<rparr>"]
  have "takeWhile (\<lambda>e. \<not> less b (ID e)) ?d = filter (\<lambda>e. \<not> less b (ID e)) ?d" by simp
  then have "Filter st a b = filter (\<lambda>e. \<not> less b (ID e)) ?d"
    by (simp add: Filter_def Let_def drop_skip_while take_skip_while d)
  also have "\<dots> = filter (\<lambda>e. a \<le> ID e \<and> ID e \<le> b) (Entries st)"
    unfolding filter_filter by (rule filter_cong) (auto simp: less_iff)
  finally show ?thesis .
qed

text \<open>A store whose stream entries are well formed.\<close>

definition wf_stream_entry :: "entry \<Rightarrow> bool" where
  "wf_stream_entry e \<longleftrightarrow>
     (e_kind e = ''stream'' \<longrightarrow> (\<exists>st. e_stream e = Some st \<and> stream_inv st))"

lemma readAfterLocked_spec:
  assumes "data s k = Some e" and "wf_stream_entry e" and "e_kind e = ''stream''"
    and "e_stream e = Some st"
  shows "readAfterLocked k after s = Ret (filter (\<lambda>x. after < ID x) (Entries st))"
proof -
  from assms have inv: "stream_inv st" by (simp add: wf_stream_entry_def)
  have "dropWhile (\<lambda>x. \<not> less after (ID x)) (Entries st) = filter (\<lambda>x. less after (ID x)) (Entries st)"
    using ids.dropWhile_not_above [of "Entries st" "\<lparr>ID = after, SFields = []\<rparr>"] inv
    by (simp add: stream_inv_def list_all_iff)
  with assms show ?thesis by (simp add: readAfterLocked_def drop_skip_while less_iff)
qed

section \<open>XADD\<close>

text \<open>Every branch of XADD on a well-formed store.\<close>

lemma XAdd_cases:
  assumes "\<And>e. data s key = Some e \<Longrightarrow> wf_stream_entry e"
  obtains (err) x where "XAdd now key rawID flds s = Ret (Inl x, s)"
  | (added) st e i where "XAdd now key rawID flds s = Ret (Inr (StreamID_String i),
        s\<lparr>data := (data s)(key \<mapsto> e\<lparr>e_stream := Some
             (st\<lparr>Entries := Entries st @ [\<lparr>ID = i, SFields = flds\<rparr>], LastID := i\<rparr>)\<rparr>),
          notify := notify s + 1\<rparr>)"
      and "stream_inv st" and "LastID st < i" and "e_kind e = ''stream''" and "e_stream e = Some st"
      and "xadd_id now rawID (LastID st) = Inr i"
      and "data s key = Some e \<or> data s key = None \<and> st = zero_stream
         \<and> e = zero_entry\<lparr>e_kind := ''stream'', e_stream := Some zero_stream\<rparr>"
proof (cases "data s key")
  case None
  show ?thesis
  proof (cases "xadd_id now rawID zero_id")
    case (Inl x)
    then show ?thesis using None err
      by (simp add: XAdd_def Let_def entry_at_def zero_stream_def)
  next
    case (Inr i)
    show ?thesis
    proof (cases "zero_id < i")
      case True
      then have "\<not> (Ms i = 0 \<and> Seq i = 0)" by (auto simp: less_StreamID_def less_def zero_id_def)
      then show ?thesis
        using None Inr True added [where i = i and st = zero_stream
            and e = "zero_entry\<lparr>e_kind := ''stream'', e_stream := Some zero_stream\<rparr>"]
        by (simp add: XAdd_def Let_def entry_at_def zero_stream_def isValidStreamId_iff
            stream_inv_def)
    next
      case False
      then show ?thesis using None Inr err
        by (cases "Ms i = 0 \<and> Seq i = 0")
          (simp_all add: XAdd_def Let_def entry_at_def zero_stream_def isValidStreamId_iff)
    qed
  qed
next
  case (Some e)
  show ?thesis
  proof (cases "e_kind e = ''stream''")
    case False
    then show ?thesis using Some err by (simp add: XAdd_def Let_def entry_at_def)
  next
    case True
    with assms [OF Some] obtain st where st: "e_stream e = Some st" "stream_inv st"
      by (auto simp: wf_stream_entry_def)
    show ?thesis
    proof (cases "xadd_id now rawID (LastID st)")
      case (Inl x)
      then show ?thesis using Some True st err by (simp add: XAdd_def Let_def entry_at_def)
    next
      case (Inr i)
      show ?thesis
      proof (cases "LastID st < i")
        case lt: True
        then have "\<not> (Ms i = 0 \<and> Seq i = 0)"
          using zero_id_least [of "LastID st"]
          by (metis StreamID.collapse leD zero_id_def)
        then show ?thesis
          using Some True Inr lt st added [where i = i and e = e and st = st]
          by (simp add: XAdd_def Let_def entry_at_def isValidStreamId_iff)
      next
        case False
        then show ?thesis using Some True Inr st err
          by (cases "Ms i = 0 \<and> Seq i = 0")
            (simp_all add: XAdd_def Let_def entry_at_def isValidStreamId_iff)
      qed
    qed
  qed
qed

section \<open>What readers see\<close>

definition stream_at :: "store \<Rightarrow> string \<Rightarrow> Stream" where
  "stream_at s k =
     (case data s k of
        Some e \<Rightarrow> if e_kind e = ''stream'' then (case e_stream e of Some st \<Rightarrow> st | None \<Rightarrow> zero_stream)
                  else zero_stream
      | None \<Rightarrow> zero_stream)"

definition wf_streams :: "store \<Rightarrow> bool" where
  "wf_streams s \<longleftrightarrow> (\<forall>k e. data s k = Some e \<longrightarrow> wf_stream_entry e)"

lemma wf_streamsD: "wf_streams s \<Longrightarrow> data s k = Some e \<Longrightarrow> wf_stream_entry e"
  by (simp add: wf_streams_def)

lemma stream_inv_at: "wf_streams s \<Longrightarrow> stream_inv (stream_at s k)"
  by (fastforce simp: stream_at_def wf_streams_def wf_stream_entry_def split: option.splits)

definition after_entries :: "store \<Rightarrow> string \<times> StreamID \<Rightarrow> streamResult" where
  "after_entries s ka =
     \<lparr>sr_key = fst ka, sr_entries = filter (\<lambda>x. snd ka < ID x) (Entries (stream_at s (fst ka)))\<rparr>"

lemma readAfterLocked_after_entries:
  assumes "wf_streams s"
  shows "readAfterLocked k a s = Ret (sr_entries (after_entries s (k, a)))"
proof (cases "data s k")
  case None
  then show ?thesis by (simp add: readAfterLocked_def after_entries_def stream_at_def zero_stream_def)
next
  case (Some e)
  note wf = wf_streamsD [OF assms Some]
  show ?thesis
  proof (cases "e_kind e = ''stream''")
    case True
    with wf obtain st where "e_stream e = Some st" by (auto simp: wf_stream_entry_def)
    with readAfterLocked_spec [OF Some wf True] Some True show ?thesis
      by (simp add: after_entries_def stream_at_def)
  next
    case False
    with Some show ?thesis
      by (simp add: readAfterLocked_def after_entries_def stream_at_def zero_stream_def)
  qed
qed

lemma collect_results_spec:
  "wf_streams s \<Longrightarrow>
     collect_results s kas = Ret (filter (\<lambda>r. sr_entries r \<noteq> []) (map (after_entries s) kas))"
  by (induction kas) (auto simp: readAfterLocked_after_entries after_entries_def)

lemma XAdd_not_Panic: "wf_streams s \<Longrightarrow> XAdd now key rawID flds s \<noteq> Panic"
  by (rule XAdd_cases [of s key now rawID flds]) (auto dest: wf_streamsD)

lemma XAdd_error: "wf_streams s \<Longrightarrow> XAdd now key rawID flds s = Ret (Inl err, s') \<Longrightarrow> s' = s"
  by (rule XAdd_cases [of s key now rawID flds]) (auto dest: wf_streamsD)

lemma XAdd_Ret:
  assumes "wf_streams s" and "XAdd now key rawID flds s = Ret (Inr i, s')"
  obtains j where "i = StreamID_String j" and "LastID (stream_at s key) < j"
    and "xadd_id now rawID (LastID (stream_at s key)) = Inr j"
    and "stream_at s' key = (stream_at s key)\<lparr>
           Entries := Entries (stream_at s key) @ [\<lparr>ID = j, SFields = flds\<rparr>], LastID := j\<rparr>"
    and "\<And>k. k \<noteq> key \<Longrightarrow> data s' k = data s k" and "notify s' = notify s + 1" and "wf_streams s'"
proof (rule XAdd_cases [of s key now rawID flds])
  fix x
  assume "XAdd now key rawID flds s = Ret (Inl x, s)"
  with assms(2) show thesis by simp
next
  fix st :: Stream and e :: entry and j
  let ?st = "st\<lparr>Entries := Entries st @ [\<lparr>ID = j, SFields = flds\<rparr>], LastID := j\<rparr>"
  assume add: "XAdd now key rawID flds s = Ret (Inr (StreamID_String j),
        s\<lparr>data := (data s)(key \<mapsto> e\<lparr>e_stream := Some ?st\<rparr>), notify := notify s + 1\<rparr>)"
    and inv: "stream_inv st" and lt: "LastID st < j" and e: "e_kind e = ''stream''" "e_stream e = Some st"
    and id: "xadd_id now rawID (LastID st) = Inr j"
    and old: "data s key = Some e \<or> data s key = None \<and> st = zero_stream
         \<and> e = zero_entry\<lparr>e_kind := ''stream'', e_stream := Some zero_stream\<rparr>"
  from old e have at: "stream_at s key = st" by (auto simp: stream_at_def)
  have "stream_inv ?st" using inv lt by (intro stream_inv_append) (simp_all add: isValidStreamId_iff)
  with assms add e have "wf_streams s'"
    by (auto simp: wf_streams_def wf_stream_entry_def split: if_splits)
  with add assms at lt e id show thesis
    by (intro that [of j]) (auto simp: stream_at_def)
qed (use assms(1) wf_streamsD in blast)

section \<open>Properties\<close>

text \<open>A stream ID printed by \<open>String\<close> parses back to itself, and \<open>less\<close> and \<open>isValidStreamId\<close> are the
  same strict lexicographic order on (milliseconds, sequence) that the type is ordered by.\<close>

theorem stream_id_round_trip:
  "parseID (StreamID_String i) = Inr i \<and> (less i j \<longleftrightarrow> i < j) \<and> (isValidStreamId i j \<longleftrightarrow> i < j)"
  by (simp add: parseID_String less_iff isValidStreamId_iff)

text \<open>C14. XADD on a store of well-formed streams never panics. When it fails, the store is unchanged.
  When it succeeds, the ID it returns is larger than every ID of the stream, the entry is appended, no
  other key changes, and every stream is well formed again: IDs strictly grow and \<open>LastID\<close> is the
  last one.\<close>

theorem xadd_appends:
  assumes "wf_streams s"
  shows "\<exists>r s'. XAdd now key rawID flds s = Ret (r, s') \<and> wf_streams s' \<and>
    (case r of
       Inl err \<Rightarrow> s' = s
     | Inr idtext \<Rightarrow> \<exists>i. idtext = StreamID_String i \<and>
         (\<forall>e \<in> set (Entries (stream_at s key)). ID e < i) \<and>
         Entries (stream_at s' key) = Entries (stream_at s key) @ [\<lparr>ID = i, SFields = flds\<rparr>] \<and>
         LastID (stream_at s' key) = i \<and> (\<forall>k. k \<noteq> key \<longrightarrow> data s' k = data s k))"
proof -
  from XAdd_not_Panic [OF assms] obtain r s' where x: "XAdd now key rawID flds s = Ret (r, s')"
    by (cases "XAdd now key rawID flds s") auto
  show ?thesis
  proof (cases r)
    case (Inl err)
    with x XAdd_error [OF assms] have "s' = s" by blast
    with x Inl assms show ?thesis by simp
  next
    case (Inr idtext)
    from XAdd_Ret [OF assms x [unfolded Inr]] obtain i where i: "idtext = StreamID_String i"
      "LastID (stream_at s key) < i" "wf_streams s'" "\<And>k. k \<noteq> key \<Longrightarrow> data s' k = data s k"
      "stream_at s' key = (stream_at s key)\<lparr>
           Entries := Entries (stream_at s key) @ [\<lparr>ID = i, SFields = flds\<rparr>], LastID := i\<rparr>" by metis
    have "stream_inv (stream_at s' key)" using stream_inv_at [OF i(3)] .
    then have "\<forall>e \<in> set (Entries (stream_at s key)). ID e < i"
      by (simp add: i(5) stream_inv_def sorted_wrt_append less_iff)
    with x Inr i show ?thesis by auto
  qed
qed

lemma wf_streams_newStore: "wf_streams newStore"
  by (simp add: wf_streams_def newStore_def)

text \<open>A stream of three entries.\<close>

definition example_streams :: store where
  "example_streams = newStore\<lparr>data := [''s'' \<mapsto> zero_entry\<lparr>e_kind := ''stream'', e_stream := Some \<lparr>Entries =
     [\<lparr>ID = StreamID 1 1, SFields = []\<rparr>, \<lparr>ID = StreamID 2 1, SFields = []\<rparr>, \<lparr>ID = StreamID 3 1, SFields = []\<rparr>],
     LastID = StreamID 3 1\<rparr>\<rparr>]\<rparr>"

lemma wf_example_streams: "wf_streams example_streams"
  by (simp add: wf_streams_def example_streams_def wf_stream_entry_def stream_inv_def zero_id_def less_StreamID_def less_def)

lemma example_id: "StreamID_String (StreamID 5 1) = ''5-1''" "xadd_id now ''5-1'' i = Inr (StreamID 5 1)"
proof -
  have "FormatNat 5 = ''5''" "FormatNat 1 = ''1''" by code_simp+
  then show t: "StreamID_String (StreamID 5 1) = ''5-1''" by (simp add: StreamID_String_def)
  moreover have "\<not> HasSuffix ''5-1'' ''-*''" by code_simp
  ultimately show "xadd_id now ''5-1'' i = Inr (StreamID 5 1)" using parseID_String [of "StreamID 5 1"] by (simp add: xadd_id_def)
qed

theorem xadd_appends_witness:
  "\<exists>s'. XAdd 0 ''s'' ''5-1'' [''f'', ''v''] example_streams = Ret (Inr ''5-1'', s') \<and> wf_streams s' \<and>
     Entries (stream_at s' ''s'') = [\<lparr>ID = StreamID 1 1, SFields = []\<rparr>, \<lparr>ID = StreamID 2 1, SFields = []\<rparr>,
       \<lparr>ID = StreamID 3 1, SFields = []\<rparr>, \<lparr>ID = StreamID 5 1, SFields = [''f'', ''v'']\<rparr>]"
proof -
  have es: "Entries (stream_at example_streams ''s'') =
      [\<lparr>ID = StreamID 1 1, SFields = []\<rparr>, \<lparr>ID = StreamID 2 1, SFields = []\<rparr>, \<lparr>ID = StreamID 3 1, SFields = []\<rparr>]"
    by (simp add: example_streams_def stream_at_def)
  obtain s1 where add: "XAdd 0 ''s'' ''5-1'' [''f'', ''v''] example_streams = Ret (Inr ''5-1'', s1)"
    using example_id by (simp add: XAdd_def Let_def example_streams_def entry_at_def isValidStreamId_def)
  from xadd_appends [OF wf_example_streams, of 0 "''s''" "''5-1''" "[''f'', ''v'']"] obtain i where
    i: "''5-1'' = StreamID_String i" "wf_streams s1"
    "Entries (stream_at s1 ''s'') = Entries (stream_at example_streams ''s'') @ [\<lparr>ID = i, SFields = [''f'', ''v'']\<rparr>]"
    by (auto simp: add)
  have "i = StreamID 5 1" using i(1) example_id(1) parseID_String by (metis sum.inject(2))
  with add i(2,3) es show ?thesis by simp
qed

text \<open>XADD with a generated ID always succeeds on a new key or a stream, at any positive time, as
  long as the last sequence number of the stream is not the largest 64-bit one: a clock that runs
  backwards reuses the last millisecond, so the ID still grows.\<close>

theorem xadd_generated_id_succeeds:
  assumes "wf_streams s" and "\<And>e. data s key = Some e \<Longrightarrow> e_kind e = ''stream''"
    and "1 \<le> UnixMilli now" and "UnixMilli now \<le> max_int64" and "Seq (LastID (stream_at s key)) \<noteq> - 1"
  shows "\<exists>i s'. XAdd now key ''*'' flds s = Ret (Inr (StreamID_String i), s') \<and>
    LastID (stream_at s key) < i \<and> word_of_int (UnixMilli now) \<le> Ms i"
proof -
  let ?l = "LastID (stream_at s key)" and ?now = "word_of_int (UnixMilli now) :: 64 word"
  let ?ms = "if ?now < Ms ?l then Ms ?l else ?now"
  let ?i = "StreamID ?ms (nextSeq ?ms ?l)"
  have id: "xadd_id now ''*'' ?l = Inr ?i" by (simp add: xadd_id_def Let_def)
  have "uint ?now = UnixMilli now"
    using assms(3,4) by (simp add: uint_word_of_int max_int64_def take_bit_eq_mod)
  then have pos: "?now \<noteq> 0" using assms(3) by auto
  have "Seq ?l < Seq ?l + 1" using assms(5) by (rule word_less_plus_1)
  then have lt: "?l < ?i" by (auto simp: less_StreamID_def less_def nextSeq_def)
  moreover have "\<not> (Ms ?i = 0 \<and> Seq ?i = 0)" using pos by (auto simp: word_gt_0)
  ultimately have "\<exists>s'. XAdd now key ''*'' flds s = Ret (Inr (StreamID_String ?i), s')"
  proof (cases "data s key")
    case None
    then have "?l = zero_id" by (simp add: stream_at_def zero_stream_def)
    then show ?thesis
      using None id lt \<open>\<not> (Ms ?i = 0 \<and> Seq ?i = 0)\<close>
      by (simp add: XAdd_def Let_def entry_at_def zero_stream_def isValidStreamId_iff)
  next
    case (Some e)
    with assms(1,2) obtain st where "e_kind e = ''stream''" and st: "e_stream e = Some st" "?l = LastID st"
      by (auto simp: wf_streams_def wf_stream_entry_def stream_at_def)
    then show ?thesis
      using Some id lt \<open>\<not> (Ms ?i = 0 \<and> Seq ?i = 0)\<close>
      by (simp add: XAdd_def Let_def entry_at_def isValidStreamId_iff)
  qed
  moreover have "?now \<le> Ms ?i" by auto
  ultimately show ?thesis using lt by blast
qed

theorem xadd_generated_id_succeeds_witness:
  "\<exists>i s'. XAdd 5000000 ''s'' ''*'' [] newStore = Ret (Inr (StreamID_String i), s') \<and> 5 \<le> Ms i"
proof -
  have "UnixMilli 5000000 = 5" by (simp add: UnixMilli_def)
  with xadd_generated_id_succeeds [OF wf_streams_newStore, of "''s''" 5000000 "[]"]
  show ?thesis
    by (auto simp: newStore_def stream_at_def zero_stream_def zero_id_def max_int64_def)
qed

text \<open>C30. XRANGE returns exactly the entries whose ID lies between the two bounds, both included, in
  order; \<open>-\<close> and \<open>+\<close> are the least and greatest ID, a missing key is the empty answer, a key of another
  kind and a malformed bound are errors.\<close>

theorem xrange_selects:
  assumes "wf_streams s" and "start = ''-'' \<and> a = zero_id \<or> start \<noteq> ''-'' \<and> parseID start = Inr a"
    and "end' = ''+'' \<and> b = max_id \<or> end' \<noteq> ''+'' \<and> parseID end' = Inr b"
  shows "XRange key start end' s =
    (case data s key of
       None \<Rightarrow> Ret (Inr [])
     | Some e \<Rightarrow>
         if e_kind e \<noteq> ''stream'' then Ret (Inl ErrWrongType)
         else Ret (Inr (filter (\<lambda>e. a \<le> ID e \<and> ID e \<le> b) (Entries (stream_at s key)))))"
proof -
  have "XRange key start end' s =
      (case data s key of
         None \<Rightarrow> Ret (Inr [])
       | Some e \<Rightarrow>
           if e_kind e \<noteq> ''stream'' then Ret (Inl ErrWrongType)
           else case e_stream e of None \<Rightarrow> Panic | Some st \<Rightarrow> Ret (Inr (Filter st a b)))"
    using assms(2,3) by (auto simp: XRange_def)
  also have "\<dots> = (case data s key of
       None \<Rightarrow> Ret (Inr [])
     | Some e \<Rightarrow>
         if e_kind e \<noteq> ''stream'' then Ret (Inl ErrWrongType)
         else Ret (Inr (filter (\<lambda>e. a \<le> ID e \<and> ID e \<le> b) (Entries (stream_at s key)))))"
    using wf_streamsD [OF assms(1), of key]
    by (auto simp: wf_stream_entry_def stream_at_def Filter_spec split: option.splits)
  finally show ?thesis .
qed

theorem xrange_selects_witness:
  "XRange ''s'' ''2-0'' ''+'' example_streams =
     Ret (Inr [\<lparr>ID = StreamID 2 1, SFields = []\<rparr>, \<lparr>ID = StreamID 3 1, SFields = []\<rparr>])"
proof -
  have "FormatNat 2 = ''2''" "FormatNat 0 = ''0''" by code_simp+
  then have "StreamID_String (StreamID 2 0) = ''2-0''" by (simp add: StreamID_String_def)
  then have "parseID ''2-0'' = Inr (StreamID 2 0)" using parseID_String by metis
  with xrange_selects [OF wf_example_streams, of "''2-0''" "StreamID 2 0" "''+''" max_id "''s''"] show ?thesis
    by (simp add: example_streams_def stream_at_def less_eq_StreamID_def less_StreamID_def less_def max_id_def)
qed

text \<open>C22. A blocking XREAD misses no wakeup. Suppose it found nothing and parked on the broadcast channel.
  Whatever XADD succeeds next closes that channel; and if it adds to a stream the call reads, with an
  ID above the call's cursor, the next iteration returns, and its answer holds the new entry.\<close>

theorem xread_block_no_lost_wakeup:
  assumes "wf_streams s" and "XReadBlock_check keys afters s = Ret (XParked n)"
    and "XAdd now key rawID flds s = Ret (Inr (StreamID_String i), s')"
  shows "notify s' \<noteq> n \<and>
    (\<forall>a. (key, a) \<in> set (zip keys afters) \<longrightarrow> a < i \<longrightarrow>
      (\<exists>out. XReadBlock_check keys afters s' = Ret (XDone out) \<and>
         \<lparr>sr_key = key, sr_entries = [\<lparr>ID = i, SFields = flds\<rparr>]\<rparr> \<in> set out))"
proof -
  from XAdd_Ret [OF assms(1,3)] obtain j where j: "StreamID_String i = StreamID_String j"
    "stream_at s' key = (stream_at s key)\<lparr>
           Entries := Entries (stream_at s key) @ [\<lparr>ID = j, SFields = flds\<rparr>], LastID := j\<rparr>"
    "notify s' = notify s + 1" "wf_streams s'" by metis
  then have ij: "j = i" using parseID_String by (metis sum.inject(2))
  from assms(1,2) have none: "filter (\<lambda>r. sr_entries r \<noteq> []) (map (after_entries s) (zip keys afters)) = []"
    and n: "n = notify s"
    by (auto simp: XReadBlock_check_def collect_results_spec split: if_splits)
  have "\<exists>out. XReadBlock_check keys afters s' = Ret (XDone out) \<and>
         \<lparr>sr_key = key, sr_entries = [\<lparr>ID = i, SFields = flds\<rparr>]\<rparr> \<in> set out"
    if a: "(key, a) \<in> set (zip keys afters)" "a < i" for a
  proof -
    let ?r = "\<lparr>sr_key = key, sr_entries = [\<lparr>ID = i, SFields = flds\<rparr>]\<rparr>"
    have "sr_entries (after_entries s (key, a)) = []"
      using none a(1) by (auto simp: filter_empty_conv)
    then have "after_entries s' (key, a) = ?r"
      using a(2) by (simp add: after_entries_def j(2) ij)
    with a(1) have "?r \<in> set (map (after_entries s') (zip keys afters))" by force
    then have "?r \<in> set (filter (\<lambda>r. sr_entries r \<noteq> []) (map (after_entries s') (zip keys afters)))"
      (is "_ \<in> set ?out") by simp
    moreover from this have "?out \<noteq> []" by (metis empty_iff list.set(1))
    ultimately show ?thesis
      by (intro exI [of _ ?out]) (simp add: XReadBlock_check_def collect_results_spec [OF j(4)] del: set_filter)
  qed
  with n j(3) show ?thesis by simp
qed

theorem xread_block_no_lost_wakeup_witness:
  "\<exists>s' out. XAdd 0 ''s'' (StreamID_String (StreamID 5 1)) [''f'', ''v''] newStore =
        Ret (Inr (StreamID_String (StreamID 5 1)), s') \<and>
     XReadBlock_check [''s''] [zero_id] s' = Ret (XDone out)"
proof -
  have parked: "XReadBlock_check [''s''] [zero_id] newStore = Ret (XParked 0)"
    by (simp add: XReadBlock_check_def readAfterLocked_def newStore_def)
  obtain s' where add: "XAdd 0 ''s'' (StreamID_String (StreamID 5 1)) [''f'', ''v''] newStore =
        Ret (Inr (StreamID_String (StreamID 5 1)), s')"
    by (simp add: XAdd_def Let_def newStore_def entry_at_def zero_stream_def isValidStreamId_def zero_id_def example_id)
  from xread_block_no_lost_wakeup [OF wf_streams_newStore parked add] add show ?thesis
    by (auto simp: less_StreamID_def less_def zero_id_def)
qed

text \<open>XREAD of one stream after a given ID returns exactly the entries above it, and no stream when
  there are none. Defect: on an ID that does not parse, it unlocks the write half of a mutex it holds for
  reading, a fatal error that ends the process.\<close>

theorem xread_after:
  assumes "wf_streams s"
  shows "XRead [k] [StreamID_String a] s =
      Ret (filter (\<lambda>r. sr_entries r \<noteq> [])
        [\<lparr>sr_key = k, sr_entries = filter (\<lambda>x. a < ID x) (Entries (stream_at s k))\<rparr>]) \<and>
    (\<forall>raw err. raw \<noteq> ''$'' \<longrightarrow> parseID raw = Inl err \<longrightarrow> XRead [k] [raw] s = Panic)"
proof -
  have "CHR ''-'' \<in> set (StreamID_String a)" by (simp add: StreamID_String_def)
  then have "StreamID_String a \<noteq> ''$''" by auto
  then show ?thesis
    using readAfterLocked_after_entries [OF assms]
    by (simp add: XRead_def resolve_after_def parseID_String after_entries_def)
qed

theorem xread_after_witness: "XRead [''s''] [''x''] newStore = Panic"
proof -
  have "parseID ''x'' = Inl ErrInvalidID" by code_simp
  with xread_after [OF wf_streams_newStore, of "''s''"] show ?thesis by simp
qed

end
