(* ===== verification/Bitmaps.thy ===== *)
theory Bitmaps
  imports Store
begin

text \<open>
  Bit operations on string values of \<^verbatim>\<open>src/app/store.go\<close>: SETBIT, GETBIT, STRLEN, BITCOUNT and BITOP.
  A \<open>uint64\<close> offset is its value; \<open>maxBitOffset\<close> keeps every index in range. \<open>bit_at\<close> reads a string
  as a sequence of bits, most significant bit of each byte first, zero past the end.
\<close>

unbundle bit_operations_syntax

section \<open>Operations\<close>

definition maxBitOffset :: nat where "maxBitOffset = 2 ^ 32 - 1"

definition bitPosition :: "nat \<Rightarrow> nat \<times> 8 word" where
  "bitPosition offset = (offset div 8, push_bit (7 - offset mod 8) 1)"

definition byteAt :: "string \<Rightarrow> nat \<Rightarrow> 8 word" where
  "byteAt s i = (if i < length s then byte_val (s ! i) else 0)"

definition countBits :: "8 word \<Rightarrow> nat" where
  "countBits b = length (filter (bit b) [0..<8])"

definition SetBit :: "time \<Rightarrow> string \<Rightarrow> nat \<Rightarrow> int \<Rightarrow> store \<Rightarrow> (store_error + int) \<times> store" where
  "SetBit now key offset val s =
     (if val \<noteq> 0 \<and> val \<noteq> 1 then (Inl ErrBitValue, s)
      else if maxBitOffset < offset then (Inl ErrBitOffset, s)
      else
        (let found = data s key \<noteq> None; e0 = entry_at s key;
             ok = (found \<and> \<not> expired e0 now);
             e = (if found \<and> expired e0 now then zero_entry else e0)
         in if ok \<and> e_kind e \<noteq> ''string'' then (Inl ErrWrongType, s)
            else
              (let s1 = markWatchersLocked key s;
                   (byteIdx, bitmask) = bitPosition offset;
                   buf = (if length (e_value e) \<le> byteIdx
                          then e_value e @ replicate (byteIdx + 1 - length (e_value e)) (byte_char 0)
                          else e_value e);
                   old = (if byte_val (buf ! byteIdx) AND bitmask \<noteq> 0 then 1 else 0);
                   new = (if val = 1 then byte_val (buf ! byteIdx) OR bitmask
                          else byte_val (buf ! byteIdx) AND NOT bitmask)
               in (Inr old, s1\<lparr>data := (data s1)(key \<mapsto>
                     e\<lparr>e_kind := ''string'', e_value := buf[byteIdx := byte_char new]\<rparr>)\<rparr>))))"

definition GetBit :: "time \<Rightarrow> string \<Rightarrow> nat \<Rightarrow> store \<Rightarrow> store_error + int" where
  "GetBit now key offset s =
     (if maxBitOffset < offset then Inl ErrBitOffset
      else
        case data s key of
          None \<Rightarrow> Inr 0
        | Some e \<Rightarrow>
            if expired e now then Inr 0
            else if e_kind e \<noteq> ''string'' then Inl ErrWrongType
            else
              (case bitPosition offset of (byteIdx, bitmask) \<Rightarrow>
                 if length (e_value e) \<le> byteIdx then Inr 0
                 else if byte_val (e_value e ! byteIdx) AND bitmask \<noteq> 0 then Inr 1
                 else Inr 0))"

definition Strlen :: "time \<Rightarrow> string \<Rightarrow> store \<Rightarrow> store_error + int" where
  "Strlen now key s =
     (case data s key of
        None \<Rightarrow> Inr 0
      | Some e \<Rightarrow>
          if expired e now then Inr 0
          else if e_kind e \<noteq> ''string'' then Inl ErrWrongType
          else Inr (int (length (e_value e))))"

text \<open>The loop of \<open>CountBit\<close>; indexing outside the buffer panics.\<close>

function count_loop :: "string \<Rightarrow> int \<Rightarrow> int \<Rightarrow> int \<Rightarrow> int go" where
  "count_loop buf i stop n =
     (if i \<le> stop
      then if i < 0 \<or> int (length buf) \<le> i then Panic
           else count_loop buf (i + 1) stop (n + int (countBits (byte_val (buf ! nat i))))
      else Ret n)"
  by pat_completeness auto
termination by (relation "measure (\<lambda>(buf, i, stop, n). nat (stop + 1 - i))") auto

declare count_loop.simps [simp del]

definition CountBit :: "string \<Rightarrow> int \<Rightarrow> int \<Rightarrow> store \<Rightarrow> int go" where
  "CountBit key start stop s =
     (case data s key of
        None \<Rightarrow> Ret 0
      | Some e \<Rightarrow>
          (let buf = e_value e; len = int (length buf)
           in if len < start then Ret 0
              else if stop < start then Ret 0
              else
                (let stop1 = (if len \<le> stop then len - 1 else stop);
                     stop2 = (if start = 0 \<and> stop1 = 0 then len - 1 else stop1)
                 in count_loop buf start stop2 0)))"

text \<open>\<open>BitOpAnd\<close> and \<open>BitOpOr\<close> differ in the operator only.\<close>

definition bit_op :: "(8 word \<Rightarrow> 8 word \<Rightarrow> 8 word) \<Rightarrow> string \<Rightarrow> string \<Rightarrow> string \<Rightarrow> store \<Rightarrow> nat \<times> store" where
  "bit_op f destKey key1 key2 s =
     (let str1 = e_value (entry_at s key1);
          str2 = e_value (entry_at s key2);
          dest = map (\<lambda>i. byte_char (f (byteAt str1 i) (byteAt str2 i))) [0..<max (length str1) (length str2)]
      in if length dest = 0 then (0, s\<lparr>data := (data s)(destKey := None)\<rparr>)
         else if data s destKey = None
         then (length dest, s\<lparr>data := (data s)(destKey \<mapsto>
                 zero_entry\<lparr>e_kind := ''string'', e_value := dest\<rparr>)\<rparr>)
         else (length dest, s))"

definition BitOpAnd :: "string \<Rightarrow> string \<Rightarrow> string \<Rightarrow> store \<Rightarrow> nat \<times> store" where
  "BitOpAnd destKey key1 key2 s = bit_op (AND) destKey key1 key2 s"

definition BitOpOr :: "string \<Rightarrow> string \<Rightarrow> string \<Rightarrow> store \<Rightarrow> nat \<times> store" where
  "BitOpOr destKey key1 key2 s = bit_op (OR) destKey key1 key2 s"

section \<open>Strings as bit sequences\<close>

definition bit_at :: "string \<Rightarrow> nat \<Rightarrow> bool" where
  "bit_at s i \<longleftrightarrow> bit (byteAt s (i div 8)) (7 - i mod 8)"

lemma byteAt_char: "byteAt (buf[j := byte_char w]) i = (if i = j \<and> j < length buf then w else byteAt buf i)"
  by (auto simp: byteAt_def nth_list_update)

lemma byteAt_grow [simp]: "byteAt (s @ replicate n (byte_char 0)) i = byteAt s i"
  by (auto simp: byteAt_def nth_append)

lemma bit_index_inj: "(7 - i mod 8 = 7 - j mod (8::nat)) \<longleftrightarrow> i mod 8 = j mod 8"
  using mod_less_divisor [of 8 i] mod_less_divisor [of 8 j] by arith

lemma index_eq: "i div 8 = j div 8 \<and> i mod 8 = j mod (8::nat) \<longleftrightarrow> i = j"
  by (metis div_mod_decomp)

lemma bit_at_update:
  assumes "off div 8 < length buf"
  shows "bit_at (buf[off div 8 := byte_char (if v then byteAt buf (off div 8) OR push_bit (7 - off mod 8) 1
             else byteAt buf (off div 8) AND NOT (push_bit (7 - off mod 8) 1))]) i
    = (if i = off then v else bit_at buf i)"
proof (cases "i div 8 = off div 8")
  case True
  moreover have "7 - i mod 8 < 8" by simp
  ultimately show ?thesis
    using assms index_eq [of i off] bit_index_inj [of i off]
    by (auto simp: bit_at_def byteAt_char bit_simps)
next
  case False
  then show ?thesis by (auto simp: bit_at_def byteAt_char)
qed

lemma length_filter_card: "length (filter P [0..<n]) = card {i. i < n \<and> P i}"
proof -
  have "distinct (filter P [0..<n])" by simp
  from distinct_card [OF this] show ?thesis by (simp add: conj_commute)
qed

text \<open>The bits of byte \<open>j\<close>, counted by bit number.\<close>

lemma countBits_card: "countBits (byteAt s j) = card {i. 8 * j \<le> i \<and> i < 8 * (j + 1) \<and> bit_at s i}"
proof -
  let ?B = "{n. n < 8 \<and> bit (byteAt s j) n}" and ?I = "{i. 8 * j \<le> i \<and> i < 8 * (j + 1) \<and> bit_at s i}"
  have pos: "(8 * j + (7 - n)) mod 8 = 7 - n" "(8 * j + (7 - n)) div 8 = j" for n
    unfolding mod_mult_self4 div_mult_self4 [OF zero_neq_numeral [symmetric]] by simp_all
  have "bij_betw (\<lambda>n. 8 * j + (7 - n)) ?B ?I"
  proof (rule bij_betw_byWitness [where f' = "\<lambda>i. 7 - i mod 8"])
    show "\<forall>n \<in> ?B. 7 - (8 * j + (7 - n)) mod 8 = n" unfolding pos by auto
    show "\<forall>i \<in> ?I. 8 * j + (7 - (7 - i mod 8)) = i"
    proof
      fix i assume "i \<in> ?I"
      then have "8 * j \<le> i" and "i < 8 * (j + 1)" by simp_all
      then have "i div 8 = j" by (simp add: div_nat_eqI mult.commute)
      moreover have "7 - (7 - i mod 8) = i mod 8" by simp
      ultimately show "8 * j + (7 - (7 - i mod 8)) = i" by (metis mult_div_mod_eq)
    qed
    show "(\<lambda>n. 8 * j + (7 - n)) ` ?B \<subseteq> ?I"
    proof
      fix i assume "i \<in> (\<lambda>n. 8 * j + (7 - n)) ` ?B"
      then obtain n where n: "i = 8 * j + (7 - n)" "n < 8" "bit (byteAt s j) n" by blast
      then have "bit_at s i" unfolding bit_at_def n(1) pos by simp
      moreover have "8 * j \<le> i" "i < 8 * (j + 1)" using n(1) by simp_all
      ultimately show "i \<in> ?I" by simp
    qed
    show "(\<lambda>i. 7 - i mod 8) ` ?I \<subseteq> ?B"
    proof
      fix n assume "n \<in> (\<lambda>i. 7 - i mod 8) ` ?I"
      then obtain i where i: "n = 7 - i mod 8" "8 * j \<le> i" "i < 8 * (j + 1)" "bit_at s i" by auto
      then have "i div 8 = j" by (simp add: div_nat_eqI mult.commute)
      with i show "n \<in> ?B" by (simp add: bit_at_def)
    qed
  qed
  then show ?thesis by (simp add: countBits_def length_filter_card bij_betw_same_card)
qed

lemma finite_bits: "finite {i. a \<le> i \<and> i < (b :: nat) \<and> bit_at s i}"
  by (rule finite_subset [of _ "{..<b}"]) auto

lemma count_loop_card:
  assumes "0 \<le> i" and "stop < int (length buf)"
  shows "count_loop buf i stop n =
    Ret (n + int (card {p. 8 * nat i \<le> p \<and> p < 8 * nat (stop + 1) \<and> bit_at buf p}))"
  using assms
proof (induction buf i stop n rule: count_loop.induct)
  case (1 buf i stop n)
  show ?case
  proof (cases "i \<le> stop")
    case False
    then have "{p. 8 * nat i \<le> p \<and> p < 8 * nat (stop + 1) \<and> bit_at buf p} = {}" by auto
    with False show ?thesis by (simp add: count_loop.simps [of buf i])
  next
    case True
    let ?S = "\<lambda>a b. {p. 8 * a \<le> p \<and> p < 8 * b \<and> bit_at buf p}"
    have i1: "nat (i + 1) = nat i + 1" using "1.prems"(1) by simp
    have "?S (nat i) (nat (stop + 1)) = ?S (nat i) (nat i + 1) \<union> ?S (nat i + 1) (nat (stop + 1))"
      using True "1.prems"(1) by auto
    moreover have "?S (nat i) (nat i + 1) \<inter> ?S (nat i + 1) (nat (stop + 1)) = {}" by auto
    ultimately have "card (?S (nat i) (nat (stop + 1))) =
        card (?S (nat i) (nat i + 1)) + card (?S (nat i + 1) (nat (stop + 1)))"
      by (simp add: card_Un_disjoint finite_bits)
    moreover have "byte_val (buf ! nat i) = byteAt buf (nat i)"
      using True "1.prems" by (simp add: byteAt_def nat_less_iff)
    moreover have "count_loop buf i stop n =
        count_loop buf (i + 1) stop (n + int (countBits (byte_val (buf ! nat i))))"
      using True "1.prems" by (simp add: count_loop.simps [of buf i])
    ultimately show ?thesis
      using "1.IH" True "1.prems" countBits_card [of buf "nat i"] i1 by simp
  qed
qed

section \<open>Properties\<close>

text \<open>The bits a reader sees at a time: none for a missing or expired key.\<close>

definition live_value :: "time \<Rightarrow> string \<Rightarrow> store \<Rightarrow> string" where
  "live_value now key s =
     (case data s key of None \<Rightarrow> [] | Some e \<Rightarrow> if expired e now then [] else e_value e)"

definition bit_key :: "time \<Rightarrow> string \<Rightarrow> store \<Rightarrow> bool" where
  "bit_key now key s \<longleftrightarrow>
     (\<forall>e. data s key = Some e \<longrightarrow> \<not> expired e now \<longrightarrow> e_kind e = ''string'')"

lemma GetBit_bit_at:
  assumes "bit_key now key s" and "off \<le> maxBitOffset"
  shows "GetBit now key off s = Inr (if bit_at (live_value now key s) off then 1 else 0)"
  using assms
  by (auto simp: GetBit_def bit_key_def live_value_def bitPosition_def bit_at_def byteAt_def push_bit_of_1
      and_exp_eq_0_iff_not_bit
      split: option.splits)

lemma SetBit_effect:
  assumes "bit_key now key s" and "off \<le> maxBitOffset" and "v = 0 \<or> v = 1"
  shows "\<exists>e s'. SetBit now key off v s = (Inr (if bit_at (live_value now key s) off then 1 else 0), s') \<and>
    data s' = (data s)(key \<mapsto> e) \<and> e_kind e = ''string'' \<and> \<not> expired e now \<and>
    length (e_value e) = max (length (live_value now key s)) (off div 8 + 1) \<and>
    (\<forall>i. bit_at (e_value e) i = (if i = off then v = 1 else bit_at (live_value now key s) i))"
proof -
  define e where "e = (if data s key \<noteq> None \<and> expired (entry_at s key) now then zero_entry else entry_at s key)"
  define buf where "buf = (if length (e_value e) \<le> off div 8
      then e_value e @ replicate (off div 8 + 1 - length (e_value e)) (byte_char 0) else e_value e)"
  let ?m = "push_bit (7 - off mod 8) 1 :: 8 word"
  define buf' where "buf' = buf[off div 8 := byte_char (if v = 1 then byteAt buf (off div 8) OR ?m
             else byteAt buf (off div 8) AND NOT ?m)]"
  have val: "e_value e = live_value now key s"
    by (auto simp: e_def live_value_def entry_at_def zero_entry_def split: option.splits)
  have live: "\<not> expired (e\<lparr>e_kind := k, e_value := b\<rparr>) now" for k b
    by (auto simp: e_def entry_at_def zero_entry_def expired_def IsZero_def split: option.splits)
  have kind: "\<not> (data s key \<noteq> None \<and> \<not> expired (entry_at s key) now \<and> e_kind e \<noteq> ''string'')"
    using assms(1) by (auto simp: e_def bit_key_def entry_at_def split: option.splits)
  have len: "length buf = max (length (e_value e)) (off div 8 + 1)" and idx: "off div 8 < length buf"
    by (auto simp: buf_def)
  have grow: "bit_at buf i = bit_at (e_value e) i" for i by (simp add: buf_def bit_at_def)
  have at: "byte_val (buf ! (off div 8)) = byteAt buf (off div 8)" using idx by (simp add: byteAt_def)
  have old: "byteAt buf (off div 8) AND ?m \<noteq> 0 \<longleftrightarrow> bit_at buf off"
    by (simp add: bit_at_def push_bit_of_1 and_exp_eq_0_iff_not_bit)
  have "SetBit now key off v s = (Inr (if bit_at buf off then 1 else 0),
      (markWatchersLocked key s)\<lparr>data := (data (markWatchersLocked key s))(key \<mapsto>
         e\<lparr>e_kind := ''string'', e_value := buf'\<rparr>)\<rparr>)"
    using assms(2,3) kind
    unfolding SetBit_def Let_def bitPosition_def prod.case e_def [symmetric] buf_def [symmetric] at old buf'_def
    by auto
  moreover have "bit_at buf' i = (if i = off then v = 1 else bit_at buf i)" for i
    unfolding buf'_def using bit_at_update [OF idx, of "v = 1" i] by simp
  moreover have "length buf' = length buf" by (simp add: buf'_def)
  ultimately show ?thesis
    using live len
    by (intro exI [of _ "e\<lparr>e_kind := ''string'', e_value := buf'\<rparr>"]) (simp add: grow val markWatchersLocked_def)
qed

text \<open>C29. SETBIT on a missing, expired or string key sets exactly the addressed bit and replies with its
  old value: afterwards GETBIT of any offset sees the new bit there and the old bit everywhere else, the
  value is zero-extended just far enough, and no other key changes.\<close>

theorem setbit_then_getbit:
  assumes "bit_key now key s" and "off \<le> maxBitOffset" and "v = 0 \<or> v = 1"
  shows "\<exists>s'. SetBit now key off v s = (GetBit now key off s, s') \<and>
    (\<forall>i \<le> maxBitOffset. GetBit now key i s' = (if i = off then Inr v else GetBit now key i s)) \<and>
    Strlen now key s' = Inr (int (max (length (live_value now key s)) (off div 8 + 1))) \<and>
    (\<forall>k. k \<noteq> key \<longrightarrow> data s' k = data s k)"
proof -
  from SetBit_effect [OF assms] obtain e s' where
    r: "SetBit now key off v s = (Inr (if bit_at (live_value now key s) off then 1 else 0), s')"
    and d: "data s' = (data s)(key \<mapsto> e)" and e: "e_kind e = ''string''" "\<not> expired e now"
    and len: "length (e_value e) = max (length (live_value now key s)) (off div 8 + 1)"
    and bits: "\<And>i. bit_at (e_value e) i = (if i = off then v = 1 else bit_at (live_value now key s) i)"
    by blast
  have "bit_key now key s'" and lv: "live_value now key s' = e_value e"
    using d e by (simp_all add: bit_key_def live_value_def)
  then have "GetBit now key i s' = (if i = off then Inr v else GetBit now key i s)"
    if "i \<le> maxBitOffset" for i
    using that GetBit_bit_at [of now key s' i] GetBit_bit_at [OF assms(1), of i] assms(3)
    by (auto simp: bits)
  moreover have "Strlen now key s' = Inr (int (length (e_value e)))" using d e by (simp add: Strlen_def)
  ultimately show ?thesis
    using r d GetBit_bit_at [OF assms(1,2)] by (simp add: len)
qed

theorem setbit_then_getbit_witness:
  "\<exists>s'. SetBit 0 ''b'' 7 1 newStore = (Inr 0, s') \<and> GetBit 0 ''b'' 7 s' = Inr 1"
proof -
  have "bit_key 0 ''b'' newStore" and "GetBit 0 ''b'' 7 newStore = Inr 0" and "(7 :: nat) \<le> maxBitOffset"
    by (simp_all add: bit_key_def newStore_def GetBit_def maxBitOffset_def)
  with setbit_then_getbit [of 0 "''b''" newStore 7 1] show ?thesis by auto
qed

text \<open>The last byte BITCOUNT reads: the end it is given, clamped, or the end of the value for \<open>0 0\<close>.\<close>

definition last_byte :: "nat \<Rightarrow> int \<Rightarrow> int \<Rightarrow> int" where
  "last_byte n start stop = (if start = 0 \<and> stop = 0 then int n - 1 else min stop (int n - 1))"

text \<open>BITCOUNT over a byte range counts exactly the bits set in those bytes, an end past the value
  being clamped. Defects: the range \<open>0 0\<close> counts the whole value instead of its first byte, and a
  negative start, which Redis counts from the end, indexes out of range and panics.\<close>

theorem bitcount_counts_range:
  assumes "data s key = Some e" and "0 \<le> start" and "start \<le> stop"
  shows "CountBit key start stop s =
      Ret (int (card {p. 8 * nat start \<le> p \<and> p < 8 * nat (last_byte (length (e_value e)) start stop + 1) \<and>
                         bit_at (e_value e) p})) \<and>
    (\<forall>a b. a < 0 \<longrightarrow> a \<le> b \<longrightarrow> e_value e \<noteq> [] \<longrightarrow> CountBit key a b s = Panic)"
proof -
  let ?last = "last_byte (length (e_value e)) start stop" and ?len = "int (length (e_value e))"
  have neg: "CountBit key a b s = Panic" if "a < 0" "a \<le> b" "e_value e \<noteq> []" for a b
    using that assms(1) by (auto simp: CountBit_def Let_def count_loop.simps [of _ a])
  have "CountBit key start stop s =
      Ret (int (card {p. 8 * nat start \<le> p \<and> p < 8 * nat (?last + 1) \<and> bit_at (e_value e) p}))"
  proof (cases "?len < start")
    case True
    then have "\<not> 8 * nat start < 8 * nat (?last + 1)" using assms(2,3) by (auto simp: last_byte_def)
    then have none: "{p. 8 * nat start \<le> p \<and> p < 8 * nat (?last + 1) \<and> bit_at (e_value e) p} = {}" by auto
    with True assms(1) show ?thesis unfolding none by (simp add: CountBit_def Let_def)
  next
    case False
    then have "CountBit key start stop s = count_loop (e_value e) start ?last 0"
      using assms(1-3) by (auto simp: CountBit_def Let_def last_byte_def min_def)
    moreover have "?last < int (length (e_value e))" by (auto simp: last_byte_def)
    ultimately show ?thesis using count_loop_card [OF assms(2)] by simp
  qed
  with neg show ?thesis by blast
qed

theorem bitcount_counts_range_witness:
  "CountBit ''k'' 0 0 (Set ''k'' ''aa'' zero_time newStore) = Ret 6 \<and>
   CountBit ''k'' (- 1) (- 1) (Set ''k'' ''aa'' zero_time newStore) = Panic"
proof -
  let ?s = "Set ''k'' ''aa'' zero_time newStore"
  let ?e = "zero_entry\<lparr>e_value := ''aa'', e_expiresAt := zero_time, e_kind := ''string''\<rparr>"
  have e: "data ?s ''k'' = Some ?e" by (simp add: Set_def Let_def)
  have "CountBit ''k'' 0 0 ?s = Ret 6" by code_simp
  moreover have "CountBit ''k'' (- 1) (- 1) ?s = Panic"
    using bitcount_counts_range [OF e, of 0 0] by simp
  ultimately show ?thesis by blast
qed

text \<open>BITOP into a missing destination stores the bitwise AND or OR of the two values, the shorter
  one read as zero-extended, and replies with the longer length; two empty values delete the destination.
  Defect: an existing destination keeps its old value, although the reply says it was written.\<close>

theorem bitop_result:
  assumes "e_value (entry_at s k1) \<noteq> [] \<or> e_value (entry_at s k2) \<noteq> []"
  shows "fst (BitOpAnd d k1 k2 s) = max (length (e_value (entry_at s k1))) (length (e_value (entry_at s k2))) \<and>
    fst (BitOpOr d k1 k2 s) = max (length (e_value (entry_at s k1))) (length (e_value (entry_at s k2))) \<and>
    (data s d = None \<longrightarrow>
       (\<forall>i. bit_at (e_value (entry_at (snd (BitOpAnd d k1 k2 s)) d)) i =
              (bit_at (e_value (entry_at s k1)) i \<and> bit_at (e_value (entry_at s k2)) i)) \<and>
       (\<forall>i. bit_at (e_value (entry_at (snd (BitOpOr d k1 k2 s)) d)) i =
              (bit_at (e_value (entry_at s k1)) i \<or> bit_at (e_value (entry_at s k2)) i))) \<and>
    (data s d \<noteq> None \<longrightarrow> snd (BitOpAnd d k1 k2 s) = s \<and> snd (BitOpOr d k1 k2 s) = s)"
proof -
  let ?n = "max (length (e_value (entry_at s k1))) (length (e_value (entry_at s k2)))"
  have n: "?n \<noteq> 0" using assms by (auto simp: max_def)
  have at: "byteAt (map (\<lambda>i. byte_char (f i)) [0..<n]) j = (if j < n then f j else 0)" for f n j
    by (simp add: byteAt_def)
  show ?thesis
    using n by (auto simp: BitOpAnd_def BitOpOr_def bit_op_def Let_def entry_at_def bit_at_def at bit_simps)
      (auto simp: byteAt_def split: if_splits)
qed

theorem bitop_result_witness:
  "fst (BitOpOr ''d'' ''k'' ''x'' (Set ''k'' ''a'' zero_time newStore)) = 1"
  using bitop_result [of "Set ''k'' ''a'' zero_time newStore" "''k''" "''x''" "''d''"]
  by (simp add: Set_def Let_def entry_at_def newStore_def zero_entry_def markWatchersLocked_def)

end
