(* ===== verification/Lists.thy ===== *)
theory Lists
  imports Store
begin

text \<open>
  The list operations of \<^verbatim>\<open>src/app/store.go\<close> and the store's half of BLPOP: serving a call at once,
  registering a channel under every key, handing pushed values to waiting channels, and withdrawing a
  call that timed out or was cancelled. A send on a full channel (capacity one) blocks its sender while
  it holds the mutex; such a call is the value \<open>BlockedOn\<close>.
\<close>

datatype 'a sync = Returns 'a | BlockedOn chanid

section \<open>Operations\<close>

text \<open>\<open>ch <- p\<close> on a channel of capacity one.\<close>

definition chan_send :: "chanid \<Rightarrow> popped \<Rightarrow> store \<Rightarrow> store option" where
  "chan_send ch p s = (if chans s ch = [] then Some (s\<lparr>chans := (chans s)(ch := [p])\<rparr>) else None)"

text \<open>\<open><-ch\<close>: \<open>None\<close> when nothing is buffered.\<close>

definition chan_recv :: "chanid \<Rightarrow> store \<Rightarrow> (popped \<times> store) option" where
  "chan_recv ch s =
     (case chans s ch of [] \<Rightarrow> None | p # ps \<Rightarrow> Some (p, s\<lparr>chans := (chans s)(ch := ps)\<rparr>))"

text \<open>The loop of \<open>RPush\<close> over its values, with the local entry's list and the count of handed values.\<close>

fun rpush_loop :: "string \<Rightarrow> string list \<Rightarrow> string list \<Rightarrow> nat \<Rightarrow> store \<Rightarrow> (string list \<times> nat \<times> store) sync"
where
  "rpush_loop key [] lst handed s = Returns (lst, handed, s)"
| "rpush_loop key (v # vs) lst handed s =
     (case slice_at (waiters s) key of
        [] \<Rightarrow> rpush_loop key vs (lst @ [v]) handed s
      | ch # q \<Rightarrow>
          (case chan_send ch (key, v) (s\<lparr>waiters := (waiters s)(key \<mapsto> q)\<rparr>) of
             None \<Rightarrow> BlockedOn ch
           | Some s1 \<Rightarrow> rpush_loop key vs lst (handed + 1) s1))"

definition RPush :: "string \<Rightarrow> string list \<Rightarrow> store \<Rightarrow> (nat \<times> store) sync" where
  "RPush key vals s =
     (let e = entry_at s key
      in case rpush_loop key vals (e_list e) 0 s of
           BlockedOn ch \<Rightarrow> BlockedOn ch
         | Returns (lst, handed, s1) \<Rightarrow>
             Returns (length lst + handed, s1\<lparr>data := (data s1)(key \<mapsto> e\<lparr>e_list := lst\<rparr>)\<rparr>))"

text \<open>
  Index normalisation, clamping and validation, written out in both \<open>LRange\<close> and \<open>ZRange\<close>: the
  first and last index of the slice, \<open>None\<close> for the empty answer.
\<close>

definition norm_range :: "int \<Rightarrow> int \<Rightarrow> int \<Rightarrow> (int \<times> int) option" where
  "norm_range n start stop =
     (let start1 = (if start < 0 then start + n else start);
          stop1 = (if stop < 0 then stop + n else stop);
          start2 = (if start1 < 0 then 0 else start1);
          stop2 = (if n \<le> stop1 then n - 1 else stop1)
      in if stop2 < start2 \<or> n \<le> start2 then None else Some (start2, stop2))"

definition sub_slice :: "'a list \<Rightarrow> int \<Rightarrow> int \<Rightarrow> 'a list" where
  "sub_slice xs lo hi = take (nat (hi - lo)) (drop (nat lo) xs)"

definition LRange :: "string \<Rightarrow> int \<Rightarrow> int \<Rightarrow> store \<Rightarrow> string list" where
  "LRange key start stop s =
     (case data s key of
        None \<Rightarrow> []
      | Some e \<Rightarrow>
          (case norm_range (int (length (e_list e))) start stop of
             None \<Rightarrow> []
           | Some (lo, hi) \<Rightarrow> sub_slice (e_list e) lo (hi + 1)))"

definition LPush :: "string \<Rightarrow> string list \<Rightarrow> store \<Rightarrow> nat \<times> store" where
  "LPush key vals s =
     (let e = entry_at s key;
          lst = fold (\<lambda>v l. v # l) vals (e_list e);
          e1 = e\<lparr>e_list := lst, e_expiresAt := zero_time\<rparr>
      in (length lst, s\<lparr>data := (data s)(key \<mapsto> e1)\<rparr>))"

definition LLen :: "string \<Rightarrow> store \<Rightarrow> nat" where
  "LLen key s = (case data s key of None \<Rightarrow> 0 | Some e \<Rightarrow> length (e_list e))"

text \<open>
  \<open>LPop\<close> slices \<open>e.list[0:n]\<close> and \<open>e.list[n:]\<close>; the second panics when \<open>n\<close> exceeds the length.
\<close>

definition LPop :: "string \<Rightarrow> int \<Rightarrow> store \<Rightarrow> ((string list \<times> bool) \<times> store) go" where
  "LPop key n s =
     (case data s key of
        None \<Rightarrow> Ret (([], False), s)
      | Some e \<Rightarrow>
          if n < 0 \<or> int (length (e_list e)) < n then Panic
          else Ret ((take (nat n) (e_list e), True),
                    s\<lparr>data := (data s)(key \<mapsto> e\<lparr>e_list := drop (nat n) (e_list e)\<rparr>)\<rparr>))"

text \<open>The scan of \<open>BLpop\<close> over its keys for one that holds an element.\<close>

fun blpop_scan :: "string list \<Rightarrow> store \<Rightarrow> (popped \<times> store) option" where
  "blpop_scan [] s = None"
| "blpop_scan (k # ks) s =
     (case e_list (entry_at s k) of
        [] \<Rightarrow> blpop_scan ks s
      | v # vs \<Rightarrow>
          Some ((k, v),
            if vs = [] then s\<lparr>data := (data s)(k := None)\<rparr>
            else s\<lparr>data := (data s)(k \<mapsto> (entry_at s k)\<lparr>e_list := vs\<rparr>)\<rparr>))"

datatype blpop_entry = Served popped store | Parked chanid store

text \<open>The bodies of the two loops over the keys of a call: register its channel, and take it out again.\<close>

definition register_waiter :: "chanid \<Rightarrow> string \<Rightarrow> store \<Rightarrow> store" where
  "register_waiter ch key s = s\<lparr>waiters := (waiters s)(key \<mapsto> slice_at (waiters s) key @ [ch])\<rparr>"

definition BLpop_enter :: "string list \<Rightarrow> store \<Rightarrow> blpop_entry" where
  "BLpop_enter keys s =
     (case blpop_scan keys s of
        Some (p, s1) \<Rightarrow> Served p s1
      | None \<Rightarrow>
          (let ch = next_chan s;
               s1 = s\<lparr>next_chan := ch + 1, chans := (chans s)(ch := [])\<rparr>
           in Parked ch (fold (register_waiter ch) keys s1)))"

definition unregister_waiter :: "chanid \<Rightarrow> string \<Rightarrow> bool \<times> store \<Rightarrow> bool \<times> store" where
  "unregister_waiter ch key r =
     (case r of (found, s) \<Rightarrow>
        if ch \<in> set (slice_at (waiters s) key)
        then (True, s\<lparr>waiters := (waiters s)(key \<mapsto> remove1 ch (slice_at (waiters s) key))\<rparr>)
        else (found, s))"

definition removeWaiter :: "string list \<Rightarrow> chanid \<Rightarrow> store \<Rightarrow> bool \<times> store" where
  "removeWaiter keys ch s = fold (unregister_waiter ch) keys (False, s)"

definition cancelWait :: "string list \<Rightarrow> chanid \<Rightarrow> store \<Rightarrow> (popped option \<times> store) sync" where
  "cancelWait keys ch s =
     (case removeWaiter keys ch s of (stillWaiting, s1) \<Rightarrow>
        if stillWaiting then Returns (None, s1)
        else case chan_recv ch s1 of None \<Rightarrow> BlockedOn ch | Some (p, s2) \<Rightarrow> Returns (Some p, s2))"

section \<open>Ranges\<close>

lemma norm_range_bounds:
  "norm_range n start stop = Some (lo, hi) \<Longrightarrow> 0 \<le> n \<Longrightarrow> 0 \<le> lo \<and> lo \<le> hi \<and> hi < n"
  by (auto simp: norm_range_def Let_def split: if_splits)

text \<open>
  The slice an index pair denotes, said without clamping: the elements whose index lies between the
  two normalised bounds.
\<close>

definition in_range :: "int \<Rightarrow> int \<Rightarrow> int \<Rightarrow> int \<Rightarrow> bool" where
  "in_range n start stop i \<longleftrightarrow>
     (if start < 0 then start + n else start) \<le> i \<and> i \<le> (if stop < 0 then stop + n else stop)"

definition range_spec :: "'a list \<Rightarrow> int \<Rightarrow> int \<Rightarrow> 'a list" where
  "range_spec xs start stop =
     map ((!) xs) (filter (\<lambda>i. in_range (int (length xs)) start stop (int i)) [0..<length xs])"

lemma sub_slice_nth:
  assumes "0 \<le> lo" and "lo \<le> hi" and "hi \<le> int (length xs)"
  shows "sub_slice xs lo hi = map ((!) xs) [nat lo..<nat hi]"
proof -
  obtain l h where l: "lo = int l" and h: "hi = int h"
    using assms by (metis nonneg_int_cases order.trans)
  with assms have "l \<le> h" and "h \<le> length xs" by simp_all
  then have "take (h - l) (drop l xs) = map ((!) xs) [l..<h]"
    by (intro nth_equalityI) auto
  moreover have "nat (int h - int l) = h - l" by arith
  ultimately show ?thesis using l h by (simp add: sub_slice_def)
qed

lemma filter_upt_interval:
  "filter (\<lambda>i. a \<le> i \<and> i < b) [0..<n] = [a..<min b n]"
proof (induction n)
  case (Suc n)
  show ?case
  proof (cases "n < b")
    case True
    then have "min b (Suc n) = Suc n" and "min b n = n" by simp_all
    with Suc True show ?thesis by simp
  next
    case False
    then have "min b (Suc n) = b" and "min b n = b" by simp_all
    with Suc False show ?thesis by simp
  qed
qed simp

lemma norm_range_spec:
  "(case norm_range (int (length xs)) start stop of
      None \<Rightarrow> [] | Some (lo, hi) \<Rightarrow> sub_slice xs lo (hi + 1)) = range_spec xs start stop"
proof -
  define n where "n = int (length xs)"
  define a where "a = (if start < 0 then start + n else start)"
  define b where "b = (if stop < 0 then stop + n else stop)"
  have "range_spec xs start stop =
      map ((!) xs) (filter (\<lambda>i. nat a \<le> i \<and> i < nat (b + 1)) [0..<length xs])"
    unfolding range_spec_def in_range_def n_def [symmetric] a_def [symmetric] b_def [symmetric]
    by (intro arg_cong [where f = "map ((!) xs)"] filter_cong) auto
  then have spec: "range_spec xs start stop = map ((!) xs) [nat a..<min (nat (b + 1)) (length xs)]"
    by (simp add: filter_upt_interval)
  show ?thesis
  proof (cases "norm_range n start stop")
    case None
    then have "min (nat (b + 1)) (length xs) \<le> nat a"
      by (auto simp: norm_range_def Let_def n_def a_def b_def split: if_splits)
    then show ?thesis using None spec by (simp add: n_def)
  next
    case (Some p)
    obtain lo hi where p: "norm_range n start stop = Some (lo, hi)" using Some by (cases p) auto
    then have "lo = max 0 a" and "hi = min b (n - 1)"
      by (auto simp: norm_range_def Let_def a_def b_def split: if_splits)
    moreover have "0 \<le> lo \<and> lo \<le> hi \<and> hi < n"
      using norm_range_bounds [OF p] by (simp add: n_def)
    ultimately have "sub_slice xs lo (hi + 1) = map ((!) xs) [nat lo..<nat (hi + 1)]"
      and "nat lo = nat a" and "nat (hi + 1) = min (nat (b + 1)) (length xs)"
      by (auto intro!: sub_slice_nth simp: n_def)
    then show ?thesis using p spec by (simp add: n_def)
  qed
qed

lemma LRange_range_spec: "LRange k start stop s = range_spec (e_list (entry_at s k)) start stop"
proof (cases "data s k")
  case None
  then show ?thesis by (simp add: LRange_def range_spec_def entry_at_def zero_entry_def)
next
  case (Some e)
  then show ?thesis using norm_range_spec [of "e_list e" start stop]
    by (simp add: LRange_def entry_at_def)
qed

section \<open>Pushing and popping\<close>

lemma fold_Cons_rev: "fold (\<lambda>v l. v # l) vs l = rev vs @ l"
  by (induction vs arbitrary: l) simp_all

lemma e_list_entry_at: "data s k = Some e \<Longrightarrow> e_list (entry_at s k) = e_list e"
  by (simp add: entry_at_def)

lemma entry_at_None [simp]: "data s k = None \<Longrightarrow> e_list (entry_at s k) = []"
  by (simp add: entry_at_def zero_entry_def)

lemma LPush_list:
  assumes "LPush key vals s = (n, s')"
  shows "e_list (entry_at s' key) = rev vals @ e_list (entry_at s key)"
    and "n = length vals + length (e_list (entry_at s key))"
    and "k \<noteq> key \<Longrightarrow> data s' k = data s k" and "waiters s' = waiters s" and "chans s' = chans s"
  using assms by (auto simp: LPush_def Let_def fold_Cons_rev entry_at_def)

text \<open>
  The loop of \<open>RPush\<close>: the first values go, in order, to the waiting channels, one each; the rest is
  appended. It returns whenever the channels it reaches are empty and distinct.
\<close>

lemma rpush_loop_spec:
  assumes "slice_at (waiters s) key = q" and "distinct q" and "\<forall>ch \<in> set q. chans s ch = []"
  shows "rpush_loop key vals lst handed s = Returns
     (lst @ drop (length q) vals, handed + min (length q) (length vals),
      s\<lparr>waiters := (if q = [] \<or> vals = [] then waiters s
                    else (waiters s)(key \<mapsto> drop (length vals) q)),
        chans := (\<lambda>c. case map_of (zip q vals) c of None \<Rightarrow> chans s c | Some v \<Rightarrow> [(key, v)])\<rparr>)"
  using assms
proof (induction vals arbitrary: s q lst handed)
  case Nil
  then show ?case by simp
next
  case (Cons v vals)
  show ?case
  proof (cases q)
    case Nil
    with Cons.prems have "slice_at (waiters s) key = []" by simp
    with Nil show ?thesis
      using Cons.IH [of s "[]" "lst @ [v]" handed] by (simp add: drop_Cons')
  next
    case (Cons ch q1)
    let ?s1 = "s\<lparr>waiters := (waiters s)(key \<mapsto> q1), chans := (chans s)(ch := [(key, v)])\<rparr>"
    have send: "chan_send ch (key, v) (s\<lparr>waiters := (waiters s)(key \<mapsto> q1)\<rparr>) = Some ?s1"
      using Cons Cons.prems(3) by (simp add: chan_send_def)
    have ih: "rpush_loop key vals lst (handed + 1) ?s1 = Returns
       (lst @ drop (length q1) vals, handed + 1 + min (length q1) (length vals),
        ?s1\<lparr>waiters := (if q1 = [] \<or> vals = [] then waiters ?s1
                        else (waiters ?s1)(key \<mapsto> drop (length vals) q1)),
             chans := (\<lambda>c. case map_of (zip q1 vals) c of
                              None \<Rightarrow> chans ?s1 c | Some w \<Rightarrow> [(key, w)])\<rparr>)"
      using Cons Cons.prems by (intro Cons.IH) auto
    have chs: "(\<lambda>c. case map_of (zip q1 vals) c of None \<Rightarrow> chans ?s1 c | Some w \<Rightarrow> [(key, w)]) =
        (\<lambda>c. case map_of (zip q (v # vals)) c of None \<Rightarrow> chans s c | Some w \<Rightarrow> [(key, w)])"
    proof
      fix c
      have "map_of (zip q1 vals) ch = None"
        using Cons Cons.prems(2) by (auto simp: map_of_eq_None_iff dest: set_zip_leftD)
      then show "(case map_of (zip q1 vals) c of None \<Rightarrow> chans ?s1 c | Some w \<Rightarrow> [(key, w)]) =
          (case map_of (zip q (v # vals)) c of None \<Rightarrow> chans s c | Some w \<Rightarrow> [(key, w)])"
        using Cons by (auto split: option.splits)
    qed
    have qs: "slice_at (waiters s) key = ch # q1" using Cons Cons.prems(1) by simp
    have "rpush_loop key (v # vals) lst handed s = rpush_loop key vals lst (handed + 1) ?s1"
      by (simp add: qs send)
    also note ih
    also have "(if q1 = [] \<or> vals = [] then waiters ?s1
        else (waiters ?s1)(key \<mapsto> drop (length vals) q1)) = (waiters s)(key \<mapsto> drop (length vals) q1)"
      by auto
    finally show ?thesis unfolding chs using Cons by simp
  qed
qed

text \<open>What a push leaves behind when the channels waiting under its key are empty and distinct.\<close>

definition deliver :: "string \<Rightarrow> chanid list \<Rightarrow> string list \<Rightarrow> (chanid \<Rightarrow> popped list) \<Rightarrow> chanid \<Rightarrow> popped list"
where
  "deliver key q vals cs =
     (\<lambda>c. case map_of (zip q vals) c of None \<Rightarrow> cs c | Some v \<Rightarrow> [(key, v)])"

lemma deliver_simps [simp]:
  "deliver key q [] cs = cs"
  "deliver key [] vals cs = cs"
  by (simp_all add: deliver_def)

lemma deliver_Cons:
  "ch \<notin> set q \<Longrightarrow> deliver key (ch # q) (v # vals) cs = deliver key q vals (cs(ch := [(key, v)]))"
proof
  fix c
  assume "ch \<notin> set q"
  then have "map_of (zip q vals) ch = None"
    by (auto simp: map_of_eq_None_iff dest: set_zip_leftD)
  then show "deliver key (ch # q) (v # vals) cs c = deliver key q vals (cs(ch := [(key, v)])) c"
    by (auto simp: deliver_def split: option.splits)
qed

lemma dom_map_of_zip_take: "dom (map_of (zip xs ys)) = set (take (length ys) xs)"
  by (induction xs arbitrary: ys) (auto simp: zip_Cons1 take_Cons' split: list.splits)

lemma deliver_outside: "ch \<notin> set (take (length vals) q) \<Longrightarrow> deliver key q vals cs ch = cs ch"
  using dom_map_of_zip_take [of q vals] by (auto simp: deliver_def split: option.splits)

lemma deliver_inside: "ch \<in> set (take (length vals) q) \<Longrightarrow> \<exists>v. deliver key q vals cs ch = [(key, v)]"
  using dom_map_of_zip_take [of q vals] by (auto simp: deliver_def split: option.splits)

lemma RPush_spec:
  assumes "slice_at (waiters s) key = q" and "distinct q" and "\<forall>ch \<in> set q. chans s ch = []"
  shows "RPush key vals s = Returns
     (length (e_list (entry_at s key)) + length vals,
      s\<lparr>data := (data s)(key \<mapsto> (entry_at s key)\<lparr>e_list := e_list (entry_at s key) @ drop (length q) vals\<rparr>),
        waiters := (if q = [] \<or> vals = [] then waiters s
                    else (waiters s)(key \<mapsto> drop (length vals) q)),
        chans := deliver key q vals (chans s)\<rparr>)"
  unfolding RPush_def Let_def rpush_loop_spec [OF assms] deliver_def by simp

section \<open>Properties\<close>

text \<open>LRANGE returns exactly the elements whose index lies between its two bounds, both included,
  where a negative bound counts from the end; out-of-range bounds are clamped, never an error.\<close>

theorem lrange_selects_indices:
  "LRange k start stop s = range_spec (e_list (entry_at s k)) start stop"
  by (rule LRange_range_spec)

text \<open>Pushes when no client waits: RPUSH appends its values in order, LPUSH puts each value in
  front of the previous one, both reply with the new length and touch no other key; LRANGE over the
  whole list then shows the old elements with the new ones at the right end.\<close>

theorem push_then_range:
  assumes "slice_at (waiters s) k = []"
  shows "(\<exists>s'. RPush k vs s = Returns (length (e_list (entry_at s k)) + length vs, s') \<and>
           LRange k 0 (-1) s' = e_list (entry_at s k) @ vs \<and> (\<forall>j. j \<noteq> k \<longrightarrow> data s' j = data s j)) \<and>
    (\<exists>s'. LPush k vs s = (length vs + length (e_list (entry_at s k)), s') \<and>
           LRange k 0 (-1) s' = rev vs @ e_list (entry_at s k) \<and> (\<forall>j. j \<noteq> k \<longrightarrow> data s' j = data s j))"
proof -
  have whole: "range_spec xs 0 (-1) = xs" for xs :: "string list"
  proof -
    have "filter (\<lambda>i. in_range (int (length xs)) 0 (-1) (int i)) [0..<length xs] = [0..<length xs]"
      by (rule filter_True) (auto simp: in_range_def)
    then show ?thesis by (simp add: range_spec_def map_nth)
  qed
  show ?thesis
    using RPush_spec [OF assms, of vs] by (simp add: LRange_range_spec whole LPush_def Let_def fold_Cons_rev entry_at_def)
qed

theorem push_then_range_witness:
  "\<exists>s'. LPush ''l'' [''a'', ''b''] newStore = (2, s') \<and> LRange ''l'' 0 (-1) s' = [''b'', ''a'']"
  using push_then_range [of newStore "''l''" "[''a'', ''b'']"]
  by (auto simp: newStore_def entry_at_def zero_entry_def)

text \<open>LPOP with a count that the list can serve returns its first elements in order and keeps the
  rest; a larger count panics. Defect: a list popped empty stays in the keyspace, so the next LPOP of
  that key panics, which ends the process.\<close>

theorem lpop_result:
  assumes "data s k = Some e" and "0 \<le> n"
  shows "(n \<le> int (length (e_list e)) \<longrightarrow>
      (\<exists>s'. LPop k n s = Ret ((take (nat n) (e_list e), True), s') \<and>
            e_list (entry_at s' k) = drop (nat n) (e_list e) \<and> data s' k \<noteq> None)) \<and>
    (int (length (e_list e)) < n \<longrightarrow> LPop k n s = Panic) \<and>
    (\<forall>r s'. e_list e = [v] \<longrightarrow> LPop k 1 s = Ret (r, s') \<longrightarrow> LPop k 1 s' = Panic)"
  using assms by (auto simp: LPop_def entry_at_def)

theorem lpop_result_witness:
  "\<exists>r s'. LPop ''l'' 1 (snd (LPush ''l'' [''a''] newStore)) = Ret (r, s') \<and> LPop ''l'' 1 s' = Panic"
proof -
  let ?e = "zero_entry\<lparr>e_list := [''a''], e_expiresAt := zero_time\<rparr>"
  have "data (snd (LPush ''l'' [''a''] newStore)) ''l'' = Some ?e"
    by (simp add: LPush_def Let_def newStore_def entry_at_def zero_entry_def)
  from lpop_result [OF this, of 1 "''a''"] show ?thesis by fastforce
qed

end
