(* ===== verification/Zsets.thy ===== *)
theory Zsets
  imports Lists "HOL-Library.Multiset"
begin

text \<open>
  Sorted sets of \<^verbatim>\<open>src/app/store.go\<close>: a map of scores and a slice sorted by \<open>compare\<close>, kept in
  step by ZADD and ZREM and searched by \<open>sort.Search\<close>. Scores are \<open>float64\<close> bit patterns with the
  comparison of IEEE-754, NaN included; printing a score is the parameter \<open>format_float\<close>.
\<close>

section \<open>Operations\<close>

definition compare :: "ZsetEntry \<Rightarrow> ZsetEntry \<Rightarrow> bool" where
  "compare a b =
     (if \<not> f64_eq (score a) (score b) then f64_lt (score a) (score b) else name a < name b)"

text \<open>The index at which every method looks for an entry.\<close>

definition sortZset :: "ZsetEntry list \<Rightarrow> ZsetEntry \<Rightarrow> nat" where
  "sortZset es newEntry = Search (length es) (\<lambda>i. \<not> compare (es ! i) newEntry)"

definition updateMemberScore :: "string \<Rightarrow> float64 \<Rightarrow> Zset \<Rightarrow> Zset go" where
  "updateMemberScore member newScore z =
     (let oldScore = (case scores z member of None \<Rightarrow> f64_zero | Some x \<Rightarrow> x)
      in if f64_eq oldScore newScore then Ret z
         else
           (let i = sortZset (zsorted z) \<lparr>name = member, score = oldScore\<rparr>
            in go_bind (slices_Delete (zsorted z) i (i + 1)) (\<lambda>es.
                 let newEntry = \<lparr>name = member, score = newScore\<rparr>;
                     j = sortZset es newEntry
                 in go_bind (slices_Insert es j newEntry) (\<lambda>es'.
                      Ret \<lparr>scores = (scores z)(member \<mapsto> newScore), zsorted = es'\<rparr>))))"

definition put_zset :: "string \<Rightarrow> entry \<Rightarrow> Zset \<Rightarrow> store \<Rightarrow> store" where
  "put_zset key e z s = s\<lparr>data := (data s)(key \<mapsto> e\<lparr>e_zset := Some z\<rparr>)\<rparr>"

definition ZAdd :: "string \<Rightarrow> float64 \<Rightarrow> string \<Rightarrow> store \<Rightarrow> ((store_error + int) \<times> store) go" where
  "ZAdd key sc member s =
     (let ok = data s key \<noteq> None
      in if ok \<and> e_kind (entry_at s key) \<noteq> ''zset'' then Ret (Inl ErrWrongType, s)
         else
           (let s1 = markWatchersLocked key s;
                dt = (if ok then entry_at s key
                      else zero_entry\<lparr>e_kind := ''zset'',
                             e_zset := Some \<lparr>scores = Map.empty, zsorted = []\<rparr>\<rparr>);
                zSetEntry = \<lparr>name = member, score = sc\<rparr>
            in case e_zset dt of
                 None \<Rightarrow> Panic
               | Some z \<Rightarrow>
                   if scores z member \<noteq> None
                   then go_bind (updateMemberScore member sc z) (\<lambda>z'.
                          Ret (Inr 0, put_zset key dt z' s1))
                   else go_bind (slices_Insert (zsorted z) (sortZset (zsorted z) zSetEntry) zSetEntry) (\<lambda>es.
                          Ret (Inr 1, put_zset key dt
                            \<lparr>scores = (scores z)(member \<mapsto> sc), zsorted = es\<rparr> s1))))"

text \<open>The sorted set under a key; \<open>Panic\<close> when the entry has none (a nil pointer).\<close>

definition ZRank :: "string \<Rightarrow> string \<Rightarrow> store \<Rightarrow> int go" where
  "ZRank key member s =
     (case data s key of
        None \<Rightarrow> Ret (- 1)
      | Some dt \<Rightarrow>
          (case e_zset dt of
             None \<Rightarrow> Panic
           | Some z \<Rightarrow>
               (case scores z member of
                  None \<Rightarrow> Ret (- 1)
                | Some sc \<Rightarrow> Ret (int (sortZset (zsorted z) \<lparr>name = member, score = sc\<rparr>)))))"

definition ZRange :: "string \<Rightarrow> int \<Rightarrow> int \<Rightarrow> store \<Rightarrow> string list go" where
  "ZRange key start stop s =
     (case data s key of
        None \<Rightarrow> Ret []
      | Some dt \<Rightarrow>
          (case e_zset dt of
             None \<Rightarrow> Panic
           | Some z \<Rightarrow>
               (case norm_range (int (length (zsorted z))) start stop of
                  None \<Rightarrow> Ret []
                | Some (lo, hi) \<Rightarrow> Ret (map name (sub_slice (zsorted z) lo (hi + 1))))))"

definition ZCard :: "string \<Rightarrow> store \<Rightarrow> nat go" where
  "ZCard key s =
     (case data s key of
        None \<Rightarrow> Ret 0
      | Some dt \<Rightarrow> (case e_zset dt of None \<Rightarrow> Panic | Some z \<Rightarrow> Ret (length (zsorted z))))"

definition ZScore :: "(float64 \<Rightarrow> string) \<Rightarrow> string \<Rightarrow> string \<Rightarrow> store \<Rightarrow> string go" where
  "ZScore format_float key member s =
     (case data s key of
        None \<Rightarrow> Ret []
      | Some dt \<Rightarrow>
          (case e_zset dt of
             None \<Rightarrow> Panic
           | Some z \<Rightarrow>
               Ret (case scores z member of None \<Rightarrow> [] | Some sc \<Rightarrow> format_float sc)))"

text \<open>The loop of \<open>ZRem\<close> that looks for the member; it leaves index 0 when there is none.\<close>

fun find_name :: "string \<Rightarrow> nat \<Rightarrow> ZsetEntry list \<Rightarrow> nat" where
  "find_name member j [] = 0"
| "find_name member j (e # es) = (if name e = member then j else find_name member (j + 1) es)"

definition ZRem :: "string \<Rightarrow> string \<Rightarrow> store \<Rightarrow> (int \<times> store) go" where
  "ZRem key member s =
     (case data s key of
        None \<Rightarrow> Ret (0, s)
      | Some dt \<Rightarrow>
          (case e_zset dt of
             None \<Rightarrow> Panic
           | Some z \<Rightarrow>
               (case scores z member of
                  None \<Rightarrow> Ret (0, s)
                | Some sc \<Rightarrow>
                    (let i = find_name member 0 (zsorted z)
                     in go_bind (slices_Delete (zsorted z) i (i + 1)) (\<lambda>es.
                          Ret (1, put_zset key dt
                            \<lparr>scores = (scores z)(member := None), zsorted = es\<rparr> s))))))"

section \<open>The order of a sorted set\<close>

definition real_score :: "ZsetEntry \<Rightarrow> bool" where "real_score e \<longleftrightarrow> \<not> f64_isNaN (score e)"

interpretation zs: key_total compare real_score name
proof unfold_locales
  show "\<not> compare x x" if "real_score x" for x
    using that by (simp add: compare_def f64_eq_def real_score_def)
  show "compare x z" if "real_score x" "real_score y" "real_score z" "compare x y" "compare y z" for x y z
    using that by (auto simp: compare_def f64_eq_def f64_lt_def real_score_def split: if_splits)
  show "compare x y \<or> compare y x" if "real_score x" "real_score y" "name x \<noteq> name y" for x y
    using that by (auto simp: compare_def f64_eq_def f64_lt_def real_score_def)
qed

definition score_pairs :: "ZsetEntry list \<Rightarrow> (string \<times> float64) list" where
  "score_pairs es = map (\<lambda>e. (name e, score e)) es"

text \<open>
  The two halves of a sorted set agree: the slice is sorted by \<open>compare\<close>, has every member once and
  no NaN score, and the map holds exactly its scores.
\<close>

definition zset_inv :: "Zset \<Rightarrow> bool" where
  "zset_inv z \<longleftrightarrow>
     sorted_wrt compare (zsorted z) \<and> list_all real_score (zsorted z) \<and>
     distinct (map name (zsorted z)) \<and> scores z = map_of (score_pairs (zsorted z))"

lemma dom_score_pairs [simp]: "dom (map_of (score_pairs es)) = name ` set es"
  by (simp add: score_pairs_def dom_map_of_conv_image_fst image_image)

lemma ZsetEntry_eq: "\<lparr>name = m, score = x\<rparr> = e \<longleftrightarrow> name e = m \<and> score e = x"
  by (cases e) auto

lemma ZsetEntry_eta [simp]: "\<lparr>name = name e, score = score e\<rparr> = (e :: ZsetEntry)"
  by (cases e) simp

lemma map_of_score_pairs:
  "distinct (map name es) \<Longrightarrow> map_of (score_pairs es) m = Some x \<longleftrightarrow> \<lparr>name = m, score = x\<rparr> \<in> set es"
  by (induction es) (auto simp: score_pairs_def image_iff ZsetEntry_eq)

lemma zset_inv_mem:
  "zset_inv z \<Longrightarrow> scores z m = Some x \<longleftrightarrow> \<lparr>name = m, score = x\<rparr> \<in> set (zsorted z)"
  by (simp add: zset_inv_def map_of_score_pairs)

lemma zset_invI:
  assumes "sorted_wrt compare (zsorted z)" and "list_all real_score (zsorted z)"
    and "distinct (map name (zsorted z))"
    and "\<And>m x. scores z m = Some x \<longleftrightarrow> \<lparr>name = m, score = x\<rparr> \<in> set (zsorted z)"
  shows "zset_inv z"
proof -
  have "scores z m = map_of (score_pairs (zsorted z)) m" for m
    using assms(4) [of m] map_of_score_pairs [OF assms(3), of m] by (metis not_None_eq)
  with assms(1-3) show ?thesis by (auto simp: zset_inv_def)
qed

lemma zset_invD:
  assumes "zset_inv z"
  shows "sorted_wrt compare (zsorted z)" and "list_all real_score (zsorted z)"
    and "distinct (map name (zsorted z))" and "dom (scores z) = name ` set (zsorted z)"
  using assms by (simp_all add: zset_inv_def)

lemma zset_insert_ok:
  assumes inv: "zset_inv z" and new: "scores z m = None" and sc: "\<not> f64_isNaN sc"
  defines "b \<equiv> \<lparr>name = m, score = sc\<rparr>"
  obtains es where "slices_Insert (zsorted z) (sortZset (zsorted z) b) b = Ret es"
    and "zset_inv \<lparr>scores = (scores z)(m \<mapsto> sc), zsorted = es\<rparr>"
proof -
  note D = zset_invD [OF inv]
  let ?t = "takeWhile (\<lambda>x. compare x b) (zsorted z)" and ?d = "dropWhile (\<lambda>x. compare x b) (zsorted z)"
  have td: "?t @ ?d = zsorted z" by simp
  have ok: "real_score b" using sc by (simp add: b_def real_score_def)
  have fresh: "m \<notin> name ` set (zsorted z)" using D(4) new by blast
  have ms: "mset (?t @ b # ?d) = add_mset b (mset (zsorted z))"
    using arg_cong [OF td, of mset] by (simp del: takeWhile_dropWhile_id)
  then have "set (?t @ b # ?d) = insert b (set (zsorted z))"
    by (metis set_mset_add_mset_insert set_mset_mset)
  moreover from ms have "mset (map name (?t @ b # ?d)) = mset (m # map name (zsorted z))"
    by (metis b_def ZsetEntry.select_convs(1) image_mset_add_mset mset.simps(2) mset_map)
  then have "distinct (map name (?t @ b # ?d))"
    using D(3) fresh by (metis distinct.simps(2) image_set mset_eq_imp_distinct_iff)
  moreover have "sorted_wrt compare (?t @ b # ?d)"
    using zs.sorted_insert [OF D(1,2) ok] fresh by (simp add: b_def)
  ultimately have "zset_inv \<lparr>scores = (scores z)(m \<mapsto> sc), zsorted = ?t @ b # ?d\<rparr>"
    using ok D(2) fresh zset_inv_mem [OF inv]
    by (intro zset_invI) (auto simp: list_all_iff b_def ZsetEntry_eq image_iff)
  moreover have "slices_Insert (zsorted z) (sortZset (zsorted z) b) b = Ret (?t @ b # ?d)"
    unfolding sortZset_def by (rule zs.insert_at_search [OF D(1,2) ok])
  ultimately show ?thesis by (rule that [rotated])
qed

lemma zset_delete_ok:
  assumes inv: "zset_inv z" and split: "zsorted z = pre @ b # post"
  shows "slices_Delete (zsorted z) (length pre) (length pre + 1) = Ret (pre @ post)"
    and "zset_inv \<lparr>scores = (scores z)(name b := None), zsorted = pre @ post\<rparr>"
proof -
  note D = zset_invD [OF inv, unfolded split]
  show "slices_Delete (zsorted z) (length pre) (length pre + 1) = Ret (pre @ post)"
    by (simp add: slices_Delete_def split)
  show "zset_inv \<lparr>scores = (scores z)(name b := None), zsorted = pre @ post\<rparr>"
    using D zset_inv_mem [OF inv]
    by (intro zset_invI) (auto simp: sorted_wrt_append split ZsetEntry_eq image_iff)
qed

lemma zset_member_split:
  assumes inv: "zset_inv z" and x: "scores z m = Some x"
  obtains pre post where "zsorted z = pre @ \<lparr>name = m, score = x\<rparr> # post"
    and "sortZset (zsorted z) \<lparr>name = m, score = x\<rparr> = length pre"
    and "m \<notin> name ` set pre"
proof -
  from zset_inv_mem [OF inv] x have "\<lparr>name = m, score = x\<rparr> \<in> set (zsorted z)" by simp
  then obtain pre post where split: "zsorted z = pre @ \<lparr>name = m, score = x\<rparr> # post"
    by (meson split_list)
  moreover have "sortZset (zsorted z) \<lparr>name = m, score = x\<rparr> = length pre"
    unfolding sortZset_def split
    by (rule zs.search_member) (use zset_invD [OF inv] split in simp_all)
  moreover have "m \<notin> name ` set pre" using zset_invD(3) [OF inv] by (auto simp: split)
  ultimately show ?thesis by (rule that)
qed

lemma updateMemberScore_ok:
  assumes inv: "zset_inv z" and x: "scores z m = Some x" and sc: "\<not> f64_isNaN sc"
  obtains z' where "updateMemberScore m sc z = Ret z'" and "zset_inv z'"
    and "scores z' = (scores z)(m \<mapsto> if f64_eq x sc then x else sc)"
proof (cases "f64_eq x sc")
  case True
  then show ?thesis using inv x by (intro that [of z]) (auto simp: updateMemberScore_def)
next
  case False
  from zset_member_split [OF inv x] obtain pre post
    where split: "zsorted z = pre @ \<lparr>name = m, score = x\<rparr> # post"
      and i: "sortZset (zsorted z) \<lparr>name = m, score = x\<rparr> = length pre" by metis
  let ?z = "\<lparr>scores = (scores z)(m := None), zsorted = pre @ post\<rparr>"
  have "zset_inv ?z" using zset_delete_ok(2) [OF inv split] by simp
  from zset_insert_ok [OF this _ sc, of m] obtain es
    where "slices_Insert (pre @ post) (sortZset (pre @ post) \<lparr>name = m, score = sc\<rparr>) \<lparr>name = m, score = sc\<rparr> = Ret es"
      and "zset_inv \<lparr>scores = (scores z)(m \<mapsto> sc), zsorted = es\<rparr>" by auto
  with False x i zset_delete_ok(1) [OF inv split] show ?thesis
    by (intro that [of "\<lparr>scores = (scores z)(m \<mapsto> sc), zsorted = es\<rparr>"])
      (auto simp: updateMemberScore_def Let_def)
qed

text \<open>A store whose sorted sets are well formed, and the sorted set a key stands for.\<close>

definition wf_zset_entry :: "entry \<Rightarrow> bool" where
  "wf_zset_entry e \<longleftrightarrow>
     (e_kind e = ''zset'' \<longrightarrow> e_zset e \<noteq> None) \<and> (\<forall>z. e_zset e = Some z \<longrightarrow> zset_inv z)"

definition wf_zsets :: "store \<Rightarrow> bool" where
  "wf_zsets s \<longleftrightarrow> (\<forall>k e. data s k = Some e \<longrightarrow> wf_zset_entry e)"

definition empty_zset :: Zset where "empty_zset = \<lparr>scores = Map.empty, zsorted = []\<rparr>"

definition zset_at :: "store \<Rightarrow> string \<Rightarrow> Zset" where
  "zset_at s k = (case e_zset (entry_at s k) of None \<Rightarrow> empty_zset | Some z \<Rightarrow> z)"

lemma zset_inv_empty [simp]: "zset_inv empty_zset"
  by (simp add: zset_inv_def empty_zset_def score_pairs_def)

lemma zset_inv_at: "wf_zsets s \<Longrightarrow> zset_inv (zset_at s k)"
  by (auto simp: zset_at_def entry_at_def zero_entry_def wf_zsets_def wf_zset_entry_def
      split: option.splits)

lemma data_markWatchersLocked [simp]: "data (markWatchersLocked k s) = data s"
  by (simp add: markWatchersLocked_def)

lemma put_zset_wf:
  "wf_zsets s \<Longrightarrow> zset_inv z \<Longrightarrow> wf_zsets (put_zset key e z s)"
  by (auto simp: wf_zsets_def put_zset_def wf_zset_entry_def split: if_splits)

lemma zset_at_put [simp]:
  "zset_at (put_zset key e z s) k = (if k = key then z else zset_at s k)"
  by (simp add: zset_at_def put_zset_def entry_at_def)

lemma put_zset_frame [simp]:
  "k \<noteq> key \<Longrightarrow> data (put_zset key e z s) k = data s k"
  "txs (put_zset key e z s) = txs s"
  "data (put_zset key e z s) key = Some (e\<lparr>e_zset := Some z\<rparr>)"
  by (simp_all add: put_zset_def)

lemma wf_zsets_mark [simp]: "wf_zsets (markWatchersLocked k s) = wf_zsets s"
  by (simp add: wf_zsets_def)

text \<open>The two successful branches of ZADD.\<close>

lemma ZAdd_ok:
  assumes wf: "wf_zsets s" and kind: "\<And>e. data s key = Some e \<Longrightarrow> e_kind e = ''zset''"
    and sc: "\<not> f64_isNaN sc"
  shows "\<exists>s'. ZAdd key sc m s = Ret (Inr (if scores (zset_at s key) m = None then 1 else 0), s') \<and>
    wf_zsets s' \<and> (\<forall>k. k \<noteq> key \<longrightarrow> data s' k = data s k) \<and>
    scores (zset_at s' key) = (scores (zset_at s key))(m \<mapsto>
           case scores (zset_at s key) m of None \<Rightarrow> sc | Some x \<Rightarrow> if f64_eq x sc then x else sc) \<and>
    txs s' = txs (markWatchersLocked key s) \<and>
    (\<exists>e'. data s' key = Some e' \<and> e_kind e' = ''zset'' \<and> e_expiresAt e' = e_expiresAt (entry_at s key) \<and>
          e_zset e' = Some (zset_at s' key))"
proof -
  let ?dt = "if data s key \<noteq> None then entry_at s key
      else zero_entry\<lparr>e_kind := ''zset'', e_zset := Some \<lparr>scores = Map.empty, zsorted = []\<rparr>\<rparr>"
  let ?z = "zset_at s key"
  have dt: "e_zset ?dt = Some ?z"
    using wf kind
    by (auto simp: zset_at_def entry_at_def zero_entry_def empty_zset_def wf_zsets_def wf_zset_entry_def
        split: option.splits)
  have noerr: "\<not> (data s key \<noteq> None \<and> e_kind (entry_at s key) \<noteq> ''zset'')"
    using kind by (auto simp: entry_at_def split: option.splits)
  note inv = zset_inv_at [OF wf, of key]
  have frame: "e_kind ?dt = ''zset''" "e_expiresAt ?dt = e_expiresAt (entry_at s key)"
    using kind by (auto simp: entry_at_def zero_entry_def split: option.splits)
  show ?thesis
  proof (cases "scores ?z m")
    case None
    from zset_insert_ok [OF inv None sc] obtain es where
      "slices_Insert (zsorted ?z) (sortZset (zsorted ?z) \<lparr>name = m, score = sc\<rparr>) \<lparr>name = m, score = sc\<rparr> = Ret es"
      and "zset_inv \<lparr>scores = (scores ?z)(m \<mapsto> sc), zsorted = es\<rparr>" by metis
    with None noerr dt wf frame show ?thesis
      by (intro exI [of _ "put_zset key ?dt \<lparr>scores = (scores ?z)(m \<mapsto> sc), zsorted = es\<rparr> (markWatchersLocked key s)"]
          conjI put_zset_wf)
        (simp_all add: ZAdd_def Let_def)
  next
    case (Some x)
    from updateMemberScore_ok [OF inv Some sc] obtain z' where
      "updateMemberScore m sc ?z = Ret z'" and "zset_inv z'"
      and "scores z' = (scores ?z)(m \<mapsto> if f64_eq x sc then x else sc)" by metis
    with Some noerr dt wf frame show ?thesis
      by (intro exI [of _ "put_zset key ?dt z' (markWatchersLocked key s)"] conjI put_zset_wf)
        (simp_all add: ZAdd_def Let_def)
  qed
qed

text \<open>The two branches of ZREM on a sorted set.\<close>

lemma ZRem_cases:
  assumes "wf_zsets s" and "data s key = Some e" and "e_zset e = Some z"
  obtains "scores z m = None" and "ZRem key m s = Ret (0, s)"
  | z' where "scores z m \<noteq> None" and "zset_inv z'" and "scores z' = (scores z)(m := None)"
      and "ZRem key m s = Ret (1, put_zset key e z' s)"
proof (cases "scores z m")
  case None
  with assms show ?thesis by (intro that(1)) (simp_all add: ZRem_def)
next
  case (Some x)
  have inv: "zset_inv z" using assms by (auto simp: wf_zsets_def wf_zset_entry_def)
  from zset_member_split [OF inv Some] obtain pre post where
    split: "zsorted z = pre @ \<lparr>name = m, score = x\<rparr> # post" and out: "m \<notin> name ` set pre" by metis
  have "find_name m j (pre @ \<lparr>name = m, score = x\<rparr> # post) = j + length pre" for j
    using out by (induction pre arbitrary: j) auto
  then have i: "find_name m 0 (zsorted z) = length pre" by (simp add: split)
  show ?thesis
    using assms Some i zset_delete_ok [OF inv split]
    by (intro that(2) [of "\<lparr>scores = (scores z)(m := None), zsorted = pre @ post\<rparr>"]) (simp_all add: ZRem_def)
qed

section \<open>Properties\<close>

text \<open>C10. ZADD of a real score on a missing key or a sorted set succeeds, replies 1 exactly when the
  member is new, sets the member's score and no other (a score equal to the old one is left as it is),
  touches no other key, and keeps every sorted set well formed: the slice stays sorted by score and
  name, has every member once, and agrees with the score map.\<close>

theorem zadd_sets_score:
  assumes "wf_zsets s" and "\<And>e. data s key = Some e \<Longrightarrow> e_kind e = ''zset''" and "\<not> f64_isNaN sc"
  shows "\<exists>s' x. ZAdd key sc m s = Ret (Inr (if scores (zset_at s key) m = None then 1 else 0), s') \<and>
    wf_zsets s' \<and> f64_eq x sc \<and> scores (zset_at s' key) = (scores (zset_at s key))(m \<mapsto> x) \<and>
    (\<forall>k. k \<noteq> key \<longrightarrow> data s' k = data s k)"
proof -
  let ?x = "case scores (zset_at s key) m of None \<Rightarrow> sc | Some x \<Rightarrow> if f64_eq x sc then x else sc"
  have "f64_eq sc sc" using assms(3) by (simp add: f64_eq_def)
  then have "f64_eq ?x sc" by (auto split: option.splits)
  with ZAdd_ok [of s key sc m] assms show ?thesis by blast
qed

lemma wf_zsets_newStore: "wf_zsets newStore"
  by (simp add: wf_zsets_def newStore_def)

lemma real_examples: "\<not> f64_isNaN f64_one" "\<not> f64_isNaN f64_two" "\<not> f64_isNaN f64_zero"
  by code_simp+

theorem zadd_sets_score_witness:
  "\<exists>s'. ZAdd ''z'' f64_one ''m'' newStore = Ret (Inr 1, s') \<and> wf_zsets s'"
  using zadd_sets_score [OF wf_zsets_newStore _ real_examples(1), of "''z''" "''m''"]
  by (auto simp: newStore_def zset_at_def entry_at_def zero_entry_def empty_zset_def)

text \<open>C28. ZRANK of a member is the number of members that come before it, by score and then by name:
  the binary search finds exactly the member's position. A member the set does not have, and a missing
  key, rank -1.\<close>

theorem zrank_counts_smaller:
  assumes "wf_zsets s" and "data s key = Some e" and "e_zset e = Some z"
  shows "ZRank key m s = Ret
    (case scores z m of
       None \<Rightarrow> - 1
     | Some x \<Rightarrow> int (card {m'. \<exists>y. scores z m' = Some y \<and>
                              compare \<lparr>name = m', score = y\<rparr> \<lparr>name = m, score = x\<rparr>}))"
proof (cases "scores z m")
  case None
  with assms show ?thesis by (simp add: ZRank_def)
next
  case (Some x)
  let ?b = "\<lparr>name = m, score = x\<rparr>"
  have inv: "zset_inv z" using assms by (auto simp: wf_zsets_def wf_zset_entry_def)
  note D = zset_invD [OF inv]
  from zset_member_split [OF inv Some] obtain pre post where split: "zsorted z = pre @ ?b # post"
    and i: "sortZset (zsorted z) ?b = length pre" by metis
  have ok: "real_score ?b" using D(2) by (simp add: split)
  have "takeWhile (\<lambda>e. compare e ?b) (zsorted z) = pre"
    using D(1) zs.lt_irrefl [OF ok] by (simp add: split sorted_wrt_append)
  then have pre: "pre = filter (\<lambda>e. compare e ?b) (zsorted z)"
    using zs.takeWhile_below [OF D(1,2) ok] by simp
  have "{m'. \<exists>y. scores z m' = Some y \<and> compare \<lparr>name = m', score = y\<rparr> ?b} = name ` set pre"
    (is "?M = _")
  proof (intro equalityI subsetI)
    fix m' assume "m' \<in> ?M"
    then obtain y where "\<lparr>name = m', score = y\<rparr> \<in> set pre" by (auto simp: pre zset_inv_mem [OF inv])
    then show "m' \<in> name ` set pre" by (rule rev_image_eqI) simp
  next
    fix m' assume "m' \<in> name ` set pre"
    then obtain e where "e \<in> set pre" and "m' = name e" by blast
    then show "m' \<in> ?M"
      unfolding mem_Collect_eq by (intro exI [of _ "score e"]) (simp add: pre zset_inv_mem [OF inv])
  qed
  moreover have "card (name ` set pre) = length pre"
    using D(3) distinct_card [of "map name pre"] by (simp add: split)
  ultimately show ?thesis using assms Some i by (simp add: ZRank_def)
qed

text \<open>ZRANGE returns the members whose rank lies between the two indices, in order, a negative index
  counting from the end; ZCARD is the number of members.\<close>

theorem zrange_selects_ranks:
  assumes "wf_zsets s" and "data s key = Some e" and "e_zset e = Some z"
  shows "ZRange key start stop s = Ret (range_spec (map name (zsorted z)) start stop) \<and>
    ZCard key s = Ret (card (dom (scores z))) \<and> set (map name (zsorted z)) = dom (scores z)"
proof -
  have inv: "zset_inv z" using assms by (auto simp: wf_zsets_def wf_zset_entry_def)
  note D = zset_invD [OF inv]
  have "map name (sub_slice (zsorted z) lo hi) = sub_slice (map name (zsorted z)) lo hi" for lo hi
    by (simp add: sub_slice_def take_map drop_map)
  then have "ZRange key start stop s = Ret (range_spec (map name (zsorted z)) start stop)"
    using assms norm_range_spec [of "map name (zsorted z)" start stop]
    by (auto simp: ZRange_def split: option.splits)
  moreover have "length (zsorted z) = card (dom (scores z))"
    using D(3,4) by (metis distinct_card length_map list.set_map)
  ultimately show ?thesis using assms D(4) by (simp add: ZCard_def)
qed

text \<open>ZREM removes exactly the given member from both the map and the slice and replies 1; for a member
  the set does not have it replies 0 and changes nothing.\<close>

theorem zrem_removes:
  assumes "wf_zsets s" and "data s key = Some e" and "e_zset e = Some z"
  shows "\<exists>s'. ZRem key m s = Ret (if scores z m = None then 0 else 1, s') \<and> wf_zsets s' \<and>
    scores (zset_at s' key) = (scores z)(m := None) \<and> (\<forall>k. k \<noteq> key \<longrightarrow> data s' k = data s k)"
proof (cases rule: ZRem_cases [OF assms, of m])
  case 1
  then have "(scores z)(m := None) = scores z" by auto
  with 1 assms show ?thesis by (simp add: zset_at_def entry_at_def)
next
  case (2 z')
  then show ?thesis using put_zset_wf [OF assms(1)] by auto
qed

text \<open>One member in one sorted set, for the examples.\<close>

definition zset_example :: store where
  "zset_example = newStore\<lparr>data := [''z'' \<mapsto> zero_entry\<lparr>e_kind := ''zset'',
     e_zset := Some \<lparr>scores = [''m'' \<mapsto> f64_one], zsorted = [\<lparr>name = ''m'', score = f64_one\<rparr>]\<rparr>\<rparr>]\<rparr>"

lemma wf_zset_example: "wf_zsets zset_example"
  using real_examples
  by (auto simp: zset_example_def wf_zsets_def wf_zset_entry_def zset_inv_def real_score_def score_pairs_def
      newStore_def split: if_splits)

theorem zrank_counts_smaller_witness:
  "ZRank ''z'' ''m'' zset_example = Ret 0"
proof -
  have "\<not> compare \<lparr>name = ''m'', score = f64_one\<rparr> \<lparr>name = ''m'', score = f64_one\<rparr>" by code_simp
  then show ?thesis
    using zrank_counts_smaller [OF wf_zset_example, of "''z''" _ _ "''m''"]
    by (simp add: zset_example_def newStore_def)
qed

theorem zrange_selects_ranks_witness: "ZCard ''z'' zset_example = Ret 1"
  using zrange_selects_ranks [OF wf_zset_example, of "''z''"]
  by (simp add: zset_example_def newStore_def)

theorem zrem_removes_witness: "\<exists>s'. ZRem ''z'' ''m'' zset_example = Ret (1, s') \<and> wf_zsets s'"
proof -
  let ?z = "\<lparr>scores = [''m'' \<mapsto> f64_one], zsorted = [\<lparr>name = ''m'', score = f64_one\<rparr>]\<rparr>"
  have "data zset_example ''z'' = Some (zero_entry\<lparr>e_kind := ''zset'', e_zset := Some ?z\<rparr>)"
    by (simp add: zset_example_def newStore_def)
  from zrem_removes [OF wf_zset_example this, of ?z "''m''"] show ?thesis by auto
qed

text \<open>Defect: a NaN score, which \<open>strconv.ParseFloat\<close> accepts, breaks the order of the slice. After
  \<open>ZADD z 1 a\<close>, \<open>ZADD z nan m\<close>, \<open>ZADD z 0 b\<close> the update \<open>ZADD z 2 m\<close> removes the entry of another
  member: \<open>b\<close> still has a score but no longer appears in the slice, so ZCARD and ZRANGE lose it, and \<open>m\<close>
  appears twice.\<close>

theorem nan_score_corrupts:
  "(case ZAdd ''z'' f64_one ''a'' newStore of Panic \<Rightarrow> None | Ret (r1, s1) \<Rightarrow>
    case ZAdd ''z'' f64_nan ''m'' s1 of Panic \<Rightarrow> None | Ret (r2, s2) \<Rightarrow>
    case ZAdd ''z'' f64_zero ''b'' s2 of Panic \<Rightarrow> None | Ret (r3, s3) \<Rightarrow>
    case ZAdd ''z'' f64_two ''m'' s3 of Panic \<Rightarrow> None | Ret (r4, s4) \<Rightarrow>
      Some (map name (zsorted (zset_at s4 ''z'')), scores (zset_at s4 ''z'') ''b''))
   = Some ([''m'', ''a'', ''m''], Some f64_zero)"
  by code_simp

end
