(* ===== verification/Geo.thy ===== *)
theory Geo
  imports Zsets
begin

text \<open>
  Geospatial commands of \<^verbatim>\<open>src/app/store.go\<close>. A position is stored as the score of a sorted-set member:
  latitude and longitude are scaled to 26-bit grid numbers, whose bits are interleaved. The bit
  manipulation is exact on words; \<open>float64\<close> arithmetic and the functions of the \<open>math\<close> package are the
  parameters of the record \<open>float_ops\<close>, since their rounding (and fusing) is the platform's.
\<close>

unbundle bit_operations_syntax

record float_ops =
  fl_add :: "float64 \<Rightarrow> float64 \<Rightarrow> float64"
  fl_sub :: "float64 \<Rightarrow> float64 \<Rightarrow> float64"
  fl_mul :: "float64 \<Rightarrow> float64 \<Rightarrow> float64"
  fl_div :: "float64 \<Rightarrow> float64 \<Rightarrow> float64"
  Sin :: "float64 \<Rightarrow> float64"
  Cos :: "float64 \<Rightarrow> float64"
  Asin :: "float64 \<Rightarrow> float64"
  Sqrt :: "float64 \<Rightarrow> float64"
  fl_impl :: "float64 \<Rightarrow> nat"
  FormatFloat :: "float64 \<Rightarrow> string"
  fmt_f :: "float64 \<Rightarrow> string"

section \<open>Constants\<close>

abbreviation MIN_LATITUDE :: float64 where "MIN_LATITUDE \<equiv> 0xC0554345B1A57F00"
abbreviation MAX_LATITUDE :: float64 where "MAX_LATITUDE \<equiv> 0x40554345B1A57F00"
abbreviation MIN_LONGITUDE :: float64 where "MIN_LONGITUDE \<equiv> 0xC066800000000000"
abbreviation MAX_LONGITUDE :: float64 where "MAX_LONGITUDE \<equiv> 0x4066800000000000"
abbreviation LATITUDE_RANGE :: float64 where "LATITUDE_RANGE \<equiv> 0x40654345B1A57F00"
abbreviation LONGITUDE_RANGE :: float64 where "LONGITUDE_RANGE \<equiv> 0x4076800000000000"
abbreviation pow_2_26 :: float64 where "pow_2_26 \<equiv> 0x4190000000000000"
abbreviation f64_pi :: float64 where "f64_pi \<equiv> 0x400921FB54442D18"
abbreviation f64_180 :: float64 where "f64_180 \<equiv> 0x4066800000000000"
abbreviation degToRad :: float64 where "degToRad \<equiv> 0x3F91DF46A2529D39"
abbreviation twice_earthRadiusMeters :: float64 where "twice_earthRadiusMeters \<equiv> 0x41684F6F63E51090"

section \<open>Geohash cells\<close>

text \<open>One line of \<open>spread\<close> and of \<open>compactInt64ToInt32\<close>.\<close>

definition spread_step :: "nat \<Rightarrow> 64 word \<Rightarrow> 64 word \<Rightarrow> 64 word" where
  "spread_step k m r = (r OR push_bit k r) AND m"

definition spread :: "32 word \<Rightarrow> 64 word" where
  "spread v =
     (let r = ucast v;
          r = spread_step 16 0x0000FFFF0000FFFF r;
          r = spread_step 8 0x00FF00FF00FF00FF r;
          r = spread_step 4 0x0F0F0F0F0F0F0F0F r;
          r = spread_step 2 0x3333333333333333 r;
          r = spread_step 1 0x5555555555555555 r
      in r)"

definition interleave :: "32 word \<Rightarrow> 32 word \<Rightarrow> 64 word" where
  "interleave x y = spread x OR push_bit 1 (spread y)"

definition compact_step :: "nat \<Rightarrow> 64 word \<Rightarrow> 64 word \<Rightarrow> 64 word" where
  "compact_step k m r = (r OR drop_bit k r) AND m"

definition compactInt64ToInt32 :: "64 word \<Rightarrow> 32 word" where
  "compactInt64ToInt32 v =
     (let r = v AND 0x5555555555555555;
          r = compact_step 1 0x3333333333333333 r;
          r = compact_step 2 0x0F0F0F0F0F0F0F0F r;
          r = compact_step 4 0x00FF00FF00FF00FF r;
          r = compact_step 8 0x0000FFFF0000FFFF r;
          r = compact_step 16 0x00000000FFFFFFFF r
      in ucast r)"

text \<open>A coordinate scaled to the range of a grid number and truncated.\<close>

definition grid_number :: "float_ops \<Rightarrow> float64 \<Rightarrow> float64 \<Rightarrow> float64 \<Rightarrow> 32 word" where
  "grid_number fl lo rng x =
     word_of_nat (f64_to_uint 32 (fl_impl fl) (fl_div fl (fl_mul fl pow_2_26 (fl_sub fl x lo)) rng))"

definition encode :: "float_ops \<Rightarrow> float64 \<Rightarrow> float64 \<Rightarrow> 64 word" where
  "encode fl latitude longitude =
     (let latInt = grid_number fl MIN_LATITUDE LATITUDE_RANGE latitude;
          lonInt = grid_number fl MIN_LONGITUDE LONGITUDE_RANGE longitude
      in interleave latInt lonInt)"

record Coordinates =
  Latitude :: float64
  Longitude :: float64

text \<open>One boundary of a grid cell: \<open>MIN + RANGE*(float64(n)/math.Pow(2, 26))\<close>.\<close>

definition grid_bound :: "float_ops \<Rightarrow> float64 \<Rightarrow> float64 \<Rightarrow> 32 word \<Rightarrow> float64" where
  "grid_bound fl lo rng n = fl_add fl lo (fl_mul fl rng (fl_div fl (f64_of_uint64 (unat n)) pow_2_26))"

definition convertGridNumbersToCoordinates :: "float_ops \<Rightarrow> 32 word \<Rightarrow> 32 word \<Rightarrow> Coordinates" where
  "convertGridNumbersToCoordinates fl gridLat gridLon =
     (let gridLatitudeMin = grid_bound fl MIN_LATITUDE LATITUDE_RANGE gridLat;
          gridLatitudeMax = grid_bound fl MIN_LATITUDE LATITUDE_RANGE (gridLat + 1);
          gridLongitudeMin = grid_bound fl MIN_LONGITUDE LONGITUDE_RANGE gridLon;
          gridLongitudeMax = grid_bound fl MIN_LONGITUDE LONGITUDE_RANGE (gridLon + 1)
      in \<lparr>Latitude = fl_div fl (fl_add fl gridLatitudeMin gridLatitudeMax) f64_two,
          Longitude = fl_div fl (fl_add fl gridLongitudeMin gridLongitudeMax) f64_two\<rparr>)"

definition decode :: "float_ops \<Rightarrow> 64 word \<Rightarrow> Coordinates" where
  "decode fl geoCode =
     (let y = drop_bit 1 geoCode; x = geoCode
      in convertGridNumbersToCoordinates fl (compactInt64ToInt32 x) (compactInt64ToInt32 y))"

section \<open>Distances\<close>

definition geohashGetDistance :: "float_ops \<Rightarrow> float64 \<Rightarrow> float64 \<Rightarrow> float64 \<Rightarrow> float64 \<Rightarrow> float64" where
  "geohashGetDistance fl lon1 lat1 lon2 lat2 =
     (let lat1r = fl_mul fl lat1 degToRad; lat2r = fl_mul fl lat2 degToRad;
          u = Sin fl (fl_div fl (fl_sub fl lat2r lat1r) f64_two);
          v = Sin fl (fl_div fl (fl_sub fl (fl_mul fl lon2 degToRad) (fl_mul fl lon1 degToRad)) f64_two)
      in fl_mul fl twice_earthRadiusMeters (Asin fl (Sqrt fl
           (fl_add fl (fl_mul fl u u)
              (fl_mul fl (fl_mul fl (fl_mul fl (Cos fl lat1r) (Cos fl lat2r)) v) v)))))"

definition haversine :: "float_ops \<Rightarrow> float64 \<Rightarrow> float64 \<Rightarrow> float64 \<Rightarrow> float64 \<Rightarrow> float64" where
  "haversine fl lon1 lat1 lon2 lat2 =
     (let toRad = (\<lambda>d. fl_div fl (fl_mul fl d f64_pi) f64_180);
          dLat = toRad (fl_sub fl lat2 lat1);
          dLon = toRad (fl_sub fl lon2 lon1);
          sLat = Sin fl (fl_div fl dLat f64_two);
          sLon = Sin fl (fl_div fl dLon f64_two);
          a = fl_add fl (fl_mul fl sLat sLat)
                (fl_mul fl (fl_mul fl (fl_mul fl (Cos fl (toRad lat1)) (Cos fl (toRad lat2))) sLon) sLon)
      in fl_mul fl twice_earthRadiusMeters (Asin fl (Sqrt fl a)))"

section \<open>Commands\<close>

definition GeoAdd :: "float_ops \<Rightarrow> string \<Rightarrow> float64 \<Rightarrow> float64 \<Rightarrow> string \<Rightarrow> store
    \<Rightarrow> ((store_error + int) \<times> store) go" where
  "GeoAdd fl key long lat member s =
     (if f64_lt long MIN_LONGITUDE \<or> f64_lt MAX_LONGITUDE long \<or> f64_lt lat MIN_LATITUDE \<or> f64_lt MAX_LATITUDE lat
      then Ret (Inl (ErrGeo (fmt_f fl long @ '','' @ fmt_f fl lat)), s)
      else ZAdd key (f64_of_uint64 (unat (encode fl lat long))) member s)"

definition geo_code :: "float_ops \<Rightarrow> float64 \<Rightarrow> 64 word" where
  "geo_code fl sc = word_of_nat (f64_to_uint 64 (fl_impl fl) sc)"

definition GeoExists :: "float_ops \<Rightarrow> time \<Rightarrow> string \<Rightarrow> string list \<Rightarrow> store
    \<Rightarrow> (store_error + string list list) go" where
  "GeoExists fl now key members s =
     (case data s key of
        None \<Rightarrow> Ret (Inr (map (\<lambda>_. []) members))
      | Some e \<Rightarrow>
          if expired e now then Ret (Inr (map (\<lambda>_. []) members))
          else if e_kind e \<noteq> ''zset'' then Ret (Inl ErrWrongType)
          else
            (case e_zset e of
               None \<Rightarrow> if members = [] then Ret (Inr []) else Panic
             | Some z \<Rightarrow>
                 Ret (Inr (map (\<lambda>m. case scores z m of
                       None \<Rightarrow> []
                     | Some sc \<Rightarrow> let c = decode fl (geo_code fl sc)
                                 in [FormatFloat fl (Longitude c), FormatFloat fl (Latitude c)]) members))))"

text \<open>\<open>GeoDist\<close> reads the two places without checking the key or the members: a missing key panics.\<close>

definition GeoDist :: "float_ops \<Rightarrow> string \<Rightarrow> string \<Rightarrow> string \<Rightarrow> store \<Rightarrow> string go" where
  "GeoDist fl key place1 place2 s =
     (case e_zset (entry_at s key) of
        None \<Rightarrow> Panic
      | Some z \<Rightarrow>
          (let sc = (\<lambda>m. case scores z m of None \<Rightarrow> f64_zero | Some x \<Rightarrow> x);
               c1 = decode fl (geo_code fl (sc place1)); c2 = decode fl (geo_code fl (sc place2))
           in Ret (FormatFloat fl (geohashGetDistance fl (Longitude c1) (Latitude c1) (Longitude c2) (Latitude c2)))))"

text \<open>\<open>GeoSearch\<close> walks the map of scores in the order \<open>range_keys\<close> of the map iteration.\<close>

definition GeoSearch :: "float_ops \<Rightarrow> (string set \<Rightarrow> string list) \<Rightarrow> string \<Rightarrow> float64 \<Rightarrow> float64 \<Rightarrow> float64 \<Rightarrow> store
    \<Rightarrow> string list go" where
  "GeoSearch fl range_keys key longitude latitude byRadius s =
     (case e_zset (entry_at s key) of
        None \<Rightarrow> Panic
      | Some z \<Rightarrow>
          Ret (filter (\<lambda>member. case scores z member of
                   None \<Rightarrow> False
                 | Some sc \<Rightarrow>
                     let c = decode fl (geo_code fl sc)
                     in f64_le (haversine fl longitude latitude (Longitude c) (Latitude c)) byRadius)
                 (range_keys (dom (scores z)))))"

section \<open>Cells and their codes\<close>

lemma bit_spread_step:
  "n < 64 \<Longrightarrow> bit (spread_step k m r) n = (bit m n \<and> (bit r n \<or> k \<le> n \<and> bit r (n - k)))"
  by (auto simp: spread_step_def bit_simps)

lemma bit_compact_step:
  "n < 64 \<Longrightarrow> bit (compact_step k m r) n = (bit m n \<and> (bit r n \<or> bit r (k + n)))"
  by (auto simp: compact_step_def bit_simps)

lemma not_bit_32: "32 \<le> n \<Longrightarrow> \<not> bit (v :: 32 word) n"
  using bit_imp_le_length [of v n] by auto

lemma bit_spread_all: "\<forall>n \<in> {..<64}. bit (spread v) n = (even n \<and> bit v (n div 2))"
  unfolding spread_def Let_def
  by (simp add: lessThan_nat_numeral bit_spread_step bit_simps not_bit_32)

lemma bit_compact_all: "\<forall>n \<in> {..<32}. bit (compactInt64ToInt32 v) n = bit v (2 * n)"
  unfolding compactInt64ToInt32_def Let_def
  by (simp add: lessThan_nat_numeral bit_compact_step bit_simps)
    (simp add: numeral_2_eq_2)

lemma bit_spread: "bit (spread v) n = (n < 64 \<and> even n \<and> bit v (n div 2))"
  using bit_spread_all [of v] bit_imp_le_length [of "spread v" n] by auto

lemma bit_compact: "bit (compactInt64ToInt32 v) n = (n < 32 \<and> bit v (2 * n))"
  using bit_compact_all [of v] bit_imp_le_length [of "compactInt64ToInt32 v" n] by auto

lemma bit_interleave:
  "bit (interleave x y) n = (n < 64 \<and> (if even n then bit x (n div 2) else bit y (n div 2)))"
proof (cases "even n")
  case True
  then show ?thesis
    unfolding interleave_def bit_or_iff bit_push_bit_iff bit_spread by (cases n) auto
next
  case False
  then obtain k where "n = Suc (2 * k)" by (metis oddE Suc_eq_plus1)
  then show ?thesis unfolding interleave_def bit_or_iff bit_push_bit_iff bit_spread by auto
qed

lemma compact_interleave:
  "compactInt64ToInt32 (interleave x y) = x"
  "compactInt64ToInt32 (drop_bit 1 (interleave x y)) = y"
proof -
  show "compactInt64ToInt32 (interleave x y) = x"
    by (rule bit_word_eqI) (simp add: bit_compact bit_interleave)
  show "compactInt64ToInt32 (drop_bit 1 (interleave x y)) = y"
    by (rule bit_word_eqI) (simp only: bit_compact bit_drop_bit_eq o_def bit_interleave, simp)
qed

text \<open>
  A latitude number up to \<open>2 ^ 26\<close>, which the maximal latitude gives, and a longitude number below \<open>2 ^ 26\<close> give a
  code below \<open>2 ^ 53\<close>, which a \<open>float64\<close> holds exactly.
\<close>

lemma no_high_bit:
  assumes "unat (w :: 32 word) < 2 ^ k" and "k \<le> n"
  shows "\<not> bit w n"
proof -
  have "unat w < 2 ^ n" using assms by (meson less_le_trans one_le_numeral power_increasing)
  then have "\<not> bit (unat w) n" by (simp add: bit_iff_odd)
  then show ?thesis by (simp add: bit_unsigned_iff)
qed

lemma interleave_less:
  assumes "unat x \<le> 2 ^ 26" and "unat y < 2 ^ 26"
  shows "unat (interleave x y) < 2 ^ 53"
proof -
  have x: "unat x < 2 ^ 27" using assms(1) by simp
  have "take_bit 53 (interleave x y) = interleave x y"
  proof (rule bit_word_eqI)
    fix n :: nat
    have "27 \<le> n div 2" if "53 \<le> n" and "even n" using that by presburger
    moreover have "26 \<le> n div 2" if "53 \<le> n" using that by simp
    ultimately show "bit (take_bit 53 (interleave x y)) n = bit (interleave x y) n"
      using no_high_bit [OF x, of "n div 2"] no_high_bit [OF assms(2), of "n div 2"]
        bit_imp_le_length [of "interleave x y" n]
      by (cases "n < 53") (auto simp: bit_take_bit_iff bit_interleave)
  qed
  then show ?thesis by (metis take_bit_nat_less_exp unsigned_take_bit_eq)
qed

lemma geo_code_cell:
  assumes "unat a \<le> 2 ^ 26" and "unat b < 2 ^ 26"
  shows "geo_code fl (f64_of_uint64 (unat (interleave a b))) = interleave a b"
    and "\<not> f64_isNaN (f64_of_uint64 (unat (interleave a b)))"
  using interleave_less [OF assms] f64_uint64_round_trip [of "unat (interleave a b)"]
  by (simp_all add: geo_code_def)

section \<open>Properties\<close>

text \<open>C31. GEOPOS after GEOADD, for any rounding of the arithmetic: a new member whose coordinates are in
  range is added to the sorted set, provided that the grid number of its latitude is at most \<open>2 ^ 26\<close> and that of its
  longitude is below \<open>2 ^ 26\<close>, which leaves out the longitudes that scale to the very end of the range, 180 among them.
  Its score is a \<open>float64\<close> that gives back the interleaved code, and GEOPOS answers with the centre of exactly the
  grid cell that \<open>encode\<close> chose: spreading, interleaving, storing the code as a score, reading it back and compacting
  lose no bit.\<close>

theorem geopos_after_geoadd:
  assumes "wf_zsets s" and "\<And>e. data s key = Some e \<Longrightarrow> e_kind e = ''zset'' \<and> \<not> expired e now"
    and "scores (zset_at s key) m = None"
    and "\<not> f64_lt long MIN_LONGITUDE" and "\<not> f64_lt MAX_LONGITUDE long"
    and "\<not> f64_lt lat MIN_LATITUDE" and "\<not> f64_lt MAX_LATITUDE lat"
    and "unat (grid_number fl MIN_LATITUDE LATITUDE_RANGE lat) \<le> 2 ^ 26"
    and "unat (grid_number fl MIN_LONGITUDE LONGITUDE_RANGE long) < 2 ^ 26"
  shows "\<exists>s' c sc. GeoAdd fl key long lat m s = Ret (Inr 1, s') \<and> wf_zsets s' \<and>
    scores (zset_at s' key) m = Some sc \<and> sc = f64_of_uint64 (unat (geo_code fl sc)) \<and>
    geo_code fl sc = interleave (grid_number fl MIN_LATITUDE LATITUDE_RANGE lat)
      (grid_number fl MIN_LONGITUDE LONGITUDE_RANGE long) \<and>
    c = convertGridNumbersToCoordinates fl (grid_number fl MIN_LATITUDE LATITUDE_RANGE lat)
          (grid_number fl MIN_LONGITUDE LONGITUDE_RANGE long) \<and>
    GeoExists fl now key [m] s' = Ret (Inr [[FormatFloat fl (Longitude c), FormatFloat fl (Latitude c)]])"
proof -
  let ?a = "grid_number fl MIN_LATITUDE LATITUDE_RANGE lat"
  let ?b = "grid_number fl MIN_LONGITUDE LONGITUDE_RANGE long"
  let ?sc = "f64_of_uint64 (unat (interleave ?a ?b))"
  note cell = geo_code_cell [OF assms(8,9)]
  have kind: "\<And>e. data s key = Some e \<Longrightarrow> e_kind e = ''zset''" using assms(2) by blast
  from ZAdd_ok [of s key ?sc m] assms(1,3) kind cell(2)
  obtain s' e where z: "ZAdd key ?sc m s = Ret (Inr 1, s')" and wf: "wf_zsets s'"
    and sc: "scores (zset_at s' key) m = Some ?sc" and e: "data s' key = Some e" "e_kind e = ''zset''"
      "e_expiresAt e = e_expiresAt (entry_at s key)" "e_zset e = Some (zset_at s' key)"
    by auto
  have "\<not> expired e now"
    using assms(2) e(3) by (cases "data s key") (auto simp: entry_at_def zero_entry_def expired_def IsZero_def)
  with e sc have "GeoExists fl now key [m] s' =
      (let c = decode fl (interleave ?a ?b) in
        Ret (Inr [[FormatFloat fl (Longitude c), FormatFloat fl (Latitude c)]]))"
    by (simp add: GeoExists_def cell(1) Let_def)
  moreover have "decode fl (interleave ?a ?b) = convertGridNumbersToCoordinates fl ?a ?b"
    by (simp only: decode_def Let_def compact_interleave)
  ultimately show ?thesis
    using assms(4-7) z wf sc cell(1) by (simp add: GeoAdd_def encode_def Let_def)
qed

text \<open>Arithmetic that flushes every result to zero, enough to evaluate an example.\<close>

definition flush_ops :: float_ops where
  "flush_ops = \<lparr>fl_add = (\<lambda>x y. 0), fl_sub = (\<lambda>x y. 0), fl_mul = (\<lambda>x y. 0), fl_div = (\<lambda>x y. 0),
     Sin = (\<lambda>x. 0), Cos = (\<lambda>x. 0), Asin = (\<lambda>x. 0), Sqrt = (\<lambda>x. 0), fl_impl = (\<lambda>x. 0),
     FormatFloat = (\<lambda>x. ''0''), fmt_f = (\<lambda>x. ''0.000000'')\<rparr>"

text \<open>The results that IEEE 754 arithmetic gives for the longitude 13.361389 and the latitude 38.115556.\<close>

definition table :: "((float64 \<times> float64) \<times> float64) list \<Rightarrow> float64 \<Rightarrow> float64 \<Rightarrow> float64" where
  "table rows x y = (case map_of rows (x, y) of None \<Rightarrow> 0 | Some z \<Rightarrow> z)"

definition palermo_ops :: float_ops where
  "palermo_ops = flush_ops\<lparr>
     fl_sub := table [((0x40430ECA89FC6DA4, MIN_LATITUDE), 0x405ECAAAF6A3B5D2),
                      ((0x402AB907FAA044AF, MIN_LONGITUDE), 0x40682B907FAA044B)],
     fl_mul := table [((pow_2_26, 0x405ECAAAF6A3B5D2), 0x41FECAAAF6A3B5D2),
                      ((pow_2_26, 0x40682B907FAA044B), 0x42082B907FAA044B),
                      ((LATITUDE_RANGE, 0x3FE72B9E00000000), 0x405ECAAAF2FB8D98),
                      ((LATITUDE_RANGE, 0x3FE72B9E08000000), 0x405ECAAAFD9D3070),
                      ((LONGITUDE_RANGE, 0x3FE1300BB8000000), 0x40682B907AC00000),
                      ((LONGITUDE_RANGE, 0x3FE1300BC0000000), 0x40682B9086000000)],
     fl_div := table [((0x41FECAAAF6A3B5D2, LATITUDE_RANGE), 0x41872B9E02C07291),
                      ((0x42082B907FAA044B, LONGITUDE_RANGE), 0x4181300BBB7E96F7),
                      ((0x41872B9E00000000, pow_2_26), 0x3FE72B9E00000000),
                      ((0x41872B9E08000000, pow_2_26), 0x3FE72B9E08000000),
                      ((0x4181300BB8000000, pow_2_26), 0x3FE1300BB8000000),
                      ((0x4181300BC0000000, pow_2_26), 0x3FE1300BC0000000),
                      ((0x40530ECA8D4DC008, f64_two), 0x40430ECA8D4DC008),
                      ((0x403AB90806000000, f64_two), 0x402AB90806000000)],
     fl_add := table [((MIN_LATITUDE, 0x405ECAAAF2FB8D98), 0x40430ECA82AC1D30),
                      ((MIN_LATITUDE, 0x405ECAAAFD9D3070), 0x40430ECA97EF62E0),
                      ((0x40430ECA82AC1D30, 0x40430ECA97EF62E0), 0x40530ECA8D4DC008),
                      ((MIN_LONGITUDE, 0x40682B907AC00000), 0x402AB907AC000000),
                      ((MIN_LONGITUDE, 0x40682B9086000000), 0x402AB90860000000),
                      ((0x402AB907AC000000, 0x402AB90860000000), 0x403AB90806000000)],
     FormatFloat := (\<lambda>x. if x = 0x402AB90806000000 then ''13.361389338970184''
                          else if x = 0x40430ECA8D4DC008 then ''38.1155563954963'' else ''0'')\<rparr>"

lemma palermo_grid:
  "grid_number palermo_ops MIN_LATITUDE LATITUDE_RANGE 0x40430ECA89FC6DA4 = 48591808"
  "grid_number palermo_ops MIN_LONGITUDE LONGITUDE_RANGE 0x402AB907FAA044AF = 36045175"
  by (simp_all add: grid_number_def palermo_ops_def table_def f64_to_uint_def f64_mag_def f64_neg_def Let_def)

lemma palermo_cell:
  "interleave 48591808 36045175 = 3479099956230698"
  "f64_of_uint64 3479099956230698 = 0x4328B8722A0EF454"
  by (simp_all add: interleave_def spread_def spread_step_def Let_def f64_of_uint64_def log2.simps)

lemma palermo_bounds:
  "f64_of_uint64 48591808 = 0x41872B9E00000000" "f64_of_uint64 48591809 = 0x41872B9E08000000"
  "f64_of_uint64 36045175 = 0x4181300BB8000000" "f64_of_uint64 36045176 = 0x4181300BC0000000"
  by (simp_all add: f64_of_uint64_def log2.simps)

lemma palermo_centre:
  "convertGridNumbersToCoordinates palermo_ops 48591808 36045175 =
     \<lparr>Latitude = 0x40430ECA8D4DC008, Longitude = 0x402AB90806000000\<rparr>"
  by (simp add: convertGridNumbersToCoordinates_def grid_bound_def palermo_bounds palermo_ops_def table_def Let_def)

theorem geopos_after_geoadd_witness:
  "\<exists>s'. GeoAdd palermo_ops ''Sicily'' 0x402AB907FAA044AF 0x40430ECA89FC6DA4 ''Palermo'' newStore = Ret (Inr 1, s') \<and>
     scores (zset_at s' ''Sicily'') ''Palermo'' = Some 0x4328B8722A0EF454 \<and>
     GeoExists palermo_ops 0 ''Sicily'' [''Palermo''] s' = Ret (Inr [[''13.361389338970184'', ''38.1155563954963'']])"
proof -
  have r: "\<not> f64_lt 0x402AB907FAA044AF MIN_LONGITUDE" "\<not> f64_lt MAX_LONGITUDE 0x402AB907FAA044AF"
    "\<not> f64_lt 0x40430ECA89FC6DA4 MIN_LATITUDE" "\<not> f64_lt MAX_LATITUDE 0x40430ECA89FC6DA4" by code_simp+
  have f: "FormatFloat palermo_ops 0x402AB90806000000 = ''13.361389338970184''"
    "FormatFloat palermo_ops 0x40430ECA8D4DC008 = ''38.1155563954963''" by (simp_all add: palermo_ops_def)
  have e: "scores (zset_at newStore ''Sicily'') ''Palermo'' = None"
    by (simp add: newStore_def zset_at_def entry_at_def zero_entry_def empty_zset_def)
  show ?thesis
    using geopos_after_geoadd [OF wf_zsets_newStore _ e r, of 0 palermo_ops]
    by (auto simp: newStore_def palermo_grid palermo_cell palermo_centre f)
qed

text \<open>Defect: the longitude 180 is accepted and scales to \<open>2 ^ 26\<close>, one more than 26 bits hold. The code then has 54 bits,
  which a \<open>float64\<close> rounds, so with an odd latitude number the place that is read back is in another cell.\<close>

theorem last_longitude_changes_cell:
  "\<not> f64_lt MAX_LONGITUDE MAX_LONGITUDE \<and> geo_code fl (f64_of_uint64 (unat (interleave 1 (2 ^ 26)))) = interleave 0 (2 ^ 26) \<and>
   interleave 0 (2 ^ 26) \<noteq> interleave 1 (2 ^ 26)"
proof -
  have i: "interleave 1 (2 ^ 26) = 0x20000000000001" "interleave 0 (2 ^ 26) = 0x20000000000000"
    by (simp_all add: interleave_def spread_def spread_step_def Let_def)
  have "f64_of_uint64 0x20000000000001 = 0x4340000000000000" by (simp add: f64_of_uint64_def log2.simps)
  then show ?thesis
    unfolding i by (simp add: geo_code_def f64_to_uint_def f64_mag_def f64_neg_def f64_lt_def f64_isNaN_def Let_def)
qed

end
