(* ===== verification/Server.thy ===== *)
theory Server
  imports Store
begin

text \<open>
  Configuration, users and roles: \<^verbatim>\<open>src/app/config.go\<close> and the access control of \<^verbatim>\<open>src/app/server.go\<close>.
  \<open>sha256_hex\<close> stands for \<open>hex.EncodeToString\<close> of \<open>sha256.Sum256\<close>; a user is found by name only, and
  objects are shared by name, so the map of pointers is a map of values.
\<close>

record config =
  port :: int
  isReplica :: bool
  masterHost :: string
  masterPort :: string
  cfg_dir :: string
  dbFilename :: string
  appendOnly :: bool
  aofDir :: string
  appendFilename :: string
  appendFsync :: string
  appenddirname :: string

text \<open>The values \<open>flag.Parse\<close> leaves in the flag variables.\<close>

record flags =
  fl_port :: int
  fl_replicaof :: string
  fl_dir :: string
  fl_dbfilename :: string
  fl_appendonly :: string
  fl_appenddirname :: string
  fl_appendfilename :: string
  fl_appendfsync :: string

datatype flag_error = BadReplicaof string | BadAppendfsync string

definition zero_config :: config where
  "zero_config = \<lparr>port = 0, isReplica = False, masterHost = [], masterPort = [], cfg_dir = [], dbFilename = [],
     appendOnly = False, aofDir = [], appendFilename = [], appendFsync = [], appenddirname = []\<rparr>"

text \<open>\<open>join\<close> stands for \<open>filepath.Join\<close>.\<close>

definition parseFlags :: "(string \<Rightarrow> string \<Rightarrow> string) \<Rightarrow> flags \<Rightarrow> flag_error + config" where
  "parseFlags join f =
     (let cfg = zero_config\<lparr>port := fl_port f, cfg_dir := fl_dir f, dbFilename := fl_dbfilename f,
            appendOnly := (fl_appendonly f = ''yes''), aofDir := join (fl_dir f) (fl_appenddirname f),
            appendFilename := fl_appendfilename f, appendFsync := fl_appendfsync f,
            appenddirname := fl_appenddirname f\<rparr>;
          replica = (if fl_replicaof f \<noteq> []
                     then (case Cut (fl_replicaof f) (CHR '' '') of (host, p, ok) \<Rightarrow>
                             if \<not> ok then Inl (BadReplicaof (fl_replicaof f))
                             else Inr (cfg\<lparr>isReplica := True, masterHost := host, masterPort := p\<rparr>))
                     else Inr cfg)
      in case replica of
           Inl err \<Rightarrow> Inl err
         | Inr cfg \<Rightarrow>
             if appendFsync cfg = ''always'' \<or> appendFsync cfg = ''everysec'' \<or> appendFsync cfg = ''no''
             then Inr cfg else Inl (BadAppendfsync (appendFsync cfg)))"

section \<open>Users\<close>

record user =
  u_name :: string
  u_flags :: "string list"
  u_passwords :: "string list"

type_synonym acl = "string \<rightharpoonup> user"

definition newAcl :: acl where
  "newAcl = [''default'' \<mapsto> \<lparr>u_name = ''default'', u_flags = [''nopass''], u_passwords = []\<rparr>]"

definition getUser :: "acl \<Rightarrow> string \<Rightarrow> user option" where "getUser a nm = a nm"

definition checkPassword :: "(string \<Rightarrow> string) \<Rightarrow> acl \<Rightarrow> string \<Rightarrow> string \<Rightarrow> user option" where
  "checkPassword sha256_hex a nm password =
     (case a nm of
        None \<Rightarrow> None
      | Some u \<Rightarrow>
          if ''nopass'' \<in> set (u_flags u) then Some u
          else if sha256_hex password \<in> set (u_passwords u) then Some u
          else None)"

definition defaultIfNoPass :: "acl \<Rightarrow> user option" where
  "defaultIfNoPass a =
     (case a ''default'' of
        None \<Rightarrow> None
      | Some u \<Rightarrow> if ''nopass'' \<in> set (u_flags u) then Some u else None)"

text \<open>\<open>setUser\<close>: a rule \<open>>password\<close> adds the hash and drops \<open>nopass\<close>; an unknown user panics then.\<close>

definition setUser :: "(string \<Rightarrow> string) \<Rightarrow> string \<Rightarrow> string \<Rightarrow> acl \<Rightarrow> acl go" where
  "setUser sha256_hex nm password a =
     (case CutPrefix password ''>'' of (pw, ok) \<Rightarrow>
        if \<not> ok then Ret a
        else
          (case a nm of
             None \<Rightarrow> Panic
           | Some u \<Rightarrow>
               Ret (a(nm \<mapsto> u\<lparr>u_passwords := u_passwords u @ [sha256_hex pw],
                              u_flags := filter (\<lambda>f. f \<noteq> ''nopass'') (u_flags u)\<rparr>))))"

definition role :: "config \<Rightarrow> string" where
  "role cfg = (if isReplica cfg then ''slave'' else ''master'')"

section \<open>Properties\<close>

text \<open>Access control: a fresh server lets every connection in as \<open>default\<close>. Once a password is set
  for it, no connection is let in without AUTH, AUTH succeeds for exactly the passwords whose hash is one of
  those set (the new one and the earlier ones), and other users are not affected.\<close>

theorem set_password_enforced:
  assumes "setUser sha ''default'' (CHR ''>'' # pw) a = Ret a'" and "a ''default'' = Some u"
  shows "defaultIfNoPass newAcl \<noteq> None \<and> defaultIfNoPass a' = None \<and>
    (\<forall>p. checkPassword sha a' ''default'' p \<noteq> None \<longleftrightarrow> sha p = sha pw \<or> sha p \<in> set (u_passwords u)) \<and>
    (\<forall>nm. nm \<noteq> ''default'' \<longrightarrow> checkPassword sha a' nm = checkPassword sha a nm)"
proof -
  have "CutPrefix (CHR ''>'' # pw) ''>'' = (pw, True)" by (simp add: CutPrefix_def)
  with assms have a': "a' = a(''default'' \<mapsto> u\<lparr>u_passwords := u_passwords u @ [sha pw],
      u_flags := filter (\<lambda>f. f \<noteq> ''nopass'') (u_flags u)\<rparr>)"
    by (simp add: setUser_def)
  show ?thesis
    by (auto simp: a' newAcl_def defaultIfNoPass_def checkPassword_def fun_eq_iff)
qed

theorem set_password_enforced_witness:
  "\<exists>a'. setUser id ''default'' ''>pw'' newAcl = Ret a' \<and> defaultIfNoPass a' = None \<and>
     checkPassword id a' ''default'' ''pw'' \<noteq> None \<and> checkPassword id a' ''default'' ''other'' = None"
proof -
  obtain a' where a': "setUser id ''default'' ''>pw'' newAcl = Ret a'"
    by (auto simp: setUser_def CutPrefix_def newAcl_def)
  have u: "newAcl ''default'' = Some \<lparr>u_name = ''default'', u_flags = [''nopass''], u_passwords = []\<rparr>"
    by (simp add: newAcl_def)
  note ok = set_password_enforced [OF a' u]
  then have "defaultIfNoPass a' = None" by (elim conjE)
  moreover have pw: "checkPassword id a' ''default'' p \<noteq> None \<longleftrightarrow> p = ''pw''" for p
    using ok by (simp del: not_None_eq)
  have "checkPassword id a' ''default'' ''pw'' \<noteq> None" "checkPassword id a' ''default'' ''other'' = None"
    using pw [of "''pw''"] pw [of "''other''"] by simp_all
  ultimately show ?thesis using a' by simp
qed

end
