(* ===== verification/PubSub.thy ===== *)
theory PubSub
  imports Store RespWrite
begin

text \<open>
  Publish/subscribe of \<^verbatim>\<open>src/app/pubsub.go\<close>. A connection has at most one \<open>subscriber\<close> object, so a
  subscriber is the number of its connection. Writes to connections are returned as a list of
  (connection, bytes) in the order they are made. Only \<open>subscribe\<close> and \<open>unsubscibe\<close> touch the map.
\<close>

type_synonym connid = nat
type_synonym wire = "(connid \<times> bytes) list"

record pubsub =
  channels :: "string \<rightharpoonup> connid set"

definition newPubSub :: pubsub where "newPubSub = \<lparr>channels = Map.empty\<rparr>"

definition subscribers :: "pubsub \<Rightarrow> string \<Rightarrow> connid set" where
  "subscribers ps channel = (case channels ps channel of None \<Rightarrow> {} | Some S \<Rightarrow> S)"

definition subscribe :: "string \<Rightarrow> connid \<Rightarrow> pubsub \<Rightarrow> pubsub" where
  "subscribe channel sub ps = ps\<lparr>channels := (channels ps)(channel \<mapsto> insert sub (subscribers ps channel))\<rparr>"

definition encodeDeliveryMessage :: "string \<Rightarrow> string \<Rightarrow> bytes" where
  "encodeDeliveryMessage channel message =
     ''*3'' @ crlf @ ''$7'' @ crlf @ ''message'' @ crlf @ bulk channel @ bulk message"

text \<open>\<open>len\<close> of the slice is the reply; \<open>order\<close> is the order of the map iteration.\<close>

definition deliver_message :: "(connid set \<Rightarrow> connid list) \<Rightarrow> string \<Rightarrow> string \<Rightarrow> pubsub \<Rightarrow> nat \<times> wire" where
  "deliver_message order channel message ps =
     (let subs = order (subscribers ps channel)
      in (length subs, map (\<lambda>sub. (sub, encodeDeliveryMessage channel message)) subs))"

definition unsubscibe :: "string \<Rightarrow> connid \<Rightarrow> pubsub \<Rightarrow> nat \<times> pubsub" where
  "unsubscibe channel sub ps =
     (case channels ps channel of
        None \<Rightarrow> (0, ps)
      | Some S \<Rightarrow> (card (S - {sub}), ps\<lparr>channels := (channels ps)(channel \<mapsto> S - {sub})\<rparr>))"

definition encodeSubscribeReply :: "string \<Rightarrow> string \<Rightarrow> nat \<Rightarrow> bytes" where
  "encodeSubscribeReply action nm numSubscribers =
     ''*3'' @ crlf @ bulk action @ bulk nm @ '':'' @ Itoa numSubscribers @ crlf"

section \<open>Who is subscribed\<close>

datatype ps_op = Sub string connid | Unsub string connid

fun ps_apply :: "ps_op \<Rightarrow> pubsub \<Rightarrow> pubsub" where
  "ps_apply (Sub ch c) ps = subscribe ch c ps"
| "ps_apply (Unsub ch c) ps = snd (unsubscibe ch c ps)"

text \<open>The specification: the last operation of a connection on a channel decides.\<close>

fun subscribed_after :: "ps_op list \<Rightarrow> string \<Rightarrow> connid \<Rightarrow> bool" where
  "subscribed_after [] ch c = False"
| "subscribed_after (op # ops) ch c =
     (case op of
        Sub ch' c' \<Rightarrow> if ch' = ch \<and> c' = c then True else subscribed_after ops ch c
      | Unsub ch' c' \<Rightarrow> if ch' = ch \<and> c' = c then False else subscribed_after ops ch c)"

lemma subscribers_subscribe [simp]:
  "subscribers (subscribe ch c ps) ch' = (if ch' = ch then insert c (subscribers ps ch) else subscribers ps ch')"
  by (simp add: subscribe_def subscribers_def)

lemma subscribers_unsubscibe [simp]:
  "subscribers (snd (unsubscibe ch c ps)) ch' = (if ch' = ch then subscribers ps ch - {c} else subscribers ps ch')"
  by (auto simp: unsubscibe_def subscribers_def split: option.splits)

lemma subscribers_fold:
  "subscribers (foldr ps_apply ops newPubSub) ch = {c. subscribed_after ops ch c}"
proof (induction ops)
  case Nil
  then show ?case by (simp add: newPubSub_def subscribers_def)
next
  case (Cons op ops)
  then show ?case by (cases op) auto
qed

lemma finite_subscribers: "finite (subscribers (foldr ps_apply ops newPubSub) ch)"
proof (induction ops)
  case Nil
  then show ?case by (simp add: newPubSub_def subscribers_def)
next
  case (Cons op ops)
  then show ?case by (cases op) auto
qed

section \<open>Properties\<close>

text \<open>C34. PUBLISH reaches exactly the subscribers: after any sequence of SUBSCRIBE and UNSUBSCRIBE
  operations (latest first), the message is written once to every connection whose last operation on the
  channel was a SUBSCRIBE and to no other connection, and the reply is the number of them, whatever
  order the map is walked in.\<close>

theorem publish_reaches_subscribers:
  assumes "ranges order" and "deliver_message order ch msg (foldr ps_apply ops newPubSub) = (n, out)"
  shows "set out = {(c, encodeDeliveryMessage ch msg) | c. subscribed_after ops ch c} \<and>
    distinct (map fst out) \<and> n = length out \<and> n = card {c. subscribed_after ops ch c}"
proof -
  let ?S = "subscribers (foldr ps_apply ops newPubSub) ch"
  have o: "set (order ?S) = ?S" "distinct (order ?S)"
    using assms(1) finite_subscribers [of ops ch] by (auto simp: ranges_def)
  have out: "out = map (\<lambda>sub. (sub, encodeDeliveryMessage ch msg)) (order ?S)" and n: "n = length (order ?S)"
    using assms(2) by (auto simp: deliver_message_def Let_def)
  have "map fst out = order ?S" by (simp add: out o_def)
  moreover have "length (order ?S) = card ?S" using o distinct_card by fastforce
  ultimately show ?thesis using o n by (auto simp: out subscribers_fold)
qed

theorem publish_reaches_subscribers_witness:
  "deliver_message sorted_list_of_set ''news'' ''hi'' (foldr ps_apply [Sub ''news'' 1] newPubSub) =
     (1, [(1, encodeDeliveryMessage ''news'' ''hi'')])"
proof -
  obtain n out where d: "deliver_message sorted_list_of_set ''news'' ''hi'' (foldr ps_apply [Sub ''news'' 1] newPubSub) = (n, out)"
    by fastforce
  from publish_reaches_subscribers [OF ranges_sorted this]
  have "set out = {(1, encodeDeliveryMessage ''news'' ''hi'')}" and "n = 1" and "n = length out"
    by auto
  then have "out = [(1, encodeDeliveryMessage ''news'' ''hi'')]" by (cases out) auto
  with d \<open>n = 1\<close> show ?thesis by simp
qed

end
