(* ===== verification/Commands.thy ===== *)
theory Commands
  imports Streams Bitmaps Geo Server PubSub
begin

text \<open>
  \<open>handleCommands\<close> of \<^verbatim>\<open>src/app/handleCommands.go\<close>: one definition per data command, from its argument
  checks to its reply, then the dispatch on the command name. What the handlers ask of the platform is the
  record \<open>host\<close>: the clock, the Unicode tables, \<open>strconv.ParseFloat\<close> (a value and whether it failed), float
  arithmetic and printing, the order of a map iteration, and \<open>sha256\<close> in hexadecimal.

  A handler answers and gives the new store, or parks its client in BLPOP or XREAD BLOCK, or stops with
  the mutex held (\<open>Stuck\<close>), or panics, which ends the process (\<open>Crash\<close>).
\<close>

record host =
  clock :: time
  uni_upper :: "string \<Rightarrow> string"
  uni_fold :: "string \<Rightarrow> string \<Rightarrow> bool"
  parse_float :: "string \<Rightarrow> float64 \<times> bool"
  floats :: float_ops
  map_order :: "string set \<Rightarrow> string list"
  sha256_hex :: "string \<Rightarrow> string"

datatype outcome =
  Answer bytes store
| ParkPop "string list" chanid int store
| ParkRead "string list" "StreamID list" nat int store
| Stuck chanid
| Crash

definition err :: "string \<Rightarrow> bytes" where "err msg = CHR ''-'' # msg @ crlf"
definition int_reply :: "int \<Rightarrow> bytes" where "int_reply n = CHR '':'' # FormatInt n @ crlf"
definition ok_reply :: bytes where "ok_reply = ''+OK'' @ crlf"
definition null_bulk :: bytes where "null_bulk = ''$-1'' @ crlf"
definition null_array :: bytes where "null_array = ''*-1'' @ crlf"

definition wrong_args :: "string \<Rightarrow> bytes" where
  "wrong_args nm = err (''ERR wrong number of arguments for '' @ [CHR 0x27] @ nm @ [CHR 0x27] @ '' command'')"

definition invalid_args :: "string \<Rightarrow> bytes" where
  "invalid_args nm = err (''ERR invalid number of arguments for '' @ [CHR 0x27] @ nm @ [CHR 0x27])"

definition not_an_integer :: bytes where "not_an_integer = err ''ERR value is not an integer or out of range''"

text \<open>The result of a method that may panic, and that returns an error or a value.\<close>

definition on_ret :: "'a go \<Rightarrow> ('a \<Rightarrow> outcome) \<Rightarrow> outcome" where
  "on_ret m f = (case m of Panic \<Rightarrow> Crash | Ret x \<Rightarrow> f x)"

definition on_val :: "store_error + 'a \<Rightarrow> store \<Rightarrow> ('a \<Rightarrow> bytes) \<Rightarrow> outcome" where
  "on_val r s f = (case r of Inl e \<Rightarrow> Answer (err (Error e)) s | Inr x \<Rightarrow> Answer (f x) s)"

section \<open>Strings and generic commands\<close>

definition cmd_ECHO :: "bytes list \<Rightarrow> store \<Rightarrow> outcome" where
  "cmd_ECHO cmd s = (if length cmd \<noteq> 2 then Answer (wrong_args ''echo'') s else Answer (bulk (cmd ! 1)) s)"

definition cmd_SET :: "host \<Rightarrow> bytes list \<Rightarrow> store \<Rightarrow> outcome" where
  "cmd_SET h cmd s =
     (if length cmd < 3 then Answer (wrong_args ''set'') s
      else if 3 < length cmd then
        (let opts = drop 3 cmd
         in if length opts \<noteq> 2 \<or> ToUpper (uni_upper h) (opts ! 0) \<noteq> ''PX''
            then Answer (err ''ERR syntax error'') s
            else (case ParseInt (opts ! 1) of (ms, e) \<Rightarrow>
                    if e \<noteq> NoErr \<or> ms < 0 then Answer not_an_integer s
                    else Answer ok_reply (Set (cmd ! 1) (cmd ! 2) (clock h + Milliseconds ms) s)))
      else Answer ok_reply (Set (cmd ! 1) (cmd ! 2) zero_time s))"

definition cmd_GET :: "host \<Rightarrow> bytes list \<Rightarrow> store \<Rightarrow> outcome" where
  "cmd_GET h cmd s =
     (if length cmd \<noteq> 2 then Answer (wrong_args ''get'') s
      else case Get (clock h) (cmd ! 1) s of (got, ok) \<Rightarrow>
             if \<not> ok then Answer null_bulk s else Answer (bulk got) s)"

definition cmd_INCR :: "bytes list \<Rightarrow> store \<Rightarrow> outcome" where
  "cmd_INCR cmd s =
     (if length cmd \<noteq> 2 then Answer (wrong_args ''incr'') s
      else case Increment (cmd ! 1) s of (r, s') \<Rightarrow> on_val r s' int_reply)"

definition cmd_TYPE :: "bytes list \<Rightarrow> store \<Rightarrow> outcome" where
  "cmd_TYPE cmd s =
     (if length cmd \<noteq> 2 then Answer (wrong_args ''type'') s
      else case EntryType (cmd ! 1) s of (p, ok) \<Rightarrow>
             if \<not> ok then Answer (''+none'' @ crlf) s else Answer (''+'' @ p @ crlf) s)"

definition cmd_KEYS :: "host \<Rightarrow> bytes list \<Rightarrow> store \<Rightarrow> outcome" where
  "cmd_KEYS h cmd s =
     (if length cmd < 2 then Crash else Answer (bulkString (Keys (map_order h) (cmd ! 1) s)) s)"

definition cmd_INFO :: "config \<Rightarrow> string \<Rightarrow> store \<Rightarrow> outcome" where
  "cmd_INFO cfg replid s =
     Answer (bulk (''# Replication'' @ crlf @ ''role:'' @ role cfg @ crlf @ ''master_replid:'' @ replid @ crlf
                    @ ''master_repl_offset:0'')) s"

definition cmd_CONFIG :: "host \<Rightarrow> config \<Rightarrow> bytes list \<Rightarrow> store \<Rightarrow> outcome" where
  "cmd_CONFIG h cfg cmd s =
     (if length cmd < 3 then Answer (invalid_args ''config'') s
      else if EqualFold (uni_fold h) (cmd ! 1) ''GET'' then
        (let v = cmd ! 2
         in Answer
              (if v = ''dir'' then bulkString [''dir'', cfg_dir cfg]
               else if v = ''dbfilename'' then bulkString [''dbfilename'', dbFilename cfg]
               else if v = ''appenddirname'' then bulkString [''appenddirname'', appenddirname cfg]
               else if v = ''appendonly'' then bulkString [''appendonly'', if appendOnly cfg then ''yes'' else ''no'']
               else if v = ''appendfilename'' then bulkString [''appendfilename'', appendFilename cfg]
               else if v = ''appendfsync'' then bulkString [''appendfsync'', appendFsync cfg]
               else []) s)
      else Answer [] s)"

section \<open>Lists\<close>

definition cmd_RPUSH :: "bytes list \<Rightarrow> store \<Rightarrow> outcome" where
  "cmd_RPUSH cmd s =
     (if length cmd < 3 then Answer (wrong_args ''rpush'') s
      else case RPush (cmd ! 1) (drop 2 cmd) s of
             BlockedOn ch \<Rightarrow> Stuck ch
           | Returns (n, s') \<Rightarrow> Answer (int_reply (int n)) s')"

definition cmd_LPUSH :: "bytes list \<Rightarrow> store \<Rightarrow> outcome" where
  "cmd_LPUSH cmd s =
     (if length cmd < 3 then Answer (wrong_args ''lpush'') s
      else case LPush (cmd ! 1) (drop 2 cmd) s of (n, s') \<Rightarrow> Answer (int_reply (int n)) s')"

definition cmd_LLEN :: "bytes list \<Rightarrow> store \<Rightarrow> outcome" where
  "cmd_LLEN cmd s =
     (if length cmd \<noteq> 2 then Answer (wrong_args ''llen'') s
      else Answer (int_reply (int (LLen (cmd ! 1) s))) s)"

definition cmd_LRANGE :: "bytes list \<Rightarrow> store \<Rightarrow> outcome" where
  "cmd_LRANGE cmd s =
     (if length cmd \<noteq> 4 then Answer (wrong_args ''lrange'') s
      else case Atoi (cmd ! 2) of (start, e1) \<Rightarrow>
        if e1 \<noteq> NoErr then Answer not_an_integer s
        else case Atoi (cmd ! 3) of (stop, e2) \<Rightarrow>
          if e2 \<noteq> NoErr then Answer not_an_integer s
          else
            (let slice = LRange (cmd ! 1) start stop s
             in if slice = [] then Answer (''*0'' @ crlf) s else Answer (writeArray slice) s))"

definition cmd_LPOP :: "bytes list \<Rightarrow> store \<Rightarrow> outcome" where
  "cmd_LPOP cmd s =
     (if length cmd < 2 then Answer (wrong_args ''lpop'') s
      else
        (let withCount = (3 \<le> length cmd);
             (n, e) = (if withCount then Atoi (cmd ! 2) else (1, NoErr))
         in if e \<noteq> NoErr \<or> n < 0 then Answer (err ''ERR value is out of range, must be positive'') s
            else on_ret (LPop (cmd ! 1) n s) (\<lambda>((ans, ok), s').
                   if \<not> ok then Answer (if withCount then null_array else null_bulk) s'
                   else if \<not> withCount then (if ans = [] then Crash else Answer (bulk (ans ! 0)) s')
                   else Answer (writeArray ans) s')))"

text \<open>BLPOP: the reply when the call is served, now or after it was parked.\<close>

definition blpop_reply :: "popped option \<Rightarrow> bytes" where
  "blpop_reply p = (case p of None \<Rightarrow> null_array | Some (k, v) \<Rightarrow> writeArray [k, v])"

text \<open>\<open>time.Duration(secs*float64(time.Second))\<close>; outside the range of \<open>int64\<close> the implementation decides.\<close>

abbreviation f64_second :: float64 where "f64_second \<equiv> 0x41CDCD6500000000"

definition blpop_timeout :: "host \<Rightarrow> float64 \<Rightarrow> int" where
  "blpop_timeout h secs = wrap64 (int (f64_to_uint 63 (fl_impl (floats h)) (fl_mul (floats h) secs f64_second)))"

definition cmd_BLPOP :: "host \<Rightarrow> bytes list \<Rightarrow> store \<Rightarrow> outcome" where
  "cmd_BLPOP h cmd s =
     (if length cmd < 3 then Answer (wrong_args ''blpop'') s
      else case parse_float h (last cmd) of (secs, failed) \<Rightarrow>
        if failed \<or> f64_lt secs f64_zero
        then Answer (err ''ERR timeout is not a float or out of range'') s
        else
          (let keys = butlast (drop 1 cmd)
           in case BLpop_enter keys s of
                Served p s' \<Rightarrow> Answer (blpop_reply (Some p)) s'
              | Parked ch s' \<Rightarrow> ParkPop keys ch (blpop_timeout h secs) s'))"

section \<open>Streams\<close>

definition cmd_XADD :: "host \<Rightarrow> bytes list \<Rightarrow> store \<Rightarrow> outcome" where
  "cmd_XADD h cmd s =
     (if length cmd < 5 \<or> odd (length cmd - 3) then Answer (wrong_args ''xadd'') s
      else on_ret (XAdd (clock h) (cmd ! 1) (cmd ! 2) (drop 3 cmd) s) (\<lambda>(r, s'). on_val r s' bulk))"

definition cmd_XRANGE :: "bytes list \<Rightarrow> store \<Rightarrow> outcome" where
  "cmd_XRANGE cmd s =
     (if length cmd \<noteq> 4 then Answer (wrong_args ''xrange'') s
      else on_ret (XRange (cmd ! 1) (cmd ! 2) (cmd ! 3) s) (\<lambda>r. on_val r s writeStream))"

text \<open>The option loop of XREAD: the BLOCK time, if any, and the arguments after STREAMS.\<close>

fun xread_opts :: "host \<Rightarrow> int option \<Rightarrow> bytes list \<Rightarrow> bytes + (int option \<times> bytes list)" where
  "xread_opts h blk [] = Inl (err ''ERR syntax error'')"
| "xread_opts h blk [a] =
     (if ToUpper (uni_upper h) a = ''STREAMS'' then Inr (blk, []) else Inl (err ''ERR syntax error''))"
| "xread_opts h blk (a # b # rest) =
     (if ToUpper (uni_upper h) a = ''BLOCK'' then
        (case ParseInt b of (ms, e) \<Rightarrow>
           if e \<noteq> NoErr \<or> ms < 0 then Inl (err ''ERR timeout is not an integer or out of range'')
           else xread_opts h (Some (Milliseconds ms)) rest)
      else if ToUpper (uni_upper h) a = ''STREAMS'' then Inr (blk, b # rest)
      else xread_opts h blk (b # rest))"

definition xread_reply :: "streamResult list \<Rightarrow> bytes" where
  "xread_reply results = (if results = [] then null_array else writeXRead results)"

definition cmd_XREAD :: "host \<Rightarrow> bytes list \<Rightarrow> store \<Rightarrow> outcome" where
  "cmd_XREAD h cmd s =
     (case xread_opts h None (drop 1 cmd) of
        Inl e \<Rightarrow> Answer e s
      | Inr (blk, args) \<Rightarrow>
          if args = [] \<or> odd (length args)
          then Answer (err (''ERR Unbalanced XREAD list of streams: for each stream key an ID or ''
                 @ [CHR 0x27] @ ''$'' @ [CHR 0x27] @ '' must be specified.'')) s
          else
            (let half = length args div 2; keys = take half args; rawIDs = drop half args
             in case blk of
                  None \<Rightarrow> on_ret (XRead keys rawIDs s) (\<lambda>results. Answer (xread_reply results) s)
                | Some timeout \<Rightarrow>
                    on_ret (XReadBlock_begin keys rawIDs s) (\<lambda>begun.
                      case begun of
                        None \<Rightarrow> Answer (xread_reply []) s
                      | Some afters \<Rightarrow>
                          on_ret (XReadBlock_check keys afters s) (\<lambda>st.
                            case st of
                              XDone results \<Rightarrow> Answer (xread_reply results) s
                            | XParked n \<Rightarrow> ParkRead keys afters n timeout s))))"

section \<open>Sorted sets\<close>

definition cmd_ZADD :: "host \<Rightarrow> bytes list \<Rightarrow> store \<Rightarrow> outcome" where
  "cmd_ZADD h cmd s =
     (if length cmd < 4 then Answer (invalid_args ''zadd'') s
      else on_ret (ZAdd (cmd ! 1) (fst (parse_float h (cmd ! 2))) (cmd ! 3) s) (\<lambda>(r, s').
             case r of Inl e \<Rightarrow> Answer (err (''ERR '' @ Error e)) s' | Inr n \<Rightarrow> Answer (int_reply n) s'))"

definition cmd_ZRANK :: "bytes list \<Rightarrow> store \<Rightarrow> outcome" where
  "cmd_ZRANK cmd s =
     (if length cmd < 3 then Answer (invalid_args ''zrange'') s
      else on_ret (ZRank (cmd ! 1) (cmd ! 2) s) (\<lambda>rank.
             if rank = - 1 then Answer null_bulk s else Answer (int_reply rank) s))"

definition cmd_ZRANGE :: "bytes list \<Rightarrow> store \<Rightarrow> outcome" where
  "cmd_ZRANGE cmd s =
     (if length cmd < 4 then Answer (invalid_args ''zrange'') s
      else on_ret (ZRange (cmd ! 1) (fst (Atoi (cmd ! 2))) (fst (Atoi (cmd ! 3))) s) (\<lambda>ms.
             Answer (bulkString ms) s))"

definition cmd_ZCARD :: "bytes list \<Rightarrow> store \<Rightarrow> outcome" where
  "cmd_ZCARD cmd s =
     (if length cmd < 2 then Crash else on_ret (ZCard (cmd ! 1) s) (\<lambda>n. Answer (int_reply (int n)) s))"

definition cmd_ZSCORE :: "host \<Rightarrow> bytes list \<Rightarrow> store \<Rightarrow> outcome" where
  "cmd_ZSCORE h cmd s =
     (if length cmd < 3 then Answer (invalid_args ''zscore'') s
      else on_ret (ZScore (FormatFloat (floats h)) (cmd ! 1) (cmd ! 2) s) (\<lambda>sc.
             if sc = [] then Answer null_bulk s else Answer (bulk sc) s))"

definition cmd_ZREM :: "bytes list \<Rightarrow> store \<Rightarrow> outcome" where
  "cmd_ZREM cmd s =
     (if length cmd < 3 then Answer (invalid_args ''zrem'') s
      else on_ret (ZRem (cmd ! 1) (cmd ! 2) s) (\<lambda>(n, s'). Answer (int_reply n) s'))"

section \<open>Bitmaps\<close>

definition cmd_SETBIT :: "host \<Rightarrow> bytes list \<Rightarrow> store \<Rightarrow> outcome" where
  "cmd_SETBIT h cmd s =
     (if length cmd \<noteq> 4 then Answer (wrong_args ''setbit'') s
      else case ParseUint (cmd ! 2) of (offset, e1) \<Rightarrow>
        if e1 \<noteq> NoErr then Answer (err (Error ErrBitOffset)) s
        else case Atoi (cmd ! 3) of (val, e2) \<Rightarrow>
          if e2 \<noteq> NoErr then Answer (err (Error ErrBitValue)) s
          else case SetBit (clock h) (cmd ! 1) offset val s of (r, s') \<Rightarrow> on_val r s' int_reply)"

definition cmd_GETBIT :: "host \<Rightarrow> bytes list \<Rightarrow> store \<Rightarrow> outcome" where
  "cmd_GETBIT h cmd s =
     (if length cmd \<noteq> 3 then Answer (wrong_args ''getbit'') s
      else case ParseUint (cmd ! 2) of (offset, e1) \<Rightarrow>
        if e1 \<noteq> NoErr then Answer (err (Error ErrBitOffset)) s
        else on_val (GetBit (clock h) (cmd ! 1) offset s) s int_reply)"

definition cmd_STRLEN :: "host \<Rightarrow> bytes list \<Rightarrow> store \<Rightarrow> outcome" where
  "cmd_STRLEN h cmd s =
     (if length cmd \<noteq> 2 then Answer (wrong_args ''getbit'') s
      else case Strlen (clock h) (cmd ! 1) s of
             Inl e \<Rightarrow> Answer (err (Error ErrBitOffset)) s
           | Inr n \<Rightarrow> Answer (int_reply n) s)"

definition cmd_BITCOUNT :: "bytes list \<Rightarrow> store \<Rightarrow> outcome" where
  "cmd_BITCOUNT cmd s =
     (if length cmd < 2 then Answer (wrong_args ''getbit'') s
      else if length cmd < 3 then on_ret (CountBit (cmd ! 1) 0 0 s) (\<lambda>n. Answer (int_reply n) s)
      else case Atoi (cmd ! 2) of (start, e1) \<Rightarrow>
        if e1 \<noteq> NoErr then Answer (err (Error ErrBitOffset)) s
        else if length cmd < 4 then Crash
        else case Atoi (cmd ! 3) of (stop, e2) \<Rightarrow>
          if e2 \<noteq> NoErr then Answer (err (Error ErrBitOffset)) s
          else on_ret (CountBit (cmd ! 1) start stop s) (\<lambda>n. Answer (int_reply n) s))"

definition cmd_BITOP :: "bytes list \<Rightarrow> store \<Rightarrow> outcome" where
  "cmd_BITOP cmd s =
     (if length cmd < 2 then Crash
      else if cmd ! 1 = ''AND'' then
        (if length cmd < 5 then Crash
         else case BitOpAnd (cmd ! 2) (cmd ! 3) (cmd ! 4) s of (n, s') \<Rightarrow> Answer (int_reply (int n)) s')
      else if cmd ! 1 = ''OR'' then
        (if length cmd < 5 then Crash
         else case BitOpOr (cmd ! 2) (cmd ! 3) (cmd ! 4) s of (n, s') \<Rightarrow> Answer (int_reply (int n)) s')
      else Answer [] s)"

section \<open>Geo\<close>

definition cmd_GEOADD :: "host \<Rightarrow> bytes list \<Rightarrow> store \<Rightarrow> outcome" where
  "cmd_GEOADD h cmd s =
     (if length cmd < 5 then Answer (invalid_args ''geoadd'') s
      else on_ret (GeoAdd (floats h) (cmd ! 1) (fst (parse_float h (cmd ! 2))) (fst (parse_float h (cmd ! 3)))
             (cmd ! 4) s) (\<lambda>(r, s'). on_val r s' int_reply))"

definition cmd_GEOPOS :: "host \<Rightarrow> bytes list \<Rightarrow> store \<Rightarrow> outcome" where
  "cmd_GEOPOS h cmd s =
     (if length cmd < 3 then Answer (wrong_args ''geopos'') s
      else
        (let members = drop 2 cmd
         in on_ret (GeoExists (floats h) (clock h) (cmd ! 1) members s) (\<lambda>r.
              on_val r s (\<lambda>found. array_header (length members) @
                concat (map (\<lambda>loc. if loc = [] then null_array
                                   else ''*2'' @ crlf @ bulk (loc ! 0) @ bulk (loc ! 1)) found)))))"

definition cmd_GEODIST :: "host \<Rightarrow> bytes list \<Rightarrow> store \<Rightarrow> outcome" where
  "cmd_GEODIST h cmd s =
     (if length cmd < 4 then Answer (wrong_args ''geopos'') s
      else on_ret (GeoDist (floats h) (cmd ! 1) (cmd ! 2) (cmd ! 3) s) (\<lambda>d. Answer (bulk d) s))"

definition cmd_GEOSEARCH :: "host \<Rightarrow> bytes list \<Rightarrow> store \<Rightarrow> outcome" where
  "cmd_GEOSEARCH h cmd s =
     (if length cmd < 8 then Answer (wrong_args ''geopos'') s
      else
        (let lonlat = (cmd ! 2 = ''FROMLONLAT'');
             num = (\<lambda>i. fst (parse_float h (cmd ! i)));
             long = (if lonlat then num 3 else f64_zero);
             lat = (if lonlat then num 4 else f64_zero);
             byRadius = (if lonlat \<and> cmd ! 5 = ''BYRADIUS'' then num 6 else f64_zero)
         in on_ret (GeoSearch (floats h) (map_order h) (cmd ! 1) long lat byRadius s) (\<lambda>locs.
              Answer (array_header (length locs) @ concat (map bulk locs)) s)))"

section \<open>Users\<close>

definition cmd_ACL :: "host \<Rightarrow> bytes list \<Rightarrow> acl \<Rightarrow> (bytes \<times> acl) go" where
  "cmd_ACL h cmd a =
     (if length cmd < 2 then Panic
      else
        (let sub = ToUpper (uni_upper h) (cmd ! 1)
         in if sub = ''WHOAMI'' then
              (case getUser a ''default'' of None \<Rightarrow> Panic | Some u \<Rightarrow> Ret (bulk (u_name u), a))
            else if sub = ''GETUSER'' then
              (case getUser a ''default'' of
                 None \<Rightarrow> Panic
               | Some u \<Rightarrow>
                   Ret (''*4'' @ crlf @ bulk ''flags'' @ array_header (length (u_flags u)) @ concat (map bulk (u_flags u))
                        @ bulk ''passwords'' @ array_header (length (u_passwords u))
                        @ concat (map bulk (u_passwords u)), a))
            else if sub = ''SETUSER'' then
              (if length cmd < 4 then Panic
               else go_bind (setUser (sha256_hex h) ''default'' (cmd ! 3) a) (\<lambda>a'. Ret (ok_reply, a')))
            else Ret ([], a)))"

section \<open>Dispatch\<close>

definition unknown_command :: "bytes \<Rightarrow> bytes" where
  "unknown_command nm = err (''ERR unknown command '' @ [CHR 0x27] @ nm @ [CHR 0x27])"

text \<open>The cases of the switch on the upper-case command name, except ACL, which works on the users.\<close>

definition command_table :: "host \<Rightarrow> config \<Rightarrow> string \<Rightarrow> (string \<times> (bytes list \<Rightarrow> store \<Rightarrow> outcome)) list" where
  "command_table h cfg replid =
     [(''PING'', \<lambda>cmd s. Answer (''+PONG'' @ crlf) s), (''ECHO'', cmd_ECHO), (''SET'', cmd_SET h),
      (''GET'', cmd_GET h), (''INCR'', cmd_INCR), (''TYPE'', cmd_TYPE), (''RPUSH'', cmd_RPUSH),
      (''LPUSH'', cmd_LPUSH), (''LLEN'', cmd_LLEN), (''LRANGE'', cmd_LRANGE), (''LPOP'', cmd_LPOP),
      (''BLPOP'', cmd_BLPOP h), (''XADD'', cmd_XADD h), (''XRANGE'', cmd_XRANGE), (''XREAD'', cmd_XREAD h),
      (''INFO'', \<lambda>cmd s. cmd_INFO cfg replid s), (''KEYS'', cmd_KEYS h), (''CONFIG'', cmd_CONFIG h cfg),
      (''ZADD'', cmd_ZADD h), (''ZRANK'', cmd_ZRANK), (''ZRANGE'', cmd_ZRANGE), (''ZCARD'', cmd_ZCARD),
      (''ZSCORE'', cmd_ZSCORE h), (''ZREM'', cmd_ZREM), (''SETBIT'', cmd_SETBIT h), (''GETBIT'', cmd_GETBIT h),
      (''STRLEN'', cmd_STRLEN h), (''BITCOUNT'', cmd_BITCOUNT), (''BITOP'', cmd_BITOP),
      (''GEOADD'', cmd_GEOADD h), (''GEOPOS'', cmd_GEOPOS h), (''GEODIST'', cmd_GEODIST h),
      (''GEOSEARCH'', cmd_GEOSEARCH h)]"

definition handleCommands :: "host \<Rightarrow> config \<Rightarrow> string \<Rightarrow> bytes list \<Rightarrow> store \<times> acl \<Rightarrow> outcome \<times> acl" where
  "handleCommands h cfg replid cmd sa =
     (case sa of (s, a) \<Rightarrow>
        if cmd = [] then (Answer [] s, a)
        else
          (let commandName = ToUpper (uni_upper h) (cmd ! 0)
           in if commandName = ''ACL''
              then (case cmd_ACL h cmd a of Panic \<Rightarrow> (Crash, a) | Ret (reply, a') \<Rightarrow> (Answer reply s, a'))
              else (case map_of (command_table h cfg replid) commandName of
                      None \<Rightarrow> (Answer (unknown_command (cmd ! 0)) s, a)
                    | Some run \<Rightarrow> (run cmd s, a))))"

end
