(* ===== verification/CommandProps.thy ===== *)
theory CommandProps
  imports Commands
begin

text \<open>
  What holds of \<open>handleCommands\<close> whatever the command: the keyspace stays well formed, the reply is
  exactly one RESP value, and only some commands can panic. Each is shown once per entry of the command
  table and lifted through the dispatch.
\<close>

section \<open>Outcomes\<close>

text \<open>A property of the reply and one of the store an outcome carries.\<close>

fun outcome_all :: "(bytes \<Rightarrow> bool) \<Rightarrow> (store \<Rightarrow> bool) \<Rightarrow> outcome \<Rightarrow> bool" where
  "outcome_all R S (Answer r s) \<longleftrightarrow> R r \<and> S s"
| "outcome_all R S (ParkPop keys ch timeout s) \<longleftrightarrow> S s"
| "outcome_all R S (ParkRead keys afters n timeout s) \<longleftrightarrow> S s"
| "outcome_all R S (Stuck ch) \<longleftrightarrow> True"
| "outcome_all R S Crash \<longleftrightarrow> True"

lemma outcome_all_on_ret [intro]:
  "(\<And>x. m = Ret x \<Longrightarrow> outcome_all R S (f x)) \<Longrightarrow> outcome_all R S (on_ret m f)"
  by (cases m) (auto simp: on_ret_def)

lemma outcome_all_on_val:
  "outcome_all R S (on_val r s f) \<longleftrightarrow>
     (\<forall>e. r = Inl e \<longrightarrow> R (err (Error e))) \<and> (\<forall>x. r = Inr x \<longrightarrow> R (f x)) \<and> S s"
  by (auto simp: on_val_def split: sum.splits)

lemma on_ret_Crash [simp]: "on_ret m f = Crash \<longleftrightarrow> m = Panic \<or> (\<exists>x. m = Ret x \<and> f x = Crash)"
  by (cases m) (auto simp: on_ret_def)

lemma on_val_Crash [simp]: "on_val r s f \<noteq> Crash"
  by (simp add: on_val_def split: sum.splits)

section \<open>Well-formed stores\<close>

text \<open>
  The kinds an entry can have (a list has none), and a store all of whose entries are well formed.
\<close>

definition wf_entry :: "entry \<Rightarrow> bool" where
  "wf_entry e \<longleftrightarrow> wf_stream_entry e \<and> wf_zset_entry e \<and> e_kind e \<in> {[], ''string'', ''stream'', ''zset''}"

definition wf_store :: "store \<Rightarrow> bool" where
  "wf_store s \<longleftrightarrow> finite (dom (data s)) \<and> (\<forall>k e. data s k = Some e \<longrightarrow> wf_entry e)"

lemma wf_storeD:
  assumes "wf_store s"
  shows "wf_streams s" and "wf_zsets s" and "finite (dom (data s))" and "data s k = Some e \<Longrightarrow> wf_entry e"
  using assms by (auto simp: wf_store_def wf_entry_def wf_streams_def wf_zsets_def)

lemma wf_store_newStore: "wf_store newStore"
  by (simp add: wf_store_def newStore_def)

lemma wf_entry_zero: "wf_entry zero_entry"
  by (simp add: wf_entry_def wf_stream_entry_def wf_zset_entry_def zero_entry_def)

lemma wf_entry_at: "wf_store s \<Longrightarrow> wf_entry (entry_at s k)"
  by (auto simp: entry_at_def wf_entry_zero dest: wf_storeD(4) split: option.splits)

text \<open>An operation that changes the data of one key to a well-formed entry, or removes it.\<close>

lemma wf_store_update:
  assumes "wf_store s" and "\<And>k. k \<noteq> key \<Longrightarrow> data s' k = data s k" and "\<And>e. data s' key = Some e \<Longrightarrow> wf_entry e"
  shows "wf_store s'"
proof -
  have "dom (data s') \<subseteq> insert key (dom (data s))" using assms(2) by force
  then have "finite (dom (data s'))" using wf_storeD(3) [OF assms(1)] finite_subset by blast
  moreover have "wf_entry e" if "data s' k = Some e" for k e
    using assms that wf_storeD(4) [OF assms(1)] by (cases "k = key") auto
  ultimately show ?thesis by (simp add: wf_store_def)
qed

lemma wf_store_same_data: "data s' = data s \<Longrightarrow> wf_store s' \<longleftrightarrow> wf_store s"
  by (simp add: wf_store_def)

lemma wf_entry_fields:
  "wf_entry (e\<lparr>e_list := l\<rparr>) \<longleftrightarrow> wf_entry e"
  "wf_entry (e\<lparr>e_expiresAt := t\<rparr>) \<longleftrightarrow> wf_entry e"
  "wf_entry (e\<lparr>e_value := v\<rparr>) \<longleftrightarrow> wf_entry e"
  "wf_entry e \<Longrightarrow> wf_entry (e\<lparr>e_kind := ''string''\<rparr>)"
  by (simp_all add: wf_entry_def wf_stream_entry_def wf_zset_entry_def)

text \<open>Every operation of the store keeps it well formed.\<close>

lemma wf_put:
  "wf_store s \<Longrightarrow> wf_entry e \<Longrightarrow> wf_store (s\<lparr>data := (data s)(key \<mapsto> e)\<rparr>)"
  by (rule wf_store_update [where key = key]) auto

lemma wf_delete: "wf_store s \<Longrightarrow> wf_store (s\<lparr>data := (data s)(key := None)\<rparr>)"
  by (rule wf_store_update [where key = key]) auto

lemma wf_mark [simp]: "wf_store (markWatchersLocked key s) \<longleftrightarrow> wf_store s"
  by (simp add: wf_store_def)

lemma wf_Set: "wf_store s \<Longrightarrow> wf_store (Set key v t s)"
  unfolding Set_def Let_def
  by (rule wf_put) (simp_all add: wf_entry_def wf_stream_entry_def wf_zset_entry_def zero_entry_def)

lemma wf_Increment: "wf_store s \<Longrightarrow> Increment key s = (r, s') \<Longrightarrow> wf_store s'"
  using wf_entry_at [of s key]
  by (auto simp: Increment_def Let_def wf_put wf_entry_fields split: if_splits prod.splits)

lemma wf_SetBit: "wf_store s \<Longrightarrow> SetBit now key off v s = (r, s') \<Longrightarrow> wf_store s'"
  using wf_entry_at [of s key] wf_put [of "markWatchersLocked key s"]
  by (auto simp: SetBit_def Let_def wf_entry_fields wf_entry_zero split: if_splits prod.splits)

lemma wf_bit_op: "wf_store s \<Longrightarrow> bit_op f dest k1 k2 s = (n, s') \<Longrightarrow> wf_store s'"
  using wf_put [of s "zero_entry\<lparr>e_kind := ''string'', e_value := v\<rparr>" dest for v]
  by (auto simp: bit_op_def Let_def wf_delete wf_entry_fields wf_entry_zero split: if_splits)

lemma rpush_loop_data: "rpush_loop key vs lst n s = Returns (lst', n', s') \<Longrightarrow> data s' = data s"
  by (induction key vs lst n s rule: rpush_loop.induct)
    (auto simp: chan_send_def split: list.splits option.splits if_splits)

lemma wf_RPush:
  assumes "wf_store s" and "RPush key vs s = Returns (n, s')"
  shows "wf_store s'"
proof -
  from assms(2) obtain lst m s1 where l: "rpush_loop key vs (e_list (entry_at s key)) 0 s = Returns (lst, m, s1)"
    and s': "s' = s1\<lparr>data := (data s1)(key \<mapsto> (entry_at s key)\<lparr>e_list := lst\<rparr>)\<rparr>"
    by (auto simp: RPush_def Let_def split: sync.splits prod.splits)
  have "wf_store s1" using assms(1) rpush_loop_data [OF l] wf_store_same_data by blast
  then show ?thesis unfolding s' by (rule wf_put) (simp add: wf_entry_fields wf_entry_at assms(1))
qed

lemma wf_LPush: "wf_store s \<Longrightarrow> LPush key vs s = (n, s') \<Longrightarrow> wf_store s'"
  using wf_entry_at [of s key] by (auto simp: LPush_def Let_def wf_put wf_entry_fields)

lemma wf_LPop: "wf_store s \<Longrightarrow> LPop key n s = Ret (r, s') \<Longrightarrow> wf_store s'"
  by (auto simp: LPop_def wf_put wf_entry_fields wf_storeD(4) split: option.splits if_splits)

lemma wf_blpop_scan: "wf_store s \<Longrightarrow> blpop_scan ks s = Some (p, s') \<Longrightarrow> wf_store s'"
  by (induction ks) (auto simp: wf_delete wf_put wf_entry_fields wf_entry_at split: list.splits if_splits)

lemma data_register [simp]: "data (fold (register_waiter ch) ks s) = data s"
  by (induction ks arbitrary: s) (simp_all add: register_waiter_def)

lemma wf_BLpop_enter:
  "wf_store s \<Longrightarrow> BLpop_enter ks s = Served p s' \<Longrightarrow> wf_store s'"
  "wf_store s \<Longrightarrow> BLpop_enter ks s = Parked ch s' \<Longrightarrow> wf_store s'"
  by (auto simp: BLpop_enter_def Let_def wf_store_def [of "fold _ _ _"] wf_storeD
      split: option.splits prod.splits intro: wf_blpop_scan)

lemma wf_XAdd:
  assumes "wf_store s" and "XAdd now key rawID flds s = Ret (r, s')"
  shows "wf_store s'"
proof (rule XAdd_cases [of s key now rawID flds])
  show "\<And>e. data s key = Some e \<Longrightarrow> wf_stream_entry e" using wf_storeD(1) [OF assms(1)] wf_streamsD by blast
next
  fix x assume "XAdd now key rawID flds s = Ret (Inl x, s)"
  then show ?thesis using assms by simp
next
  fix st :: Stream and e :: entry and i
  let ?st = "st\<lparr>Entries := Entries st @ [\<lparr>ID = i, SFields = flds\<rparr>], LastID := i\<rparr>"
  assume eq: "XAdd now key rawID flds s = Ret (Inr (StreamID_String i),
      s\<lparr>data := (data s)(key \<mapsto> e\<lparr>e_stream := Some ?st\<rparr>), notify := notify s + 1\<rparr>)"
    and st: "stream_inv st" "LastID st < i" "e_kind e = ''stream''"
    and e: "data s key = Some e \<or> data s key = None \<and> st = zero_stream
         \<and> e = zero_entry\<lparr>e_kind := ''stream'', e_stream := Some zero_stream\<rparr>"
  have "wf_zset_entry e"
    using e wf_storeD(2) [OF assms(1)] by (auto simp: wf_zsets_def wf_zset_entry_def zero_entry_def)
  then have "wf_entry (e\<lparr>e_stream := Some ?st\<rparr>)"
    using st stream_inv_append [OF st(1), of i flds]
    by (simp add: wf_entry_def wf_stream_entry_def wf_zset_entry_def isValidStreamId_iff)
  then show ?thesis using assms eq by (auto intro!: wf_store_update [OF assms(1), of key])
qed

lemma wf_ZAdd:
  assumes "wf_store s" and "ZAdd key sc m s = Ret (r, s')" and "\<not> f64_isNaN sc"
  shows "wf_store s'"
proof (cases "\<forall>e. data s key = Some e \<longrightarrow> e_kind e = ''zset''")
  case True
  with ZAdd_ok [of s key sc m] wf_storeD(2) [OF assms(1)] assms(2,3) obtain e' where
    "wf_zsets s'" "\<And>k. k \<noteq> key \<Longrightarrow> data s' k = data s k" "data s' key = Some e'" "e_kind e' = ''zset''"
    by auto
  then show ?thesis
    by (intro wf_store_update [OF assms(1), of key]) (auto simp: wf_entry_def wf_stream_entry_def wf_zsets_def)
next
  case False
  then show ?thesis using assms by (auto simp: ZAdd_def Let_def entry_at_def)
qed

lemma wf_GeoAdd:
  "wf_store s \<Longrightarrow> GeoAdd fl key lon lat m s = Ret (r, s') \<Longrightarrow> wf_store s'"
  using wf_ZAdd [of s key _ m r s'] f64_of_uint64_real [of "unat (encode fl lat lon)"]
    unsigned_less [of "encode fl lat lon", where ?'a = nat]
  by (auto simp: GeoAdd_def split: if_splits)

lemma wf_ZRem:
  assumes "wf_store s" and "ZRem key m s = Ret (n, s')"
  shows "wf_store s'"
proof -
  consider "s' = s" | e z where "data s key = Some e" "e_zset e = Some z"
    using assms(2) by (auto simp: ZRem_def split: option.splits)
  then show ?thesis
  proof cases
    case 1
    then show ?thesis using assms(1) by simp
  next
    case (2 e z)
    from wf_storeD(2) [OF assms(1)] 2 show ?thesis
    proof (cases rule: ZRem_cases [where m = m])
      case 1
      then show ?thesis using assms by simp
    next
      case (2 z')
      moreover have "wf_entry (e\<lparr>e_zset := Some z'\<rparr>)"
        using \<open>zset_inv z'\<close> wf_storeD(4) [OF assms(1) \<open>data s key = Some e\<close>]
        by (simp add: wf_entry_def wf_stream_entry_def wf_zset_entry_def)
      ultimately show ?thesis using assms by (simp add: put_zset_def wf_put)
    qed
  qed
qed

section \<open>Replies\<close>

text \<open>
  The grammar of RESP replies: \<open>resp_values n x\<close> says that \<open>x\<close> is exactly \<open>n\<close> complete values. An array
  header is followed by as many values as it announces.
\<close>

definition plain_text :: "string \<Rightarrow> bool" where "plain_text t \<longleftrightarrow> CR \<notin> set t \<and> LF \<notin> set t"

inductive resp_values :: "nat \<Rightarrow> bytes \<Rightarrow> bool" where
  none: "resp_values 0 []"
| simple: "plain_text t \<Longrightarrow> resp_values n r \<Longrightarrow> resp_values (Suc n) (CHR ''+'' # t @ crlf @ r)"
| error: "plain_text t \<Longrightarrow> resp_values n r \<Longrightarrow> resp_values (Suc n) (CHR ''-'' # t @ crlf @ r)"
| integer: "resp_values n r \<Longrightarrow> resp_values (Suc n) (CHR '':'' # FormatInt i @ crlf @ r)"
| bulk: "resp_values n r \<Longrightarrow> resp_values (Suc n) (bulk t @ r)"
| null_bulk: "resp_values n r \<Longrightarrow> resp_values (Suc n) (null_bulk @ r)"
| null_array: "resp_values n r \<Longrightarrow> resp_values (Suc n) (null_array @ r)"
| array: "resp_values (k + n) r \<Longrightarrow> resp_values (Suc n) (array_header k @ r)"

lemma resp_values_append: "resp_values n x \<Longrightarrow> resp_values m y \<Longrightarrow> resp_values (n + m) (x @ y)"
proof (induction rule: resp_values.induct)
  case (array k n r)
  then have "resp_values (k + (n + m)) (r @ y)" by (simp add: add.assoc)
  from resp_values.array [OF this] show ?case by simp
qed (auto intro: resp_values.intros)

lemma resp_values_concat:
  "(\<And>x. x \<in> set xs \<Longrightarrow> resp_values 1 (f x)) \<Longrightarrow> resp_values (length xs) (concat (map f xs))"
proof (induction xs)
  case (Cons a xs)
  then have "resp_values (1 + length xs) (f a @ concat (map f xs))" by (intro resp_values_append) simp_all
  then show ?case by simp
qed (simp add: resp_values.none)

lemma resp_values_array:
  "(\<And>x. x \<in> set xs \<Longrightarrow> resp_values 1 (f x)) \<Longrightarrow> length xs = n \<Longrightarrow>
     resp_values (Suc 0) (array_header n @ concat (map f xs))"
  using resp_values.array [of n 0] resp_values_concat [of xs f] by simp

lemma resp_one [simp]:
  "plain_text t \<Longrightarrow> resp_values (Suc 0) (err t)"
  "plain_text t \<Longrightarrow> resp_values (Suc 0) (CHR ''+'' # t @ crlf)"
  "resp_values (Suc 0) (int_reply i)" "resp_values (Suc 0) (bulk t)"
  "resp_values (Suc 0) null_bulk" "resp_values (Suc 0) null_array"
  using resp_values.none
    resp_values.error [of t 0 "[]"] resp_values.simple [of t 0 "[]"] resp_values.integer [of 0 "[]" i]
    resp_values.bulk [of 0 "[]" t] resp_values.null_bulk [of 0 "[]"] resp_values.null_array [of 0 "[]"]
  by (simp_all add: err_def int_reply_def)

lemma digit_char_zero: "digit_char 0 = CHR ''0''"
  by code_simp

lemma resp_texts:
  "resp_values (Suc 0) ok_reply" "resp_values (Suc 0) (''+PONG'' @ crlf)" "resp_values (Suc 0) (''+none'' @ crlf)"
  "resp_values (Suc 0) not_an_integer"
  "resp_values (Suc 0) (''*0'' @ crlf)"
  using resp_one(2) [of "''OK''"] resp_one(2) [of "''PONG''"] resp_one(2) [of "''none''"]
    resp_values_array [of "[]" bulk 0] digit_char_zero
  by (simp_all add: ok_reply_def plain_text_def not_an_integer_def CR_def LF_def array_header_def Itoa_def
      FormatInt_def FormatNat.simps)

lemmas resp_texts_cons [simp] = resp_texts [simplified]

lemma plain_append [simp]: "plain_text (x @ y) \<longleftrightarrow> plain_text x \<and> plain_text y"
  by (auto simp: plain_text_def)

lemma resp_arg_errors:
  "plain_text nm \<Longrightarrow> resp_values (Suc 0) (wrong_args nm)" "plain_text nm \<Longrightarrow> resp_values (Suc 0) (invalid_args nm)"
  by (simp_all add: wrong_args_def invalid_args_def, simp_all add: plain_text_def CR_def LF_def)

lemma resp_writers [simp]:
  "resp_values (Suc 0) (bulkString xs)" "resp_values (Suc 0) (writeArray xs)"
  "resp_values (Suc 0) (writeStream es)" "resp_values (Suc 0) (writeXRead rs)"
proof -
  show "resp_values (Suc 0) (bulkString xs)" "resp_values (Suc 0) (writeArray xs)"
    by (simp_all add: encoders_concat resp_values_array)
  have entry: "resp_values 1 (write_entry e)" for e
    unfolding write_entry_def
    using resp_values.array [of 2 0] resp_values.bulk [of 1] resp_values_array [of "SFields e" bulk]
    by (simp add: numeral_2_eq_2)
  then show "resp_values (Suc 0) (writeStream es)" by (simp add: writeStream_def resp_values_array)
  show "resp_values (Suc 0) (writeXRead rs)"
    unfolding writeXRead_def
  proof (rule resp_values_array)
    fix r
    show "resp_values 1 (array_header 2 @ bulk (sr_key r) @ array_header (length (sr_entries r))
        @ concat (map write_entry (sr_entries r)))"
      using resp_values.array [of 2 0] resp_values.bulk [of 1] resp_values_array [of "sr_entries r" write_entry] entry
      by (simp add: numeral_2_eq_2)
  qed simp
qed

lemma resp_store_error:
  "(\<And>pair. e = ErrGeo pair \<Longrightarrow> plain_text pair) \<Longrightarrow> resp_values (Suc 0) (err (Error e))"
  by (cases e) (auto simp: plain_text_def CR_def LF_def)

section \<open>Each command\<close>

text \<open>What the platform prints into an error reply has no line break.\<close>

definition plain_host :: "host \<Rightarrow> bool" where
  "plain_host h \<longleftrightarrow> (\<forall>x. plain_text (fmt_f (floats h) x))"

abbreviation answers :: "outcome \<Rightarrow> bool" where "answers \<equiv> outcome_all (resp_values (Suc 0)) wf_store"
abbreviation answers_or_silent :: "outcome \<Rightarrow> bool" where
  "answers_or_silent \<equiv> outcome_all (\<lambda>r. resp_values (Suc 0) r \<or> r = []) wf_store"

lemma plain_lit [simp]:
  "plain_text []" "plain_text (c # cs) \<longleftrightarrow> c \<noteq> CR \<and> c \<noteq> LF \<and> plain_text cs"
  by (auto simp: plain_text_def)

lemmas char_neq = CR_def LF_def

lemma ZAdd_error: "ZAdd key sc m s = Ret (Inl e, s') \<Longrightarrow> e = ErrWrongType"
  by (auto simp: ZAdd_def Let_def go_bind_def split: if_splits option.splits go.splits)

lemma geo_error_plain:
  assumes "plain_host h" and "GeoAdd (floats h) key lon lat m s = Ret (Inl e, s')"
  shows "resp_values (Suc 0) (err (Error e))"
  using assms
  by (intro resp_store_error) (auto simp: GeoAdd_def plain_host_def char_neq dest: ZAdd_error split: if_splits)

lemma answers_strings:
  assumes "wf_store s"
  shows "answers (cmd_ECHO cmd s)" "answers (cmd_SET h cmd s)" "answers (cmd_GET h cmd s)"
    "answers (cmd_INCR cmd s)" "answers (cmd_TYPE cmd s)" "answers (cmd_KEYS h cmd s)"
    "answers (cmd_INFO cfg replid s)" "answers_or_silent (cmd_CONFIG h cfg cmd s)"
proof -
  note simps = resp_arg_errors char_neq assms
  show "answers (cmd_ECHO cmd s)" by (simp add: cmd_ECHO_def simps)
  show "answers (cmd_SET h cmd s)" by (simp add: cmd_SET_def simps wf_Set Let_def split: prod.splits)
  show "answers (cmd_GET h cmd s)" by (simp add: cmd_GET_def simps split: prod.splits)
  show "answers (cmd_INCR cmd s)"
    using wf_Increment [OF assms, of "cmd ! 1"]
    by (auto simp: cmd_INCR_def simps outcome_all_on_val Increment_def Let_def intro!: resp_store_error
        split: prod.splits if_splits)
  have "plain_text (e_kind e)" if "data s k = Some e" for k e
    using wf_storeD(4) [OF assms that] by (auto simp: wf_entry_def char_neq)
  then show "answers (cmd_TYPE cmd s)"
    by (auto simp: cmd_TYPE_def EntryType_def simps split: prod.splits option.splits)
  show "answers (cmd_KEYS h cmd s)" by (simp add: cmd_KEYS_def simps)
  show "answers (cmd_INFO cfg replid s)" by (simp add: cmd_INFO_def simps)
  show "answers_or_silent (cmd_CONFIG h cfg cmd s)" by (simp add: cmd_CONFIG_def simps Let_def)
qed

lemma answers_lists:
  assumes "wf_store s"
  shows "answers (cmd_RPUSH cmd s)" "answers (cmd_LPUSH cmd s)" "answers (cmd_LLEN cmd s)"
    "answers (cmd_LRANGE cmd s)" "answers (cmd_LPOP cmd s)" "answers (cmd_BLPOP h cmd s)"
proof -
  note simps = resp_arg_errors char_neq assms
  show "answers (cmd_RPUSH cmd s)"
    using wf_RPush [OF assms] by (auto simp: cmd_RPUSH_def simps split: sync.splits)
  show "answers (cmd_LPUSH cmd s)"
    using wf_LPush [OF assms] by (auto simp: cmd_LPUSH_def simps split: prod.splits)
  show "answers (cmd_LLEN cmd s)" by (simp add: cmd_LLEN_def simps)
  show "answers (cmd_LRANGE cmd s)"
    using resp_texts(5) by (simp add: cmd_LRANGE_def simps Let_def split: prod.splits)
  show "answers (cmd_LPOP cmd s)"
    using wf_LPop [OF assms]
    by (auto simp: cmd_LPOP_def simps Let_def intro!: outcome_all_on_ret split: prod.splits)
  show "answers (cmd_BLPOP h cmd s)"
    using wf_BLpop_enter [OF assms]
    by (auto simp: cmd_BLPOP_def blpop_reply_def simps Let_def split: prod.splits blpop_entry.splits)
qed

lemma resp_quote [simp]: "CR \<noteq> CHR 0x27" "LF \<noteq> CHR 0x27"
  by (simp_all add: char_neq)

lemma answers_streams:
  assumes "wf_store s"
  shows "answers (cmd_XADD h cmd s)" "answers (cmd_XRANGE cmd s)" "answers (cmd_XREAD h cmd s)"
proof -
  note simps = resp_arg_errors char_neq assms
  have bad: "resp_values (Suc 0) (err (Error e))" if "XAdd t k i f s = Ret (Inl e, s')" for e t k i f s'
    using that by (intro resp_store_error) (auto simp: XAdd_def xadd_id_def parseID_def Let_def split: if_splits option.splits sum.splits prod.splits)
  show "answers (cmd_XADD h cmd s)"
    using wf_XAdd [OF assms] bad
    by (auto simp: cmd_XADD_def simps outcome_all_on_val intro!: outcome_all_on_ret)
  have bad: "resp_values (Suc 0) (err (Error e))" if "XRange k a b s = Ret (Inl e)" for e k a b
    using that by (intro resp_store_error) (auto simp: XRange_def parseID_def Let_def split: if_splits option.splits sum.splits prod.splits)
  show "answers (cmd_XRANGE cmd s)"
    using bad
    by (auto simp: cmd_XRANGE_def simps outcome_all_on_val intro!: outcome_all_on_ret)
  have opts: "resp_values (Suc 0) e" if "xread_opts h blk args = Inl e" for blk args e
    using that
    by (induction h blk args rule: xread_opts.induct) (auto simp: char_neq split: if_splits prod.splits)
  show "answers (cmd_XREAD h cmd s)"
    using opts [of None "drop 1 cmd"]
    by (auto simp: cmd_XREAD_def xread_reply_def simps Let_def intro!: outcome_all_on_ret
        split: sum.splits option.splits xread_state.splits)
qed

lemma answers_zsets:
  assumes "wf_store s"
  shows "4 \<le> length cmd \<longrightarrow> \<not> f64_isNaN (fst (parse_float h (cmd ! 2))) \<Longrightarrow> answers (cmd_ZADD h cmd s)"
    "answers (cmd_ZRANK cmd s)" "answers (cmd_ZRANGE cmd s)"
    "answers (cmd_ZCARD cmd s)" "answers (cmd_ZSCORE h cmd s)" "answers (cmd_ZREM cmd s)"
proof -
  note simps = resp_arg_errors char_neq assms
  show "answers (cmd_ZADD h cmd s)" if "4 \<le> length cmd \<longrightarrow> \<not> f64_isNaN (fst (parse_float h (cmd ! 2)))"
    using that wf_ZAdd [OF assms]
    by (auto simp: cmd_ZADD_def simps intro!: outcome_all_on_ret split: sum.splits dest!: ZAdd_error)
  show "answers (cmd_ZRANK cmd s)" by (auto simp: cmd_ZRANK_def simps intro!: outcome_all_on_ret)
  show "answers (cmd_ZRANGE cmd s)" by (auto simp: cmd_ZRANGE_def simps intro!: outcome_all_on_ret)
  show "answers (cmd_ZCARD cmd s)" by (auto simp: cmd_ZCARD_def simps intro!: outcome_all_on_ret)
  show "answers (cmd_ZSCORE h cmd s)" by (auto simp: cmd_ZSCORE_def simps intro!: outcome_all_on_ret)
  show "answers (cmd_ZREM cmd s)"
    using wf_ZRem [OF assms] by (auto simp: cmd_ZREM_def simps intro!: outcome_all_on_ret)
qed

lemma answers_bitmaps:
  assumes "wf_store s"
  shows "answers (cmd_SETBIT h cmd s)" "answers (cmd_GETBIT h cmd s)" "answers (cmd_STRLEN h cmd s)"
    "answers (cmd_BITCOUNT cmd s)" "answers_or_silent (cmd_BITOP cmd s)"
proof -
  note simps = resp_arg_errors char_neq assms
  have bad: "resp_values (Suc 0) (err (Error e))" if "SetBit t k i v s = (Inl e, s')" for e t k i v s'
    using that by (intro resp_store_error) (auto simp: SetBit_def Let_def split: if_splits prod.splits)
  show "answers (cmd_SETBIT h cmd s)"
    using wf_SetBit [OF assms] bad
    by (auto simp: cmd_SETBIT_def simps outcome_all_on_val split: prod.splits)
  have bad: "resp_values (Suc 0) (err (Error e))" if "GetBit t k i s = Inl e" for e t k i
    using that by (intro resp_store_error) (auto simp: GetBit_def split: if_splits prod.splits option.splits)
  show "answers (cmd_GETBIT h cmd s)"
    using bad
    by (auto simp: cmd_GETBIT_def simps outcome_all_on_val split: prod.splits)
  show "answers (cmd_STRLEN h cmd s)" by (auto simp: cmd_STRLEN_def simps split: sum.splits)
  show "answers (cmd_BITCOUNT cmd s)"
    by (auto simp: cmd_BITCOUNT_def simps intro!: outcome_all_on_ret split: prod.splits)
  show "answers_or_silent (cmd_BITOP cmd s)"
    using wf_bit_op [OF assms] by (auto simp: cmd_BITOP_def BitOpAnd_def BitOpOr_def simps split: prod.splits)
qed

lemma answers_geo:
  assumes "wf_store s" and "plain_host h"
  shows "answers (cmd_GEOADD h cmd s)" "answers (cmd_GEOPOS h cmd s)" "answers (cmd_GEODIST h cmd s)"
    "answers (cmd_GEOSEARCH h cmd s)"
proof -
  note simps = resp_arg_errors char_neq assms
  show "answers (cmd_GEOADD h cmd s)"
    using wf_GeoAdd [OF assms(1)] geo_error_plain [OF assms(2)]
    by (auto simp: cmd_GEOADD_def simps outcome_all_on_val intro!: outcome_all_on_ret)
  have ge: "length found = length ms" if "GeoExists fl t k ms s = Ret (Inr found)" for fl t k ms found
    using that by (auto simp: GeoExists_def split: option.splits if_splits)
  have err: "e = ErrWrongType" if "GeoExists fl t k ms s = Ret (Inl e)" for fl t k ms e
    using that by (auto simp: GeoExists_def split: option.splits if_splits)
  have pair: "resp_values 1 (if loc = [] then null_array else ''*2'' @ crlf @ bulk (loc ! 0) @ bulk (loc ! 1))" for loc
  proof -
    have h2: "array_header (Suc (Suc 0)) = ''*2'' @ crlf" by code_simp
    show ?thesis
      using resp_values.array [of 2 0 "bulk (loc ! 0) @ bulk (loc ! 1)"] resp_values.bulk [of 1 "bulk (loc ! 1)" "loc ! 0"]
      by (simp add: h2 numeral_2_eq_2)
  qed
  show "answers (cmd_GEOPOS h cmd s)"
    using pair
    by (auto simp: cmd_GEOPOS_def simps Let_def outcome_all_on_val dest!: ge err
        intro!: outcome_all_on_ret resp_values_array resp_store_error simp del: append.simps)
  show "answers (cmd_GEODIST h cmd s)" by (auto simp: cmd_GEODIST_def simps intro!: outcome_all_on_ret)
  show "answers (cmd_GEOSEARCH h cmd s)"
    by (auto simp: cmd_GEOSEARCH_def simps Let_def intro!: outcome_all_on_ret resp_values_array)
qed

lemma answers_ACL:
  assumes "cmd_ACL h cmd a = Ret (r, a')"
  shows "resp_values (Suc 0) r \<or> r = []"
proof -
  have h4: "''*4'' @ crlf = array_header (Suc (Suc (Suc (Suc 0))))" by code_simp
  have "resp_values (Suc 0) (CHR ''*'' # CHR ''4'' # crlf @ bulk x @ array_header (length fs) @ concat (map bulk fs)
      @ bulk y @ array_header (length ps) @ concat (map bulk ps))" for x y fs ps
  proof -
    have "resp_values (Suc 0 + (Suc 0 + (Suc 0 + Suc 0))) (bulk x @ (array_header (length fs) @ concat (map bulk fs))
      @ bulk y @ (array_header (length ps) @ concat (map bulk ps)))"
      by (intro resp_values_append resp_values_array) simp_all
    then show ?thesis using resp_values.array [of "Suc (Suc (Suc (Suc 0)))" 0] by (simp flip: h4)
  qed
  then show ?thesis
    using assms
    by (auto simp: cmd_ACL_def Let_def go_bind_eq_Ret split: if_splits option.splits)
qed

section \<open>The dispatch\<close>

definition nan_score :: "host \<Rightarrow> bytes list \<Rightarrow> bool" where
  "nan_score h cmd \<longleftrightarrow> cmd \<noteq> [] \<and> ToUpper (uni_upper h) (cmd ! 0) = ''ZADD'' \<and> 4 \<le> length cmd \<and>
     f64_isNaN (fst (parse_float h (cmd ! 2)))"

definition silent_commands :: "string set" where "silent_commands = {''CONFIG'', ''BITOP'', ''ACL''}"

lemma table_answers:
  assumes "wf_store s" and "plain_host h" and "map_of (command_table h cfg replid) nm = Some run"
    and "nm = ''ZADD'' \<longrightarrow> 4 \<le> length cmd \<longrightarrow> \<not> f64_isNaN (fst (parse_float h (cmd ! 2)))"
  shows "outcome_all (\<lambda>r. resp_values (Suc 0) r \<or> r = [] \<and> nm \<in> silent_commands) wf_store (run cmd s)"
proof -
  note all = answers_strings [OF assms(1)] answers_lists [OF assms(1)] answers_streams [OF assms(1)]
    answers_zsets(2-) [OF assms(1)] answers_bitmaps [OF assms(1)] answers_geo [OF assms(1,2)]
  have "list_all (\<lambda>(nm, run).
      (nm = ''ZADD'' \<longrightarrow> 4 \<le> length cmd \<longrightarrow> \<not> f64_isNaN (fst (parse_float h (cmd ! 2)))) \<longrightarrow>
      outcome_all (\<lambda>r. resp_values (Suc 0) r \<or> r = [] \<and> nm \<in> silent_commands) wf_store (run cmd s))
      (command_table h cfg replid)"
    using answers_zsets(1) [OF assms(1), of cmd h]
    by (simp add: command_table_def silent_commands_def all assms(1))
  with map_of_SomeD [OF assms(3)] assms(4) show ?thesis by (auto simp: list_all_iff)
qed

lemma handleCommands_answers:
  assumes "wf_store s" and "plain_host h" and "\<not> nan_score h cmd" and "cmd \<noteq> []" and "plain_text (cmd ! 0)"
  shows "outcome_all (\<lambda>r. resp_values 1 r \<or> r = [] \<and> ToUpper (uni_upper h) (cmd ! 0) \<in> silent_commands) wf_store
     (fst (handleCommands h cfg replid cmd (s, a)))"
proof -
  let ?nm = "ToUpper (uni_upper h) (cmd ! 0)"
  consider (acl) "?nm = ''ACL''" | (unknown) "?nm \<noteq> ''ACL''" "map_of (command_table h cfg replid) ?nm = None"
    | (run) run where "?nm \<noteq> ''ACL''" "map_of (command_table h cfg replid) ?nm = Some run"
    by (cases "map_of (command_table h cfg replid) ?nm") auto
  then show ?thesis
  proof cases
    case acl
    then show ?thesis
      using assms(1,4) answers_ACL [of h cmd a]
      by (auto simp: handleCommands_def silent_commands_def Let_def split: go.splits)
  next
    case unknown
    have "resp_values (Suc 0) (unknown_command (cmd ! 0))"
      using assms(5) by (simp add: unknown_command_def char_neq)
    with unknown show ?thesis using assms(1,4) by (simp add: handleCommands_def Let_def)
  next
    case (run run)
    with table_answers [OF assms(1,2) run(2), of cmd] assms(3,4) show ?thesis
      by (simp add: handleCommands_def Let_def nan_score_def)
  qed
qed

section \<open>Panics\<close>

text \<open>The inputs on which a command indexes past its arguments, slices past a list or follows a nil pointer.\<close>

definition no_zset :: "store \<Rightarrow> string \<Rightarrow> bool" where
  "no_zset s k \<longleftrightarrow> (\<exists>e. data s k = Some e \<and> e_zset e = None)"

definition unparsable_id :: "string \<Rightarrow> bool" where
  "unparsable_id raw \<longleftrightarrow> raw \<noteq> ''$'' \<and> (case parseID raw of Inl _ \<Rightarrow> True | Inr _ \<Rightarrow> False)"

definition crash_cause :: "host \<Rightarrow> string \<Rightarrow> bytes list \<Rightarrow> store \<Rightarrow> acl \<Rightarrow> bool" where
  "crash_cause h nm cmd s a \<longleftrightarrow>
     nm = ''KEYS'' \<and> length cmd < 2 \<or>
     nm = ''LPOP'' \<and> (\<exists>e. data s (cmd ! 1) = Some e \<and>
       int (length (e_list e)) < (if 3 \<le> length cmd then fst (Atoi (cmd ! 2)) else 1)) \<or>
     nm = ''XREAD'' \<and> (case xread_opts h None (drop 1 cmd) of
       Inr (None, args) \<Rightarrow> list_ex unparsable_id (drop (length args div 2) args) | _ \<Rightarrow> False) \<or>
     nm \<in> {''ZRANK'', ''ZRANGE'', ''ZSCORE'', ''ZREM''} \<and> no_zset s (cmd ! 1) \<or>
     nm = ''ZCARD'' \<and> (length cmd < 2 \<or> no_zset s (cmd ! 1)) \<or>
     nm = ''BITCOUNT'' \<and> (length cmd = 3 \<or> 4 \<le> length cmd \<and> fst (Atoi (cmd ! 2)) < 0) \<or>
     nm = ''BITOP'' \<and> length cmd < 5 \<or>
     nm \<in> {''GEODIST'', ''GEOSEARCH''} \<and> e_zset (entry_at s (cmd ! 1)) = None \<or>
     nm = ''ACL'' \<and> (length cmd < 4 \<or> a ''default'' = None)"

lemma count_loop_Ret: "0 \<le> i \<Longrightarrow> stop < int (length buf) \<Longrightarrow> count_loop buf i stop n \<noteq> Panic"
  by (induction buf i stop n rule: count_loop.induct) (subst count_loop.simps, auto)

lemma CountBit_Panic: "CountBit key start stop s = Panic \<Longrightarrow> start < 0"
  using count_loop_Ret [of start]
  by (force simp: CountBit_def Let_def split: option.splits if_splits)

lemma ZAdd_not_Panic:
  assumes "wf_store s" and "\<not> f64_isNaN sc"
  shows "ZAdd key sc m s \<noteq> Panic"
proof (cases "\<forall>e. data s key = Some e \<longrightarrow> e_kind e = ''zset''")
  case True
  then have "\<exists>x. ZAdd key sc m s = Ret x" using ZAdd_ok [of s key sc m] wf_storeD(2) [OF assms(1)] assms(2) by blast
  then show ?thesis by auto
next
  case False
  then show ?thesis by (auto simp: ZAdd_def Let_def entry_at_def)
qed

lemma GeoAdd_not_Panic: "wf_store s \<Longrightarrow> GeoAdd fl key lon lat m s \<noteq> Panic"
  using ZAdd_not_Panic [of s _ key m] f64_of_uint64_real [of "unat (encode fl lat lon)"]
    unsigned_less [of "encode fl lat lon", where ?'a = nat]
  by (auto simp: GeoAdd_def)

lemma wf_store_entry:
  assumes "wf_store s" and "data s k = Some e"
  shows "e_kind e = ''stream'' \<Longrightarrow> e_stream e \<noteq> None" and "e_kind e = ''zset'' \<Longrightarrow> e_zset e \<noteq> None"
  using wf_storeD(4) [OF assms] by (auto simp: wf_entry_def wf_stream_entry_def wf_zset_entry_def)

lemma XRange_not_Panic: "wf_store s \<Longrightarrow> XRange k a b s \<noteq> Panic"
  by (auto simp: XRange_def dest!: wf_store_entry(1) split: sum.splits option.splits)

lemma GeoExists_not_Panic: "wf_store s \<Longrightarrow> GeoExists fl now k ms s \<noteq> Panic"
  by (auto simp: GeoExists_def dest!: wf_store_entry(2) split: option.splits)

lemma resolve_afters_not_Panic:
  "wf_store s \<Longrightarrow> length ks = length ids \<Longrightarrow> resolve_afters s ks ids \<noteq> Panic"
  by (induction ks ids rule: list_induct2')
    (auto simp: resolve_after_def go_bind_def dest!: wf_store_entry(1) split: go.splits sum.splits option.splits if_splits)

lemma XReadBlock_not_Panic:
  assumes "wf_store s"
  shows "length ks = length ids \<Longrightarrow> XReadBlock_begin ks ids s \<noteq> Panic" and "XReadBlock_check ks afters s \<noteq> Panic"
  using resolve_afters_not_Panic [OF assms, of ks ids] collect_results_spec [OF wf_storeD(1) [OF assms]]
  by (auto simp: XReadBlock_begin_def XReadBlock_check_def go_bind_def split: go.splits sum.splits)

lemma resolve_afters_error:
  "resolve_afters s ks ids = Ret (Inl er) \<Longrightarrow> list_ex unparsable_id ids"
  by (induction ks ids rule: list_induct2')
    (auto simp: resolve_after_def unparsable_id_def go_bind_def split: go.splits sum.splits option.splits if_splits)

lemma XRead_Panic:
  assumes "wf_store s" and "length ks = length ids" and "XRead ks ids s = Panic"
  shows "list_ex unparsable_id ids"
proof -
  from resolve_afters_not_Panic [OF assms(1,2)] obtain r where r: "resolve_afters s ks ids = Ret r"
    by (cases "resolve_afters s ks ids") auto
  with assms(3) collect_results_spec [OF wf_storeD(1) [OF assms(1)]] obtain er where "r = Inl er"
    by (cases r) (auto simp: XRead_def)
  with r show ?thesis using resolve_afters_error by blast
qed

lemma xread_Panic:
  assumes "wf_store s" and "even (length args)" and "XRead (take (length args div 2) args) (drop (length args div 2) args) s = Panic"
  shows "list_ex unparsable_id (drop (length args div 2) args)"
  using assms by (intro XRead_Panic [OF assms(1) _ assms(3)]) auto

lemma XAdd_safe: "wf_store s \<Longrightarrow> XAdd now k i f s \<noteq> Panic"
  using XAdd_not_Panic wf_storeD(1) by blast

lemma LPop_Panic:
  "LPop k n s = Panic \<Longrightarrow> \<not> n < 0 \<Longrightarrow> \<exists>e. data s k = Some e \<and> int (length (e_list e)) < n"
  by (auto simp: LPop_def split: option.splits if_splits)

lemma LPop_one: "LPop k 1 s = Ret (([], ok), s') \<Longrightarrow> \<not> ok"
  by (auto simp: LPop_def split: option.splits if_splits)

lemma zset_read_Panic:
  "ZRank k m s = Panic \<Longrightarrow> no_zset s k" "ZRange k i j s = Panic \<Longrightarrow> no_zset s k" "ZCard k s = Panic \<Longrightarrow> no_zset s k"
  "ZScore f k m s = Panic \<Longrightarrow> no_zset s k"
  by (auto simp: ZRank_def ZRange_def ZCard_def ZScore_def no_zset_def split: option.splits)

lemma ZRem_Panic: "wf_store s \<Longrightarrow> ZRem k m s = Panic \<Longrightarrow> no_zset s k"
proof (rule ccontr)
  assume wf: "wf_store s" and p: "ZRem k m s = Panic" and n: "\<not> no_zset s k"
  from p n obtain e z where "data s k = Some e" "e_zset e = Some z"
    by (cases "data s k") (auto simp: ZRem_def no_zset_def)
  from ZRem_cases [OF wf_storeD(2) [OF wf] this] p show False by (metis go.distinct(1))
qed

lemma table_crash:
  assumes "wf_store s" and "map_of (command_table h cfg replid) nm = Some run" and "run cmd s = Crash"
    and "nm = ''ZADD'' \<longrightarrow> 4 \<le> length cmd \<longrightarrow> \<not> f64_isNaN (fst (parse_float h (cmd ! 2)))"
  shows "crash_cause h nm cmd s a"
proof -
  have strings: "cmd_ECHO cmd s \<noteq> Crash" "cmd_SET h cmd s \<noteq> Crash" "cmd_GET h cmd s \<noteq> Crash" "cmd_INCR cmd s \<noteq> Crash"
    "cmd_TYPE cmd s \<noteq> Crash" "cmd_INFO cfg replid s \<noteq> Crash" "cmd_CONFIG h cfg cmd s \<noteq> Crash"
    "cmd_KEYS h cmd s = Crash \<longrightarrow> length cmd < 2"
    by (simp_all add: cmd_ECHO_def cmd_SET_def cmd_GET_def cmd_INCR_def cmd_TYPE_def cmd_INFO_def cmd_CONFIG_def
        cmd_KEYS_def Let_def split: prod.splits)
  have lists: "cmd_RPUSH cmd s \<noteq> Crash" "cmd_LPUSH cmd s \<noteq> Crash" "cmd_LLEN cmd s \<noteq> Crash" "cmd_LRANGE cmd s \<noteq> Crash"
    "cmd_BLPOP h cmd s \<noteq> Crash"
    by (auto simp: cmd_RPUSH_def cmd_LPUSH_def cmd_LLEN_def cmd_LRANGE_def cmd_BLPOP_def Let_def
        split: prod.splits sync.splits blpop_entry.splits)
  have lpop: "cmd_LPOP cmd s = Crash \<longrightarrow> crash_cause h ''LPOP'' cmd s a"
    using LPop_one [of "cmd ! 1" s] LPop_Panic [of "cmd ! 1" _ s] LPop_Panic [of "cmd ! 1" 1 s]
    by (auto simp: cmd_LPOP_def crash_cause_def Let_def split: prod.splits if_splits)
  have streams: "cmd_XADD h cmd s \<noteq> Crash" "cmd_XRANGE cmd s \<noteq> Crash" "cmd_XREAD h cmd s = Crash \<longrightarrow> crash_cause h ''XREAD'' cmd s a"
    using XAdd_safe [OF assms(1)] XRange_not_Panic [OF assms(1)] XReadBlock_not_Panic [OF assms(1)] xread_Panic [OF assms(1)]
    by (auto simp: cmd_XADD_def cmd_XRANGE_def cmd_XREAD_def crash_cause_def Let_def
        split: sum.splits option.splits xread_state.splits if_splits)
  have zsets: "cmd_ZRANK cmd s = Crash \<longrightarrow> no_zset s (cmd ! 1)" "cmd_ZRANGE cmd s = Crash \<longrightarrow> no_zset s (cmd ! 1)"
    "cmd_ZCARD cmd s = Crash \<longrightarrow> length cmd < 2 \<or> no_zset s (cmd ! 1)" "cmd_ZSCORE h cmd s = Crash \<longrightarrow> no_zset s (cmd ! 1)"
    "cmd_ZREM cmd s = Crash \<longrightarrow> no_zset s (cmd ! 1)"
    using zset_read_Panic [where k = "cmd ! 1" and s = s] ZRem_Panic [OF assms(1), of "cmd ! 1"]
    by (auto simp: cmd_ZRANK_def cmd_ZRANGE_def cmd_ZCARD_def cmd_ZSCORE_def cmd_ZREM_def split: if_splits)
  have zadd: "cmd_ZADD h cmd s \<noteq> Crash" if "4 \<le> length cmd \<longrightarrow> \<not> f64_isNaN (fst (parse_float h (cmd ! 2)))"
    using that ZAdd_not_Panic [OF assms(1)] by (auto simp: cmd_ZADD_def split: sum.splits)
  have bits: "cmd_SETBIT h cmd s \<noteq> Crash" "cmd_GETBIT h cmd s \<noteq> Crash" "cmd_STRLEN h cmd s \<noteq> Crash"
    "cmd_BITOP cmd s = Crash \<longrightarrow> length cmd < 5"
    by (auto simp: cmd_SETBIT_def cmd_GETBIT_def cmd_STRLEN_def cmd_BITOP_def split: prod.splits sum.splits if_splits)
  have count: "cmd_BITCOUNT cmd s = Crash \<longrightarrow> crash_cause h ''BITCOUNT'' cmd s a"
    using CountBit_Panic [of "cmd ! 1" _ _ s]
    by (fastforce simp: cmd_BITCOUNT_def crash_cause_def split: prod.splits if_splits)
  have geo: "cmd_GEOADD h cmd s \<noteq> Crash" "cmd_GEOPOS h cmd s \<noteq> Crash"
    "cmd_GEODIST h cmd s = Crash \<longrightarrow> e_zset (entry_at s (cmd ! 1)) = None"
    "cmd_GEOSEARCH h cmd s = Crash \<longrightarrow> e_zset (entry_at s (cmd ! 1)) = None"
    using GeoAdd_not_Panic [OF assms(1)] GeoExists_not_Panic [OF assms(1)]
    by (auto simp: cmd_GEOADD_def cmd_GEOPOS_def cmd_GEODIST_def cmd_GEOSEARCH_def GeoDist_def GeoSearch_def Let_def
        split: if_splits option.splits)
  have "list_all (\<lambda>(nm, run).
      (nm = ''ZADD'' \<longrightarrow> 4 \<le> length cmd \<longrightarrow> \<not> f64_isNaN (fst (parse_float h (cmd ! 2)))) \<longrightarrow>
      run cmd s = Crash \<longrightarrow> crash_cause h nm cmd s a) (command_table h cfg replid)"
    using lpop streams(3) zsets bits(4) count geo(3,4) strings(8) zadd
    by (simp add: command_table_def strings(1-7) lists streams(1,2) bits(1-3) geo(1,2)) (simp add: crash_cause_def)
  with map_of_SomeD [OF assms(2)] assms(3,4) show ?thesis by (auto simp: list_all_iff)
qed

text \<open>A platform for the examples: every number parses as 1.\<close>

definition host_example :: host where
  "host_example = \<lparr>clock = 0, uni_upper = id, uni_fold = (\<lambda>x y. False), parse_float = (\<lambda>t. (f64_one, False)),
     floats = flush_ops, map_order = sorted_list_of_set, sha256_hex = id\<rparr>"

lemma plain_host_example: "plain_host host_example"
  by (simp add: plain_host_def host_example_def flush_ops_def char_neq)

section \<open>Properties\<close>

text \<open>C6. One command, one reply: on a well-formed store every command that answers writes exactly one
  complete RESP value (an array followed by exactly the values it announces, texts without line breaks),
  so the client and the server never lose step; only CONFIG, BITOP and ACL have branches that write
  nothing. Whatever the command does, it leaves a well-formed store: streams ordered, sorted sets with
  both halves in agreement, every entry of a known kind. The exceptions are a NaN score, and a name with
  a line break in it, which the reply for unknown commands repeats.\<close>

theorem one_reply_per_command:
  assumes "wf_store s" and "plain_host h" and "\<not> nan_score h cmd" and "cmd \<noteq> []" and "plain_text (cmd ! 0)"
  shows "outcome_all (\<lambda>r. resp_values 1 r \<or> r = [] \<and> ToUpper (uni_upper h) (cmd ! 0) \<in> silent_commands) wf_store
     (fst (handleCommands h cfg replid cmd (s, a)))"
  using assms by (rule handleCommands_answers)

theorem one_reply_per_command_witness:
  "\<exists>r s'. fst (handleCommands host_example zero_config [] [''ZADD'', ''z'', ''1'', ''m''] (newStore, newAcl)) = Answer r s' \<and>
     resp_values 1 r \<and> wf_store s'"
proof -
  let ?cmd = "[''ZADD'', ''z'', ''1'', ''m'']"
  have nm: "ToUpper (uni_upper host_example) ''ZADD'' = ''ZADD''" by code_simp
  have sc: "fst (parse_float host_example ''1'') = f64_one" by (simp add: host_example_def)
  have "\<not> f64_isNaN f64_one" by code_simp
  moreover from ZAdd_ok [of newStore "''z''" f64_one "''m''"] this obtain s' where
    z: "ZAdd ''z'' f64_one ''m'' newStore = Ret (Inr 1, s')"
    using wf_zsets_newStore by (auto simp: newStore_def zset_at_def entry_at_def zero_entry_def empty_zset_def)
  ultimately have "outcome_all (\<lambda>r. resp_values 1 r) wf_store
     (fst (handleCommands host_example zero_config [] ?cmd (newStore, newAcl)))"
    using one_reply_per_command [OF wf_store_newStore plain_host_example, of ?cmd zero_config "[]" newAcl]
    by (simp add: nan_score_def nm sc char_neq silent_commands_def)
  moreover have "fst (handleCommands host_example zero_config [] ?cmd (newStore, newAcl)) = Answer (int_reply 1) s'"
    by (simp add: handleCommands_def nm Let_def command_table_def cmd_ZADD_def sc z on_ret_def)
  ultimately show ?thesis by simp
qed

text \<open>C15. The panics of the command handlers are confined: on a well-formed store, and without NaN
  scores, a command ends the process only for one of the causes listed in \<open>crash_cause\<close>: KEYS or ZCARD without a
  key, BITCOUNT with a start but no end or with a negative start, BITOP with fewer than five words, ACL with fewer than
  four or without a default user, LPOP of more elements than the list has, an XREAD that does not block and one of whose IDs
  is not \<open>$\<close> and cannot be parsed, ZRANK, ZRANGE, ZSCORE, ZREM or ZCARD on a key that holds no sorted set,
  GEODIST and GEOSEARCH on such a key or on a missing one. No other command panics, whatever its arguments.\<close>

theorem panics_confined:
  assumes "wf_store s" and "\<not> nan_score h cmd" and "fst (handleCommands h cfg replid cmd (s, a)) = Crash"
  shows "crash_cause h (ToUpper (uni_upper h) (cmd ! 0)) cmd s a"
proof -
  let ?nm = "ToUpper (uni_upper h) (cmd ! 0)"
  have ne: "cmd \<noteq> []" using assms(3) by (auto simp: handleCommands_def)
  show ?thesis
  proof (cases "?nm = ''ACL''")
    case True
    with assms(3) ne have "cmd_ACL h cmd a = Panic"
      by (auto simp: handleCommands_def Let_def split: go.splits)
    then show ?thesis
      using True by (auto simp: cmd_ACL_def crash_cause_def Let_def getUser_def setUser_def go_bind_def
          split: if_splits option.splits prod.splits)
  next
    case False
    with assms(3) ne obtain run where "map_of (command_table h cfg replid) ?nm = Some run" "run cmd s = Crash"
      by (auto simp: handleCommands_def Let_def split: option.splits)
    from table_crash [OF assms(1) this] assms(2) ne show ?thesis by (auto simp: nan_score_def)
  qed
qed

theorem panics_confined_witness:
  "fst (handleCommands host_example zero_config [] [''XREAD'', ''STREAMS'', ''s'', ''x''] (newStore, newAcl)) = Crash \<and>
   crash_cause host_example ''XREAD'' [''XREAD'', ''STREAMS'', ''s'', ''x''] newStore newAcl"
proof -
  have nm: "ToUpper (uni_upper host_example) ''XREAD'' = ''XREAD''"
    "ToUpper (uni_upper host_example) ''STREAMS'' = ''STREAMS''" by code_simp+
  have "parseID ''x'' = Inl ErrInvalidID" by code_simp
  with nm have crash: "fst (handleCommands host_example zero_config [] [''XREAD'', ''STREAMS'', ''s'', ''x'']
      (newStore, newAcl)) = Crash"
    by (simp add: handleCommands_def Let_def command_table_def cmd_XREAD_def XRead_def resolve_after_def)
  moreover have "\<not> nan_score host_example [''XREAD'', ''STREAMS'', ''s'', ''x'']" by (simp add: nan_score_def nm)
  ultimately show ?thesis
    using panics_confined [OF wf_store_newStore _ crash] by (simp add: nm)
qed

end
