(* ===== verification/Replication.thy ===== *)
theory Replication
  imports PubSub Server
begin

text \<open>
  Replication of \<^verbatim>\<open>src/app/replication.go\<close>: the master's set of replicas with its offset, ACK and
  WAIT, and the replica's side, the handshake and the loop that applies the master's stream. Writes to
  connections are returned in order. \<open>handle\<close> stands for the call of \<open>handleCommands\<close> on a state, so that
  the loop is stated for every handler.
\<close>

record replica =
  r_conn :: connid
  accOffset :: int

record replicaSet =
  replicas :: "replica list"
  r_offset :: int
  ackCh :: nat

definition newReplicaSet :: replicaSet where
  "newReplicaSet = \<lparr>replicas = [], r_offset = 0, ackCh = 0\<rparr>"

definition writeCommands :: "string \<Rightarrow> bool" where
  "writeCommands nm \<longleftrightarrow>
     nm \<in> set [''SET'', ''INCR'', ''RPUSH'', ''LPUSH'', ''LPOP'', ''BLPOP'', ''XADD'', ''ZADD'']"

definition getAckCmd :: "bytes list" where "getAckCmd = [''REPLCONF'', ''GETACK'', ''*'']"

section \<open>The master\<close>

definition add_replica :: "connid \<Rightarrow> replicaSet \<Rightarrow> replicaSet" where
  "add_replica c r = r\<lparr>replicas := replicas r @ [\<lparr>r_conn = c, accOffset = 0\<rparr>]\<rparr>"

definition propagate :: "bytes list \<Rightarrow> replicaSet \<Rightarrow> wire \<times> replicaSet" where
  "propagate cmd r =
     (let payload = encodeCommand cmd
      in (map (\<lambda>c. (r_conn c, payload)) (replicas r),
          r\<lparr>r_offset := wrap64 (r_offset r + int (length payload))\<rparr>))"

definition remove_replica :: "connid \<Rightarrow> replicaSet \<Rightarrow> replicaSet" where
  "remove_replica c r = r\<lparr>replicas := filter (\<lambda>existing. r_conn existing \<noteq> c) (replicas r)\<rparr>"

text \<open>The loop of \<open>ack\<close>: the first replica on the connection, and whether there was one.\<close>

fun ack_loop :: "connid \<Rightarrow> int \<Rightarrow> replica list \<Rightarrow> bool \<times> replica list" where
  "ack_loop c off [] = (False, [])"
| "ack_loop c off (rep # reps) =
     (if r_conn rep = c then (True, rep\<lparr>accOffset := off\<rparr> # reps)
      else case ack_loop c off reps of (b, reps') \<Rightarrow> (b, rep # reps'))"

definition ack :: "connid \<Rightarrow> int \<Rightarrow> replicaSet \<Rightarrow> replicaSet" where
  "ack c off r =
     (case ack_loop c off (replicas r) of (found, reps) \<Rightarrow>
        if found then r\<lparr>replicas := reps, ackCh := ackCh r + 1\<rparr> else r)"

text \<open>
  WAIT: the section before the loop, and one iteration. A wait that has not enough acknowledgements
  parks on the channel it read under the lock and gives the current count when its timer fires.
\<close>

datatype wait_start = WaitReturns int | WaitFor int wire replicaSet

abbreviation currentOffset :: "replicaSet \<Rightarrow> int" where "currentOffset r \<equiv> r_offset r"

definition wait_begin :: "replicaSet \<Rightarrow> wait_start" where
  "wait_begin r =
     (let target = currentOffset r
      in if target = 0 then WaitReturns (int (length (replicas r)))
         else case propagate getAckCmd r of (w, r') \<Rightarrow> WaitFor target w r')"

datatype wait_state = WaitDone int | WaitParked nat int

definition wait_check :: "int \<Rightarrow> int \<Rightarrow> replicaSet \<Rightarrow> wait_state" where
  "wait_check numReplicas target r =
     (let count = int (length (filter (\<lambda>rep. target \<le> accOffset rep) (replicas r)))
      in if numReplicas \<le> count then WaitDone count else WaitParked (ackCh r) count)"

section \<open>The replica\<close>

definition isGetAck :: "(string \<Rightarrow> string \<Rightarrow> bool) \<Rightarrow> bytes list \<Rightarrow> bool" where
  "isGetAck uni cmd \<longleftrightarrow>
     2 \<le> length cmd \<and> EqualFold uni (cmd ! 0) ''REPLCONF'' \<and> EqualFold uni (cmd ! 1) ''GETACK''"

lemma ReadCommand_shorter: "ReadCommand r = Inr (cmd, r') \<Longrightarrow> length r' < length r"
  using ReadCommand_result [of r cmd r'] by (auto simp: strict_suffix_def suffix_def)

text \<open>The loop over the master's stream: what it sends back, the offset it reached and the state.\<close>

function repl_loop :: "(string \<Rightarrow> string \<Rightarrow> bool) \<Rightarrow> (bytes list \<Rightarrow> 's \<Rightarrow> 's go) \<Rightarrow> bytes \<Rightarrow> int \<Rightarrow> 's
    \<Rightarrow> (bytes list \<times> int \<times> 's) go" where
  "repl_loop uni handle r offset s =
     (case ReadCommand r of
        Inl err \<Rightarrow> Ret ([], offset, s)
      | Inr (cmd, r') \<Rightarrow>
          (let size = int (length (encodeCommand cmd))
           in if isGetAck uni cmd
              then go_bind (repl_loop uni handle r' (wrap64 (offset + size)) s) (\<lambda>(out, o', s').
                     Ret (encodeCommand [''REPLCONF'', ''ACK'', FormatInt offset] # out, o', s'))
              else go_bind (handle cmd s) (\<lambda>s1. repl_loop uni handle r' (wrap64 (offset + size)) s1)))"
  by pat_completeness auto
termination
  by (relation "measure (\<lambda>(uni, handle, r, offset, s). length r)") (auto dest: ReadCommand_shorter)

declare repl_loop.simps [simp del]

text \<open>
  \<open>startReplication\<close>: the handshake, the RDB payload, then the loop. \<open>r\<close> is everything the master
  sends; a connection that ends early ends the function at the read that fails. The buffer for the payload is made
  before it is read: a length that is negative or above what the runtime can allocate on a 64-bit platform panics.
\<close>

definition maxAlloc :: int where "maxAlloc = 2 ^ 48"

fun handshake :: "bytes list \<Rightarrow> bytes \<Rightarrow> bytes list \<times> bytes option" where
  "handshake [] r = ([], Some r)"
| "handshake (m # ms) r =
     (case ReadBytes LF r of
        None \<Rightarrow> ([m], None)
      | Some (line, r') \<Rightarrow> (case handshake ms r' of (out, res) \<Rightarrow> (m # out, res)))"

definition handshake_messages :: "config \<Rightarrow> bytes list" where
  "handshake_messages cfg =
     [encodeCommand [''PING''],
      encodeCommand [''REPLCONF'', ''listening-port'', FormatInt (port cfg)],
      encodeCommand [''REPLCONF'', ''capa'', ''psync2''],
      encodeCommand [''PSYNC'', ''?'', ''-1'']]"

definition startReplication :: "(string \<Rightarrow> string \<Rightarrow> bool) \<Rightarrow> (bytes list \<Rightarrow> 's \<Rightarrow> 's go) \<Rightarrow> config \<Rightarrow> bytes \<Rightarrow> 's
    \<Rightarrow> (bytes list \<times> 's) go" where
  "startReplication uni handle cfg r s =
     (case handshake (handshake_messages cfg) r of
        (out, None) \<Rightarrow> Ret (out, s)
      | (out, Some r1) \<Rightarrow>
          (case ReadBytes LF r1 of
             None \<Rightarrow> Ret (out, s)
           | Some (header, r2) \<Rightarrow>
               (case Atoi (TrimSpace (drop 1 header)) of (n, err) \<Rightarrow>
                  if err \<noteq> NoErr then Ret (out, s)
                  else if n < 0 \<or> maxAlloc < n then Panic
                  else if int (length r2) < n then Ret (out, s)
                  else go_bind (repl_loop uni handle (drop (nat n) r2) 0 s) (\<lambda>(acks, o', s').
                         Ret (out @ acks, s')))))"

section \<open>Master and replica together\<close>

text \<open>Propagating several commands; what one connection received.\<close>

fun propagate_all :: "bytes list list \<Rightarrow> replicaSet \<Rightarrow> wire \<times> replicaSet" where
  "propagate_all [] r = ([], r)"
| "propagate_all (cmd # cmds) r =
     (case propagate cmd r of (w, r1) \<Rightarrow> (case propagate_all cmds r1 of (w', r2) \<Rightarrow> (w @ w', r2)))"

definition stream_to :: "connid \<Rightarrow> wire \<Rightarrow> bytes" where
  "stream_to c w = concat (map snd (filter (\<lambda>m. fst m = c) w))"

definition stream_size :: "bytes list list \<Rightarrow> int" where
  "stream_size cmds = (\<Sum>cmd \<leftarrow> cmds. int (length (encodeCommand cmd)))"

definition once :: "connid \<Rightarrow> replicaSet \<Rightarrow> bool" where
  "once c r \<longleftrightarrow> length (filter (\<lambda>rep. r_conn rep = c) (replicas r)) = 1"

text \<open>The acknowledgements a stream asks for: every GETACK in it is answered with the offset before it.\<close>

fun acks_of :: "(string \<Rightarrow> string \<Rightarrow> bool) \<Rightarrow> int \<Rightarrow> bytes list list \<Rightarrow> bytes list" where
  "acks_of uni off [] = []"
| "acks_of uni off (cmd # cmds) =
     (if isGetAck uni cmd then [encodeCommand [''REPLCONF'', ''ACK'', FormatInt off]] else []) @
     acks_of uni (wrap64 (off + int (length (encodeCommand cmd)))) cmds"

lemma stream_to_simps [simp]:
  "stream_to c [] = []"
  "stream_to c (w @ w') = stream_to c w @ stream_to c w'"
  by (simp_all add: stream_to_def)

lemma stream_size_simps [simp]:
  "stream_size [] = 0"
  "stream_size (cmd # cmds) = int (length (encodeCommand cmd)) + stream_size cmds"
  by (simp_all add: stream_size_def)

lemma stream_to_propagate:
  assumes "once c r"
  shows "stream_to c (fst (propagate cmd r)) = encodeCommand cmd"
proof -
  obtain rep where "filter (\<lambda>rep. r_conn rep = c) (replicas r) = [rep]"
    using assms by (auto simp: once_def length_Suc_conv)
  then have "filter (\<lambda>m. fst m = c) (map (\<lambda>rep. (r_conn rep, encodeCommand cmd)) (replicas r)) =
      map (\<lambda>rep. (r_conn rep, encodeCommand cmd)) [rep]"
    by (simp add: filter_map o_def)
  then show ?thesis by (simp add: propagate_def stream_to_def Let_def)
qed

lemma wrap64_add: "wrap64 (wrap64 a + b) = wrap64 (a + b)"
  unfolding wrap64_def by (metis signed_take_bit_add signed_take_bit_signed_take_bit min.idem)

lemma propagate_all_spec:
  "once c r \<Longrightarrow> is_int64 (r_offset r) \<Longrightarrow> propagate_all cmds r = (w, r') \<Longrightarrow>
     stream_to c w = concat (map encodeCommand cmds) \<and> replicas r' = replicas r \<and>
     r_offset r' = wrap64 (r_offset r + stream_size cmds)"
proof (induction cmds arbitrary: r w)
  case Nil
  then show ?case by (simp add: wrap64_id)
next
  case (Cons cmd cmds)
  obtain w1 r1 where p: "propagate cmd r = (w1, r1)" by fastforce
  then have r1: "replicas r1 = replicas r" "r_offset r1 = wrap64 (r_offset r + int (length (encodeCommand cmd)))"
    by (auto simp: propagate_def Let_def)
  obtain w2 where p2: "propagate_all cmds r1 = (w2, r')" and w: "w = w1 @ w2"
    using Cons.prems(3) p by (auto split: prod.splits)
  have "once c r1" and "is_int64 (r_offset r1)"
    using Cons.prems(1) r1 is_int64_wrap64 by (simp_all add: once_def)
  from Cons.IH [OF this p2] show ?case
    using stream_to_propagate [OF Cons.prems(1), of cmd] p w r1
    by (simp add: wrap64_add add.assoc)
qed

lemma go_bind_assoc: "go_bind (go_bind x f) g = go_bind x (\<lambda>y. go_bind (f y) g)"
  by (cases x) simp_all

lemma repl_loop_commands:
  "list_all command_in_limits cmds \<Longrightarrow> is_int64 offset \<Longrightarrow>
     repl_loop uni handle (concat (map encodeCommand cmds) @ r) offset s =
     go_bind (go_fold handle (filter (\<lambda>cmd. \<not> isGetAck uni cmd) cmds) s) (\<lambda>s'.
       go_bind (repl_loop uni handle r (wrap64 (offset + stream_size cmds)) s') (\<lambda>(out, o', s'').
         Ret (acks_of uni offset cmds @ out, o', s'')))"
proof (induction cmds arbitrary: offset s)
  case Nil
  then show ?case by (cases "repl_loop uni handle r offset s") (auto simp: wrap64_id)
next
  case (Cons cmd cmds)
  let ?o = "wrap64 (offset + int (length (encodeCommand cmd)))"
  let ?rest = "concat (map encodeCommand cmds) @ r"
  have rd: "ReadCommand (concat (map encodeCommand (cmd # cmds)) @ r) = Inr (cmd, ?rest)"
    using resp.dec_enc [of cmd] Cons.prems(1) by simp
  have o: "is_int64 ?o" "wrap64 (?o + stream_size cmds) = wrap64 (offset + stream_size (cmd # cmds))"
    by (simp_all add: is_int64_wrap64 wrap64_add add.assoc)
  have IH: "repl_loop uni handle ?rest ?o t =
      go_bind (go_fold handle (filter (\<lambda>cmd. \<not> isGetAck uni cmd) cmds) t) (\<lambda>s'.
        go_bind (repl_loop uni handle r (wrap64 (offset + stream_size (cmd # cmds))) s') (\<lambda>(out, o', s'').
          Ret (acks_of uni ?o cmds @ out, o', s'')))" for t
  proof -
    have "list_all command_in_limits cmds" using Cons.prems(1) by simp
    from Cons.IH [OF this o(1), of t] show ?thesis unfolding o(2) .
  qed
  show ?case
    unfolding repl_loop.simps [of uni handle "concat (map encodeCommand (cmd # cmds)) @ r"] rd
    using IH by (cases "handle cmd s") (auto simp: Let_def go_bind_assoc split_def)
qed

lemma acks_of_none: "list_all (\<lambda>cmd. \<not> isGetAck uni cmd) cmds \<Longrightarrow> acks_of uni off cmds = []"
  by (induction cmds arbitrary: off) auto

lemma repl_loop_stream:
  assumes "list_all command_in_limits cmds" and "list_all (\<lambda>cmd. \<not> isGetAck uni cmd) cmds" and "is_int64 offset"
  shows "repl_loop uni handle (concat (map encodeCommand cmds) @ r) offset s =
     go_bind (go_fold handle cmds s) (\<lambda>s'. repl_loop uni handle r (wrap64 (offset + stream_size cmds)) s')"
proof -
  have "go_bind x (\<lambda>(out, o', s''). Ret ([] @ out, o', s'')) = x" for x :: "(bytes list \<times> int \<times> 'a) go"
    by (cases x) auto
  moreover have "filter (\<lambda>cmd. \<not> isGetAck uni cmd) cmds = cmds"
    using assms(2) by (simp add: list_all_iff)
  ultimately show ?thesis
    using repl_loop_commands [OF assms(1,3), of uni handle r s] by (simp add: acks_of_none [OF assms(2)])
qed

lemma repl_loop_end: "repl_loop uni handle [] o1 s1 = Ret ([], o1, s1)"
  by (simp add: repl_loop.simps [of uni handle "[]"])

lemma isGetAck_getAckCmd: "isGetAck uni getAckCmd"
  by (simp add: isGetAck_def getAckCmd_def EqualFold_def is_ascii_def)

lemma getAckCmd_limits: "command_in_limits getAckCmd"
  by (simp add: command_in_limits_def getAckCmd_def maxArrayLen_def maxBulkLength_def)

lemma repl_loop_getack:
  "repl_loop uni handle (encodeCommand getAckCmd) offset s =
     Ret ([encodeCommand [''REPLCONF'', ''ACK'', FormatInt offset]],
          wrap64 (offset + int (length (encodeCommand getAckCmd))), s)"
proof -
  have rd: "ReadCommand (encodeCommand getAckCmd) = Inr (getAckCmd, [])"
    using resp.dec_enc [OF getAckCmd_limits, of "[]"] by simp
  show ?thesis
    unfolding repl_loop.simps [of uni handle "encodeCommand getAckCmd"] rd
    by (simp add: isGetAck_getAckCmd Let_def repl_loop.simps [of uni handle "[]"])
qed

text \<open>What a replica attached when the master's offset was that of \<open>r\<close> answers to the GETACK of a WAIT.\<close>

lemma wait_exchange:
  assumes "list_all command_in_limits cmds"
    and "once c r" and "is_int64 (r_offset r)" and "propagate_all cmds r = (w, r1)"
    and "wait_begin r1 = WaitFor target w' r2"
    and "go_fold handle (filter (\<lambda>cmd. \<not> isGetAck uni cmd) cmds) s = Ret s'"
  shows "target = wrap64 (r_offset r + stream_size cmds)" and "replicas r2 = replicas r"
    and "\<exists>o'. repl_loop uni handle (stream_to c (w @ w')) 0 s =
       Ret (acks_of uni 0 cmds @ [encodeCommand [''REPLCONF'', ''ACK'', FormatInt (wrap64 (stream_size cmds))]], o', s')"
proof -
  note ps = propagate_all_spec [OF assms(2-4)]
  have b: "target = r_offset r1" "propagate getAckCmd r1 = (w', r2)"
    using assms(5) by (auto simp: wait_begin_def Let_def split: if_splits prod.splits)
  from ps b(1) show "target = wrap64 (r_offset r + stream_size cmds)" by simp
  show "replicas r2 = replicas r" using b(2) ps by (auto simp: propagate_def Let_def)
  have "once c r1" using assms(2) ps by (simp add: once_def)
  with stream_to_propagate [of c r1 getAckCmd] b(2) have "stream_to c w' = encodeCommand getAckCmd" by simp
  with ps have "stream_to c (w @ w') = concat (map encodeCommand cmds) @ encodeCommand getAckCmd" by simp
  then show "\<exists>o'. repl_loop uni handle (stream_to c (w @ w')) 0 s =
       Ret (acks_of uni 0 cmds @ [encodeCommand [''REPLCONF'', ''ACK'', FormatInt (wrap64 (stream_size cmds))]], o', s')"
    using repl_loop_commands [OF assms(1), of 0 uni handle "encodeCommand getAckCmd" s] assms(6)
    by (simp add: repl_loop_getack is_int64_def min_int64_def max_int64_def)
qed

lemma ack_once:
  assumes "once c r"
  shows "length (filter (\<lambda>rep. target \<le> accOffset rep) (replicas (ack c off r))) =
    length (filter (\<lambda>rep. r_conn rep \<noteq> c \<and> target \<le> accOffset rep) (replicas r)) + (if target \<le> off then 1 else 0)"
proof -
  have loop: "length (filter (\<lambda>rep. r_conn rep = c) reps) = 1 \<Longrightarrow> \<exists>reps'. ack_loop c off reps = (True, reps') \<and>
      length (filter (\<lambda>rep. target \<le> accOffset rep) reps') =
      length (filter (\<lambda>rep. r_conn rep \<noteq> c \<and> target \<le> accOffset rep) reps) + (if target \<le> off then 1 else 0)"
    for reps
  proof (induction reps)
    case (Cons rep reps)
    show ?case
    proof (cases "r_conn rep = c")
      case True
      with Cons.prems have "\<forall>x \<in> set reps. r_conn x \<noteq> c" by (simp add: filter_empty_conv)
      then have "filter (\<lambda>rep. r_conn rep \<noteq> c \<and> target \<le> accOffset rep) reps =
          filter (\<lambda>rep. target \<le> accOffset rep) reps" by (intro filter_cong) auto
      with True show ?thesis by simp
    next
      case False
      with Cons show ?thesis by auto
    qed
  qed simp
  from loop [of "replicas r"] assms show ?thesis by (auto simp: once_def ack_def)
qed

lemma ack_wakes:
  assumes "once c r"
  shows "ackCh (ack c off r) = Suc (ackCh r)"
proof -
  have "length (filter (\<lambda>rep. r_conn rep = c) reps) = 1 \<Longrightarrow> fst (ack_loop c off reps)" for reps
    by (induction reps) (auto split: prod.splits if_splits)
  from this [of "replicas r"] assms show ?thesis by (auto simp: once_def ack_def split: prod.splits)
qed

text \<open>One replica and one propagated command, for the examples.\<close>

definition one_replica :: "int \<Rightarrow> replicaSet" where
  "one_replica off = \<lparr>replicas = [\<lparr>r_conn = 7, accOffset = 0\<rparr>], r_offset = off, ackCh = 0\<rparr>"

definition ping_stream :: "bytes list list" where "ping_stream = [[''PING'']]"

lemma ping_stream_ok:
  "list_all command_in_limits ping_stream" "list_all (\<lambda>cmd. \<not> isGetAck uni cmd) ping_stream"
  "once 7 (one_replica off)" "stream_size ping_stream = 14"
proof -
  show "list_all command_in_limits ping_stream"
    by (simp add: ping_stream_def command_in_limits_def maxArrayLen_def maxBulkLength_def)
  show "list_all (\<lambda>cmd. \<not> isGetAck uni cmd) ping_stream" by (simp add: ping_stream_def isGetAck_def)
  show "once 7 (one_replica off)" by (simp add: once_def one_replica_def)
  have "length (encodeCommand [''PING'']) = 14" by code_simp
  then show "stream_size ping_stream = 14" by (simp add: ping_stream_def)
qed

lemma ping_wait:
  assumes "0 \<le> off" and "off \<le> 1000"
  obtains w r1 target w' r2 where "propagate_all ping_stream (one_replica off) = (w, r1)"
    and "wait_begin r1 = WaitFor target w' r2"
proof -
  obtain w r1 where p: "propagate_all ping_stream (one_replica off) = (w, r1)" by fastforce
  have "is_int64 (r_offset (one_replica off))" and "is_int64 (off + 14)"
    using assms by (simp_all add: one_replica_def is_int64_def min_int64_def max_int64_def)
  from propagate_all_spec [OF ping_stream_ok(3) this(1) p] this(2)
  have "r_offset r1 = off + 14" by (simp add: ping_stream_ok one_replica_def)
  then have "\<exists>target w' r2. wait_begin r1 = WaitFor target w' r2"
    using assms by (auto simp: wait_begin_def Let_def split: prod.splits)
  with p that show ?thesis by blast
qed

section \<open>Properties\<close>

text \<open>C8. A replica follows its master from the moment it is attached: whatever commands the master then
  propagates, GETACKs among them, a connection that is attached once receives exactly their encodings in
  order. The replica's loop over those bytes, which starts at offset 0, applies exactly the commands that are
  not a GETACK, in order, and answers every GETACK with the number of bytes before it. Its offset at the end is
  the number of bytes propagated since it was attached, which is by how much the offset of the master has grown
  (in 64-bit arithmetic): the two are equal only when the replica was attached at offset 0.\<close>

theorem replica_follows_master:
  assumes "list_all command_in_limits cmds" and "once c r" and "is_int64 (r_offset r)"
    and "propagate_all cmds r = (w, r')"
  shows "stream_to c w = concat (map encodeCommand cmds) \<and>
    repl_loop uni handle (stream_to c w) 0 s =
      go_bind (go_fold handle (filter (\<lambda>cmd. \<not> isGetAck uni cmd) cmds) s)
        (\<lambda>s'. Ret (acks_of uni 0 cmds, wrap64 (stream_size cmds), s')) \<and>
    r_offset r' = wrap64 (r_offset r + stream_size cmds)"
proof -
  note ps = propagate_all_spec [OF assms(2-4)]
  have "is_int64 0" by (simp add: is_int64_def min_int64_def max_int64_def)
  from repl_loop_commands [OF assms(1) this, of uni handle "[]" s] ps show ?thesis
    by (simp add: repl_loop_end)
qed

text \<open>A replica attached at offset 21 that is sent a PING and a GETACK reaches 51; the master is at 72.\<close>

theorem replica_follows_master_witness:
  "\<exists>w r'. propagate_all (ping_stream @ [getAckCmd]) (one_replica 21) = (w, r') \<and> r_offset r' = 72 \<and>
     repl_loop (\<lambda>_ _. False) (\<lambda>cmd s. Ret (cmd # s)) (stream_to 7 w) 0 [] =
       Ret ([encodeCommand [''REPLCONF'', ''ACK'', ''14'']], 51, [[''PING'']])"
proof -
  obtain w r' where p: "propagate_all (ping_stream @ [getAckCmd]) (one_replica 21) = (w, r')" by fastforce
  have i: "is_int64 (r_offset (one_replica 21))" "is_int64 14" "is_int64 51" "is_int64 72"
    by (simp_all add: one_replica_def is_int64_def min_int64_def max_int64_def)
  have l: "list_all command_in_limits (ping_stream @ [getAckCmd])"
    by (simp add: ping_stream_ok getAckCmd_limits)
  have n: "length (encodeCommand [''PING'']) = 14" "length (encodeCommand getAckCmd) = 37" "FormatInt 14 = ''14''"
    by code_simp+
  have z: "stream_size (ping_stream @ [getAckCmd]) = 51" by (simp add: ping_stream_def n)
  have k: "filter (\<lambda>cmd. \<not> isGetAck (\<lambda>_ _. False) cmd) (ping_stream @ [getAckCmd]) = [[''PING'']]"
    "acks_of (\<lambda>_ _. False) 0 (ping_stream @ [getAckCmd]) = [encodeCommand [''REPLCONF'', ''ACK'', ''14'']]"
    using i by (simp_all add: ping_stream_def isGetAck_getAckCmd n isGetAck_def [of _ "[''PING'']"])
  from replica_follows_master [OF l ping_stream_ok(3) i(1) p, THEN conjunct2,
      of "\<lambda>_ _. False" "\<lambda>cmd s. Ret (cmd # s)" "[]"] z k i
  have "repl_loop (\<lambda>_ _. False) (\<lambda>cmd s. Ret (cmd # s)) (stream_to 7 w) 0 [] =
      Ret ([encodeCommand [''REPLCONF'', ''ACK'', ''14'']], 51, [[''PING'']])" and "r_offset r' = 72"
    by (simp_all add: one_replica_def)
  with p show ?thesis by blast
qed



end
