(* ===== verification/Aof.thy ===== *)
theory Aof
  imports Replication
begin

text \<open>
  The append-only file of \<^verbatim>\<open>src/app/aof.go\<close> and the manifest that names it (\<^verbatim>\<open>src/app/main.go\<close>). The
  file is its bytes; the outcome of each write and sync is chosen by the operating system, so it is an
  argument. \<open>cb\<close> is the callback of \<open>Replay\<close>, as in the code.
\<close>

section \<open>Operations\<close>

record AOF =
  aof_file :: bytes
  aof_fsync :: string

datatype write_result = WroteAll | WroteOnly nat
datatype aof_err = WriteErr | SyncErr | OpenErr | ReplayErr read_err

definition Append :: "write_result \<Rightarrow> bool \<Rightarrow> bytes \<Rightarrow> AOF option \<Rightarrow> aof_err option \<times> AOF option" where
  "Append written synced raw a =
     (case a of
        None \<Rightarrow> (None, None)
      | Some f \<Rightarrow>
          (case written of
             WroteOnly n \<Rightarrow> (Some WriteErr, Some (f\<lparr>aof_file := aof_file f @ take n raw\<rparr>))
           | WroteAll \<Rightarrow>
               (if aof_fsync f = ''always'' \<and> \<not> synced then Some SyncErr else None,
                Some (f\<lparr>aof_file := aof_file f @ raw\<rparr>))))"

text \<open>The loop of \<open>Replay\<close>: the clean end of the file ends it, every other error is returned.\<close>

function replay_loop :: "(bytes list \<Rightarrow> 's \<Rightarrow> 's go) \<Rightarrow> bytes \<Rightarrow> 's \<Rightarrow> (aof_err option \<times> 's) go" where
  "replay_loop cb r s =
     (case ReadCommand r of
        Inl err \<Rightarrow> Ret (if err = EOF then None else Some (ReplayErr err), s)
      | Inr (cmd, r') \<Rightarrow> go_bind (cb cmd s) (\<lambda>s'. replay_loop cb r' s'))"
  by pat_completeness auto
termination
  by (relation "measure (\<lambda>(cb, r, s). length r)") (auto dest: ReadCommand_shorter)

declare replay_loop.simps [simp del]

text \<open>\<open>opened\<close> is the outcome of \<open>os.Open\<close>.\<close>

definition Replay :: "bool \<Rightarrow> (bytes list \<Rightarrow> 's \<Rightarrow> 's go) \<Rightarrow> AOF option \<Rightarrow> 's \<Rightarrow> (aof_err option \<times> 's) go" where
  "Replay opened cb a s =
     (case a of
        None \<Rightarrow> Ret (None, s)
      | Some f \<Rightarrow> if \<not> opened then Ret (Some OpenErr, s) else replay_loop cb (aof_file f) s)"

section \<open>The manifest\<close>

text \<open>The loop over the fields of one line: the last \<open>file\<close> and the last \<open>type\<close> count.\<close>

fun manifest_fields :: "string list \<Rightarrow> string \<times> string \<Rightarrow> string \<times> string" where
  "manifest_fields (a # b # rest) (nm, typ) =
     manifest_fields (b # rest)
       (if a = ''file'' then (b, typ) else if a = ''type'' then (nm, b) else (nm, typ))"
| "manifest_fields fs acc = acc"

fun manifest_scan :: "string list \<Rightarrow> string option" where
  "manifest_scan [] = None"
| "manifest_scan (line # rest) =
     (case manifest_fields (Fields line) ([], []) of (nm, typ) \<Rightarrow>
        if typ = ''i'' \<and> nm \<noteq> [] then Some nm else manifest_scan rest)"

datatype manifest_err = NotExist | ReadFileErr | NoIncrFile

definition getIncrFileNameFromManifest :: "manifest_err + bytes \<Rightarrow> manifest_err + string" where
  "getIncrFileNameFromManifest file =
     (case file of
        Inl err \<Rightarrow> Inl err
      | Inr content \<Rightarrow>
          (case manifest_scan (Split content LF) of None \<Rightarrow> Inl NoIncrFile | Some nm \<Rightarrow> Inr nm))"

text \<open>
  The start of \<open>main\<close> with AOF enabled: the name of the incremental file and the manifest written when
  there is none; \<open>Inl\<close> where \<open>main\<close> ends the process.
\<close>

definition aof_incr_name :: "config \<Rightarrow> manifest_err + bytes \<Rightarrow> manifest_err + (string \<times> bytes option)" where
  "aof_incr_name cfg file =
     (case getIncrFileNameFromManifest file of
        Inr incrName \<Rightarrow> Inr (incrName, None)
      | Inl NotExist \<Rightarrow>
          (let incrName = appendFilename cfg @ ''.1.incr.aof''
           in Inr (incrName, Some (''file '' @ incrName @ '' seq 1 type i'' @ [LF])))
      | Inl err \<Rightarrow> Inl err)"

section \<open>Replay of a whole file\<close>

lemma replay_loop_stream:
  assumes "list_all command_in_limits cmds"
  shows "replay_loop cb (concat (map EncodeRaw cmds) @ r) s =
    go_bind (go_fold cb cmds s) (\<lambda>s'. replay_loop cb r s')"
  using assms
proof (induction cmds arbitrary: s)
  case (Cons cmd cmds)
  have "ReadCommand (concat (map EncodeRaw (cmd # cmds)) @ r) = Inr (cmd, concat (map EncodeRaw cmds) @ r)"
    using resp_raw.dec_enc [of cmd] Cons.prems by simp
  then have "replay_loop cb (concat (map EncodeRaw (cmd # cmds)) @ r) s =
      go_bind (cb cmd s) (\<lambda>s1. replay_loop cb (concat (map EncodeRaw cmds) @ r) s1)"
    unfolding replay_loop.simps [of cb "concat (map EncodeRaw (cmd # cmds)) @ r"] by simp
  with Cons show ?case by (cases "cb cmd s") simp_all
qed simp

text \<open>Appending a sequence of commands, every write complete.\<close>

definition append_all :: "bytes list list \<Rightarrow> AOF option \<Rightarrow> AOF option" where
  "append_all cmds a = fold (\<lambda>cmd a. snd (Append WroteAll True (EncodeRaw cmd) a)) cmds a"

lemma append_all_file:
  "append_all cmds (Some f) = Some (f\<lparr>aof_file := aof_file f @ concat (map EncodeRaw cmds)\<rparr>)"
proof (induction cmds arbitrary: f)
  case (Cons cmd cmds)
  then show ?case by (simp add: append_all_def Append_def)
qed (simp add: append_all_def)

section \<open>Fields of a manifest line\<close>

definition plain_word :: "string \<Rightarrow> bool" where
  "plain_word w \<longleftrightarrow> w \<noteq> [] \<and> list_all (\<lambda>c. 32 < (of_char c :: nat) \<and> (of_char c :: nat) < 128) w"

lemma plain_char_width: "32 < (of_char c :: nat) \<Longrightarrow> (of_char c :: nat) < 128 \<Longrightarrow> space_width (c # cs) = 0"
  by (cases cs rule: remdups_adj.cases) (auto simp: byte_in_def)

lemma fields_loop_word:
  "list_all (\<lambda>c. 32 < (of_char c :: nat) \<and> (of_char c :: nat) < 128) w \<Longrightarrow>
     fields_loop 0 cur (w @ s) = fields_loop 0 (cur @ w) s"
  by (induction w arbitrary: cur) (simp_all add: plain_char_width)

lemma space_width_space: "space_width (CHR '' '' # cs) = 1"
  by (cases cs rule: remdups_adj.cases) (auto simp: byte_in_def)

lemma Fields_word_space: "plain_word w \<Longrightarrow> Fields (w @ CHR '' '' # s) = w # Fields s"
  by (simp add: Fields_def plain_word_def fields_loop_word space_width_space)

lemma Fields_word: "plain_word w \<Longrightarrow> Fields w = [w]"
  using fields_loop_word [of w "[]" "[]"] by (simp add: Fields_def plain_word_def)

lemma Split_no_sep: "sep \<notin> set line \<Longrightarrow> Split (line @ sep # rest) sep = line # Split rest sep"
  by (induction line) auto

text \<open>Reading the manifest that was written.\<close>

lemma manifest_written_read:
  assumes "plain_word (appendFilename cfg)"
  shows "\<exists>incr content. aof_incr_name cfg (Inl NotExist) = Inr (incr, Some content) \<and>
    incr = appendFilename cfg @ ''.1.incr.aof'' \<and> aof_incr_name cfg (Inr content) = Inr (incr, None)"
proof -
  let ?n = "appendFilename cfg @ ''.1.incr.aof''"
  let ?line = "''file '' @ ?n @ '' seq 1 type i''"
  have pw: "plain_word ?n" using assms by (simp add: plain_word_def)
  have words: "plain_word ''file''" "plain_word ''seq''" "plain_word ''1''" "plain_word ''type''" "plain_word ''i''"
    by (simp_all add: plain_word_def)
  have "Fields ?line = [''file'', ?n, ''seq'', ''1'', ''type'', ''i'']"
    using Fields_word_space [OF words(1), of "?n @ '' seq 1 type i''"] Fields_word_space [OF pw, of "''seq 1 type i''"]
      Fields_word_space [OF words(2), of "''1 type i''"] Fields_word_space [OF words(3), of "''type i''"]
      Fields_word_space [OF words(4), of "''i''"] Fields_word [OF words(5)]
    by simp
  moreover have "?n \<noteq> ''file''" "?n \<noteq> ''type''"
    by (rule notI, drule arg_cong [of _ _ length], simp)+
  ultimately have "manifest_fields (Fields ?line) ([], []) = (?n, ''i'')" by simp
  moreover have "LF \<notin> set ?line"
    using pw by (auto simp: plain_word_def list_all_iff LF_def)
  then have "Split (?line @ [LF]) LF = ?line # Split [] LF" by (rule Split_no_sep)
  ultimately have "getIncrFileNameFromManifest (Inr (?line @ [LF])) = Inr ?n"
    by (simp add: getIncrFileNameFromManifest_def)
  then show ?thesis by (simp add: aof_incr_name_def getIncrFileNameFromManifest_def Let_def)
qed

section \<open>Properties\<close>

text \<open>C20. Replay restores what was appended: after any sequence of complete appends to an empty file, replay
  applies exactly those commands, once each and in order, and ends without error. If the last append was
  cut short at any byte, replay still applies every complete command and then reports the torn one as an
  error (which ends the start of the server) instead of accepting or skipping it.\<close>

theorem aof_replays_appends:
  assumes "list_all command_in_limits cmds" and "append_all cmds (Some \<lparr>aof_file = [], aof_fsync = fs\<rparr>) = Some f"
  shows "Replay True cb (Some f) s = go_bind (go_fold cb cmds s) (\<lambda>s'. Ret (None, s')) \<and>
    (\<forall>cmd n f' e. command_in_limits cmd \<longrightarrow> 0 < n \<longrightarrow> n < length (EncodeRaw cmd) \<longrightarrow>
       Append (WroteOnly n) b (EncodeRaw cmd) (Some f) = (e, Some f') \<longrightarrow>
       Replay True cb (Some f') s =
         go_bind (go_fold cb cmds s) (\<lambda>s'. Ret (Some (ReplayErr ErrUnexpectedEOF), s')))"
proof -
  have f: "aof_file f = concat (map EncodeRaw cmds)"
    using assms(2) append_all_file [of cmds "\<lparr>aof_file = [], aof_fsync = fs\<rparr>"] by auto
  have "replay_loop cb [] s' = Ret (None, s')" for s' by (simp add: replay_loop.simps [of cb "[]"])
  then have "Replay True cb (Some f) s = go_bind (go_fold cb cmds s) (\<lambda>s'. Ret (None, s'))"
    using replay_loop_stream [OF assms(1), of cb "[]" s] by (simp add: Replay_def f)
  moreover have "Replay True cb (Some f') s =
      go_bind (go_fold cb cmds s) (\<lambda>s'. Ret (Some (ReplayErr ErrUnexpectedEOF), s'))"
    if lim: "command_in_limits cmd" and n: "0 < n" "n < length (EncodeRaw cmd)"
      and app: "Append (WroteOnly n) b (EncodeRaw cmd) (Some f) = (e, Some f')" for cmd n f' e
  proof -
    let ?p = "take n (EncodeRaw cmd)" and ?q = "drop n (EncodeRaw cmd)"
    have f': "aof_file f' = concat (map EncodeRaw cmds) @ ?p" using app by (auto simp: Append_def f)
    have "EncodeRaw cmd = ?p @ ?q" and "?p \<noteq> []" and "?q \<noteq> []" using n by auto
    from torn_frame_lemma [OF lim this] have "ReadCommand ?p = Inl ErrUnexpectedEOF" .
    then have "replay_loop cb ?p s' = Ret (Some (ReplayErr ErrUnexpectedEOF), s')" for s'
      by (simp add: replay_loop.simps [of cb ?p])
    then show ?thesis using replay_loop_stream [OF assms(1), of cb ?p s] by (simp add: Replay_def f')
  qed
  ultimately show ?thesis by blast
qed

theorem aof_replays_appends_witness:
  "\<exists>f. append_all [[''INCR'', ''n'']] (Some \<lparr>aof_file = [], aof_fsync = ''always''\<rparr>) = Some f \<and>
     Replay True (\<lambda>cmd s. Ret (s @ [cmd])) (Some f) [] = Ret (None, [[''INCR'', ''n'']])"
proof -
  have l: "list_all command_in_limits [[''INCR'', ''n'']]"
    by (simp add: command_in_limits_def maxArrayLen_def maxBulkLength_def)
  obtain f where f: "append_all [[''INCR'', ''n'']] (Some \<lparr>aof_file = [], aof_fsync = ''always''\<rparr>) = Some f"
    using append_all_file by fastforce
  from aof_replays_appends [OF l f, of "\<lambda>cmd s. Ret (s @ [cmd])" "[]"] f show ?thesis by simp
qed

text \<open>The manifest that the server writes on its first start is understood on the next one: for a
  file name of printable ASCII characters, the name read back from the manifest is the name that was
  written, so the second start replays the file the first one appended to.\<close>

theorem manifest_round_trip:
  assumes "plain_word (appendFilename cfg)"
  shows "\<exists>incr content. aof_incr_name cfg (Inl NotExist) = Inr (incr, Some content) \<and>
    incr = appendFilename cfg @ ''.1.incr.aof'' \<and> aof_incr_name cfg (Inr content) = Inr (incr, None)"
  using assms by (rule manifest_written_read)

theorem manifest_round_trip_witness:
  "\<exists>content. aof_incr_name (zero_config\<lparr>appendFilename := ''a.aof''\<rparr>) (Inr content) =
     Inr (''a.aof.1.incr.aof'', None)"
proof -
  have "plain_word (appendFilename (zero_config\<lparr>appendFilename := ''a.aof''\<rparr>))"
    by (simp add: plain_word_def zero_config_def)
  from manifest_round_trip [OF this] show ?thesis by auto
qed

end
