(* ===== verification/Client.thy ===== *)
theory Client
  imports CommandProps Aof
begin

text \<open>
  \<open>handleClient\<close> of \<^verbatim>\<open>src/app/client.go\<close>: the loop of one connection, from the bytes it receives to the
  replies, the authentication gate, transactions, subscriber mode, replication commands and the
  propagation of writes to the replicas and the append-only file. The local variables of the goroutine
  are the record \<open>conn\<close>, what the goroutines share is the record \<open>world\<close>. The local transaction of
  a connection is registered by its address, so it lives in the store under the number of the connection.
\<close>

section \<open>State\<close>

record server =
  srv_cfg :: config
  replicationID :: string
  srv_replicas :: replicaSet
  srv_pubsub :: pubsub
  srv_acl :: acl

definition newServer :: "config \<Rightarrow> server" where
  "newServer cfg = \<lparr>srv_cfg = cfg, replicationID = ''8371b4fb1155b71f4a04d3e1bc3e18c4a990aeeb'',
     srv_replicas = newReplicaSet, srv_pubsub = newPubSub, srv_acl = newAcl\<rparr>"

record world =
  db :: store
  srv :: server
  aof :: "AOF option"

record conn =
  sub :: bool
  subscribed :: "string set"
  currentUser :: "user option"

text \<open>
  What the operating system and the runtime choose in one iteration: the outcome of the write to the
  append-only file, and the order in which a set of subscribers is walked.
\<close>

record os =
  os_write :: write_result
  os_sync :: bool
  conn_order :: "connid set \<Rightarrow> connid list"

text \<open>
  An iteration ends and the loop goes on, or it blocks in a command: in \<open>handleCommands\<close> inside EXEC with the
  rest of the queue, in \<open>handleCommands\<close> of the command that may still be propagated, or in WAIT; or it panics.
  Where a command is stuck with the mutex of the store held, the store is the one before the command.
\<close>

datatype blocked =
  InExec outcome "bytes list list"
| InCommand outcome string "bytes list"
| InWait int int nat int int

datatype client_result =
  Continues wire conn world
| Blocks wire blocked conn world
| Panics

definition on_tx :: "connid \<Rightarrow> (transaction \<Rightarrow> transaction) \<Rightarrow> world \<Rightarrow> world" where
  "on_tx self f w = w\<lparr>db := (db w)\<lparr>txs := (txs (db w))(self := f (txs (db w) self))\<rparr>\<rparr>"

text \<open>The call of \<open>handleCommands\<close> on the shared state.\<close>

definition outcome_store :: "outcome \<Rightarrow> store \<Rightarrow> store" where
  "outcome_store out s =
     (case out of Answer r s' \<Rightarrow> s' | ParkPop keys ch timeout s' \<Rightarrow> s' | ParkRead keys afters n timeout s' \<Rightarrow> s'
      | Stuck ch \<Rightarrow> s | Crash \<Rightarrow> s)"

definition run_data :: "host \<Rightarrow> bytes list \<Rightarrow> world \<Rightarrow> outcome \<times> world" where
  "run_data h cmd w =
     (case handleCommands h (srv_cfg (srv w)) (replicationID (srv w)) cmd (db w, srv_acl (srv w)) of
        (out, a) \<Rightarrow> (out, w\<lparr>db := outcome_store out (db w), srv := (srv w)\<lparr>srv_acl := a\<rparr>\<rparr>))"

section \<open>Transactions\<close>

definition client_MULTI :: "connid \<Rightarrow> conn \<Rightarrow> world \<Rightarrow> client_result" where
  "client_MULTI self c w =
     (if tx_active (txs (db w) self) then Continues [(self, err ''ERR MULTI calls can not be nested'')] c w
      else Continues [(self, ok_reply)] c (on_tx self (\<lambda>tx. tx\<lparr>tx_active := True\<rparr>) w))"

text \<open>The loop of EXEC over the queue: replies so far, and where it blocks, if it does.\<close>

fun exec_queued :: "host \<Rightarrow> connid \<Rightarrow> bytes list list \<Rightarrow> world
    \<Rightarrow> (wire \<times> (outcome \<times> bytes list list) option \<times> world) go" where
  "exec_queued h self [] w = Ret ([], None, w)"
| "exec_queued h self (cmd # cmds) w =
     (case run_data h cmd w of (out, w1) \<Rightarrow>
        (case out of
           Crash \<Rightarrow> Panic
         | Answer r s \<Rightarrow>
             go_bind (exec_queued h self cmds w1) (\<lambda>(rs, blk, w2). Ret ((self, r) # rs, blk, w2))
         | _ \<Rightarrow> Ret ([], Some (out, cmds), w1)))"

definition client_EXEC :: "host \<Rightarrow> connid \<Rightarrow> conn \<Rightarrow> world \<Rightarrow> client_result" where
  "client_EXEC h self c w =
     (if \<not> tx_active (txs (db w) self) then Continues [(self, err ''ERR EXEC without MULTI'')] c w
      else
        (let aborted = CheckDirty self (db w);
             w1 = w\<lparr>db := Unwatch self (db w)\<rparr>;
             queued = tx_queued (txs (db w1) self);
             w2 = on_tx self (\<lambda>_. zero_transaction) w1
         in if aborted then Continues [(self, null_array)] c w2
            else
              (case exec_queued h self queued w2 of
                 Panic \<Rightarrow> Panics
               | Ret (rs, None, w3) \<Rightarrow> Continues ((self, array_header (length queued)) # rs) c w3
               | Ret (rs, Some (out, rest), w3) \<Rightarrow>
                   Blocks ((self, array_header (length queued)) # rs) (InExec out rest) c w3)))"

definition client_DISCARD :: "connid \<Rightarrow> conn \<Rightarrow> world \<Rightarrow> client_result" where
  "client_DISCARD self c w =
     (if \<not> tx_active (txs (db w) self) then Continues [(self, err ''ERR DISCARD without MULTI'')] c w
      else Continues [(self, ok_reply)] c (on_tx self (\<lambda>_. zero_transaction) w))"

definition client_WATCH :: "connid \<Rightarrow> bytes list \<Rightarrow> conn \<Rightarrow> world \<Rightarrow> client_result" where
  "client_WATCH self cmd c w =
     (if length cmd < 2 then Continues [(self, wrong_args ''watch'')] c w
      else if tx_active (txs (db w) self)
      then Continues [(self, err ''ERR WATCH inside MULTI is not allowed'')] c w
      else Continues [(self, ok_reply)] c (w\<lparr>db := Watch self (drop 1 cmd) (db w)\<rparr>))"

definition client_UNWATCH :: "connid \<Rightarrow> conn \<Rightarrow> world \<Rightarrow> client_result" where
  "client_UNWATCH self c w = Continues [(self, ok_reply)] c (w\<lparr>db := Unwatch self (db w)\<rparr>)"

section \<open>Replication\<close>

text \<open>\<open>hex.DecodeString\<close>: \<open>None\<close> for an odd length or a character that is no digit.\<close>

definition hex_val :: "char \<Rightarrow> nat option" where
  "hex_val c =
     (let n = of_char c :: nat
      in if 48 \<le> n \<and> n \<le> 57 then Some (n - 48)
         else if 97 \<le> n \<and> n \<le> 102 then Some (n - 87)
         else if 65 \<le> n \<and> n \<le> 70 then Some (n - 55)
         else None)"

fun hex_DecodeString :: "string \<Rightarrow> bytes option" where
  "hex_DecodeString [] = Some []"
| "hex_DecodeString [a] = None"
| "hex_DecodeString (a # b # rest) =
     (case (hex_val a, hex_val b, hex_DecodeString rest) of
        (Some x, Some y, Some bs) \<Rightarrow> Some (char_of (16 * x + y) # bs)
      | _ \<Rightarrow> None)"

definition emptyRDBHex :: string where
  "emptyRDBHex = ''524544495330303131fa0972656469732d76657205372e322e30fa0a72656469732d62697473c040fa056374696d65c26d08bc65fa08757365642d6d656dc2b0c41000fa08616f662d62617365c000fff06e3bfec0ff5aa2''"

definition client_PSYNC :: "connid \<Rightarrow> conn \<Rightarrow> world \<Rightarrow> client_result" where
  "client_PSYNC self c w =
     (case hex_DecodeString emptyRDBHex of
        None \<Rightarrow> Panics
      | Some emptyRDB \<Rightarrow>
          Continues [(self, ''+FULLRESYNC '' @ replicationID (srv w) @ '' '' @ Itoa 0 @ crlf),
                     (self, ''$'' @ Itoa (length emptyRDB) @ crlf), (self, emptyRDB)] c
            (w\<lparr>srv := (srv w)\<lparr>srv_replicas := add_replica self (srv_replicas (srv w))\<rparr>\<rparr>))"

definition client_REPLCONF :: "host \<Rightarrow> connid \<Rightarrow> bytes list \<Rightarrow> conn \<Rightarrow> world \<Rightarrow> client_result" where
  "client_REPLCONF h self cmd c w =
     (if 3 \<le> length cmd \<and> EqualFold (uni_fold h) (cmd ! 1) ''ACK''
      then (case ParseInt (cmd ! 2) of (offset, e) \<Rightarrow>
              Continues [] c
                (if e = NoErr then w\<lparr>srv := (srv w)\<lparr>srv_replicas := ack self offset (srv_replicas (srv w))\<rparr>\<rparr> else w))
      else Continues [(self, ok_reply)] c w)"

definition client_WAIT :: "connid \<Rightarrow> bytes list \<Rightarrow> conn \<Rightarrow> world \<Rightarrow> client_result" where
  "client_WAIT self cmd c w =
     (if length cmd < 3 then Continues [(self, invalid_args ''wait'')] c w
      else
        (let numOfReplicas = fst (Atoi (cmd ! 1)); timeout = Milliseconds (fst (Atoi (cmd ! 2)))
         in case wait_begin (srv_replicas (srv w)) of
              WaitReturns n \<Rightarrow> Continues [(self, int_reply n)] c w
            | WaitFor target out r \<Rightarrow>
                (let w1 = w\<lparr>srv := (srv w)\<lparr>srv_replicas := r\<rparr>\<rparr>
                 in case wait_check numOfReplicas target r of
                      WaitDone n \<Rightarrow> Continues (out @ [(self, int_reply n)]) c w1
                    | WaitParked ch cnt \<Rightarrow> Blocks out (InWait numOfReplicas target ch cnt timeout) c w1)))"

section \<open>Publish and subscribe\<close>

definition subscribeCommands :: "string \<Rightarrow> bool" where
  "subscribeCommands nm \<longleftrightarrow> nm \<in> set [''SUBSCRIBE'', ''UNSUBSCRIBE'', ''PSUBSCRIBE'', ''PUNSUBSCRIBE'', ''QUIT'']"

definition on_pubsub :: "(pubsub \<Rightarrow> pubsub) \<Rightarrow> world \<Rightarrow> world" where
  "on_pubsub f w = w\<lparr>srv := (srv w)\<lparr>srv_pubsub := f (srv_pubsub (srv w))\<rparr>\<rparr>"

text \<open>The loops of SUBSCRIBE and UNSUBSCRIBE over the channels.\<close>

fun subscribe_loop :: "connid \<Rightarrow> bytes list \<Rightarrow> conn \<Rightarrow> world \<Rightarrow> wire \<times> conn \<times> world" where
  "subscribe_loop self [] c w = ([], c, w)"
| "subscribe_loop self (nm # nms) c w =
     (let w1 = on_pubsub (subscribe nm self) w;
          c1 = c\<lparr>subscribed := insert nm (subscribed c)\<rparr>
      in case subscribe_loop self nms c1 w1 of (out, c2, w2) \<Rightarrow>
           ((self, encodeSubscribeReply ''subscribe'' nm (card (subscribed c1))) # out, c2, w2))"

definition client_SUBSCRIBE :: "connid \<Rightarrow> bytes list \<Rightarrow> conn \<Rightarrow> world \<Rightarrow> client_result" where
  "client_SUBSCRIBE self cmd c w =
     (if length cmd < 2 then Continues [(self, wrong_args ''subscribe'')] c w
      else case subscribe_loop self (drop 1 cmd) (c\<lparr>sub := True\<rparr>) w of (out, c', w') \<Rightarrow> Continues out c' w')"

definition client_PUBLISH :: "os \<Rightarrow> connid \<Rightarrow> bytes list \<Rightarrow> conn \<Rightarrow> world \<Rightarrow> client_result" where
  "client_PUBLISH os self cmd c w =
     (if length cmd < 3 then Continues [(self, wrong_args ''publish'')] c w
      else case deliver_message (conn_order os) (cmd ! 1) (cmd ! 2) (srv_pubsub (srv w)) of
             (n, out) \<Rightarrow> Continues (out @ [(self, int_reply (int n))]) c w)"

text \<open>Writing to the subscriber of a connection that never subscribed follows a nil pointer.\<close>

fun unsubscribe_loop :: "connid \<Rightarrow> bytes list \<Rightarrow> conn \<Rightarrow> world \<Rightarrow> (wire \<times> conn \<times> world) go" where
  "unsubscribe_loop self [] c w = Ret ([], c, w)"
| "unsubscribe_loop self (nm # nms) c w =
     (if \<not> sub c then Panic
      else
        (case unsubscibe nm self (srv_pubsub (srv w)) of (n, ps) \<Rightarrow>
           go_bind (unsubscribe_loop self nms (c\<lparr>subscribed := subscribed c - {nm}\<rparr>) (on_pubsub (\<lambda>_. ps) w))
             (\<lambda>(out, c2, w2). Ret ((self, encodeSubscribeReply ''unsubscribe'' nm n) # out, c2, w2))))"

definition client_UNSUBSCRIBE :: "connid \<Rightarrow> bytes list \<Rightarrow> conn \<Rightarrow> world \<Rightarrow> client_result" where
  "client_UNSUBSCRIBE self cmd c w =
     (case unsubscribe_loop self (drop 1 cmd) c w of
        Panic \<Rightarrow> Panics
      | Ret (out, c', w') \<Rightarrow> Continues out c' w')"

text \<open>PING and everything else in subscriber mode.\<close>

definition client_subscriber_mode :: "string \<Rightarrow> bytes list \<Rightarrow> bytes option" where
  "client_subscriber_mode commandName cmd =
     (if commandName = ''PING''
      then Some (if length cmd < 2 then ''*2'' @ crlf @ bulk ''pong'' @ bulk [] else ''*2'' @ crlf @ bulk ''PONG'' @ bulk (cmd ! 1))
      else if \<not> subscribeCommands commandName
      then Some (err (''ERR Can'' @ [CHR 0x27] @ ''t execute '' @ [CHR 0x27] @ commandName @ [CHR 0x27] @
             '': only only (P|S)SUBSCRIBE / (P|S)UNSUBSCRIBE / PING / QUIT / RESET are allowed in this context''))
      else None)"

section \<open>Authentication\<close>

definition client_AUTH :: "host \<Rightarrow> connid \<Rightarrow> bytes list \<Rightarrow> conn \<Rightarrow> world \<Rightarrow> client_result" where
  "client_AUTH h self cmd c w =
     (if length cmd \<noteq> 2 \<and> length cmd \<noteq> 3 then Continues [(self, wrong_args ''auth'')] c w
      else
        (let (nm, password) = (if length cmd = 2 then (''default'', cmd ! 1) else (cmd ! 1, cmd ! 2))
         in case checkPassword (sha256_hex h) (srv_acl (srv w)) nm password of
              None \<Rightarrow> Continues [(self, err ''WRONGPASS invalid username-password pair or user is disabled.'')] c w
            | Some u \<Rightarrow> Continues [(self, ok_reply)] (c\<lparr>currentUser := Some u\<rparr>) w))"

section \<open>Data commands\<close>

text \<open>What follows \<open>handleCommands\<close> in the default case: a write goes to the replicas and to the file.\<close>

definition after_command :: "os \<Rightarrow> string \<Rightarrow> bytes list \<Rightarrow> world \<Rightarrow> wire \<times> world" where
  "after_command os commandName cmd w =
     (if writeCommands commandName
      then (case propagate cmd (srv_replicas (srv w)) of (out, r) \<Rightarrow>
              (out, w\<lparr>srv := (srv w)\<lparr>srv_replicas := r\<rparr>,
                     aof := snd (Append (os_write os) (os_sync os) (EncodeRaw cmd) (aof w))\<rparr>))
      else ([], w))"

definition client_default :: "os \<Rightarrow> host \<Rightarrow> connid \<Rightarrow> string \<Rightarrow> bytes list \<Rightarrow> conn \<Rightarrow> world \<Rightarrow> client_result" where
  "client_default os h self commandName cmd c w =
     (case run_data h cmd w of (out, w1) \<Rightarrow>
        (case out of
           Crash \<Rightarrow> Panics
         | Answer r s \<Rightarrow>
             (case after_command os commandName cmd w1 of (sent, w2) \<Rightarrow> Continues ((self, r) # sent) c w2)
         | _ \<Rightarrow> Blocks [] (InCommand out commandName cmd) c w1))"

section \<open>One iteration, and the loop\<close>

definition noauth_reply :: bytes where "noauth_reply = err ''NOAUTH Authentication required.''"
definition queued_reply :: bytes where "queued_reply = ''+QUEUED'' @ crlf"

definition client_switch :: "os \<Rightarrow> host \<Rightarrow> connid \<Rightarrow> string \<Rightarrow> bytes list \<Rightarrow> conn \<Rightarrow> world \<Rightarrow> client_result" where
  "client_switch os h self commandName cmd c w =
     (if commandName = ''MULTI'' then client_MULTI self c w
      else if commandName = ''EXEC'' then client_EXEC h self c w
      else if commandName = ''DISCARD'' then client_DISCARD self c w
      else if commandName = ''WATCH'' then client_WATCH self cmd c w
      else if commandName = ''UNWATCH'' then client_UNWATCH self c w
      else if commandName = ''PSYNC'' then client_PSYNC self c w
      else if commandName = ''REPLCONF'' then client_REPLCONF h self cmd c w
      else if commandName = ''WAIT'' then client_WAIT self cmd c w
      else if commandName = ''SUBSCRIBE'' then client_SUBSCRIBE self cmd c w
      else if commandName = ''PUBLISH'' then client_PUBLISH os self cmd c w
      else if commandName = ''UNSUBSCRIBE'' then client_UNSUBSCRIBE self cmd c w
      else if commandName = ''AUTH'' then client_AUTH h self cmd c w
      else client_default os h self commandName cmd c w)"

definition client_command :: "os \<Rightarrow> host \<Rightarrow> connid \<Rightarrow> bytes list \<Rightarrow> conn \<Rightarrow> world \<Rightarrow> client_result" where
  "client_command os h self cmd c w =
     (if cmd = [] then Panics
      else
        (let commandName = ToUpper (uni_upper h) (cmd ! 0)
         in if currentUser c = None \<and> commandName \<noteq> ''AUTH'' then Continues [(self, noauth_reply)] c w
            else if tx_active (txs (db w) self) \<and> commandName \<notin> {''MULTI'', ''EXEC'', ''DISCARD'', ''WATCH''}
            then Continues [(self, queued_reply)] c (on_tx self (\<lambda>tx. tx\<lparr>tx_queued := tx_queued tx @ [cmd]\<rparr>) w)
            else (case (if subscribed c \<noteq> {} then client_subscriber_mode commandName cmd else None) of
                    Some r \<Rightarrow> Continues [(self, r)] c w
                  | None \<Rightarrow> client_switch os h self commandName cmd c w)))"

definition open_conn :: "world \<Rightarrow> conn" where
  "open_conn w = \<lparr>sub = False, subscribed = {}, currentUser = defaultIfNoPass (srv_acl (srv w))\<rparr>"

text \<open>
  The end of the loop, with the deferred removal from the replicas, and the loop: \<open>r\<close> is everything the
  client sends, \<open>env i\<close> the platform in iteration \<open>i\<close>.
\<close>

datatype session =
  Ended wire world
| Waiting wire blocked bytes conn world
| Crashed wire

definition client_end :: "connid \<Rightarrow> read_err \<Rightarrow> world \<Rightarrow> session" where
  "client_end self e w =
     Ended (case e of ProtocolError msg \<Rightarrow> [(self, ''-ERR '' @ ProtocolError_Error msg @ crlf)] | _ \<Rightarrow> [])
       (w\<lparr>srv := (srv w)\<lparr>srv_replicas := remove_replica self (srv_replicas (srv w))\<rparr>\<rparr>)"

fun after_wire :: "wire \<Rightarrow> session \<Rightarrow> session" where
  "after_wire out (Ended o2 w) = Ended (out @ o2) w"
| "after_wire out (Waiting o2 b r c w) = Waiting (out @ o2) b r c w"
| "after_wire out (Crashed o2) = Crashed (out @ o2)"

partial_function (option) client_loop ::
  "(nat \<Rightarrow> os \<times> host) \<Rightarrow> nat \<Rightarrow> connid \<Rightarrow> bytes \<Rightarrow> conn \<Rightarrow> world \<Rightarrow> session option" where
  "client_loop env i self r c w =
     (case ReadCommand r of
        Inl e \<Rightarrow> Some (client_end self e w)
      | Inr (cmd, r') \<Rightarrow>
          (case client_command (fst (env i)) (snd (env i)) self cmd c w of
             Panics \<Rightarrow> Some (Crashed [])
           | Blocks out b c' w' \<Rightarrow> Some (Waiting out b r' c' w')
           | Continues out c' w' \<Rightarrow>
               Option.bind (client_loop env (i + 1) self r' c' w') (\<lambda>x. Some (after_wire out x))))"

definition handleClient :: "(nat \<Rightarrow> os \<times> host) \<Rightarrow> connid \<Rightarrow> bytes \<Rightarrow> world \<Rightarrow> session option" where
  "handleClient env self r w =
     client_loop env 0 self r (open_conn w) (on_tx self (\<lambda>_. zero_transaction) w)"

section \<open>Names and a plain SET\<close>

lemma ToUpper_ascii: "is_ascii x \<Longrightarrow> ToUpper uni x = map upper_char x"
  by (simp add: ToUpper_def)

lemma upper_names [simp]:
  "ToUpper uni ''SET'' = ''SET''" "ToUpper uni ''MULTI'' = ''MULTI''" "ToUpper uni ''PING'' = ''PING''"
proof -
  have "is_ascii ''SET''" "is_ascii ''MULTI''" "is_ascii ''PING''" by code_simp+
  moreover have "map upper_char ''SET'' = ''SET''" "map upper_char ''MULTI'' = ''MULTI''" "map upper_char ''PING'' = ''PING''"
    by code_simp+
  ultimately show "ToUpper uni ''SET'' = ''SET''" "ToUpper uni ''MULTI'' = ''MULTI''" "ToUpper uni ''PING'' = ''PING''"
    by (simp_all only: ToUpper_ascii)
qed

lemma upper_EXEC: "ToUpper uni ''EXEC'' = ''EXEC''"
proof -
  have "is_ascii ''EXEC''" "map upper_char ''EXEC'' = ''EXEC''" by code_simp+
  then show ?thesis by (simp only: ToUpper_ascii)
qed

lemma SET_run:
  "run_data h [''SET'', k, v] w = (Answer ok_reply (Set k v zero_time (db w)), w\<lparr>db := Set k v zero_time (db w)\<rparr>)"
  by (simp add: run_data_def outcome_store_def handleCommands_def Let_def command_table_def cmd_SET_def)

text \<open>An operating system that writes every byte, for examples.\<close>

definition plain_os :: os where "plain_os = \<lparr>os_write = WroteAll, os_sync = True, conn_order = sorted_list_of_set\<rparr>"

end
