(* ===== verification/Blocking.thy ===== *)
theory Blocking
  imports Lists "HOL-Library.Multiset"
begin

text \<open>
  BLPOP across connections, as a state machine over the atomic sections of \<open>BLpop\<close>, \<open>RPush\<close>,
  \<open>LPush\<close> and \<open>cancelWait\<close> (\<^verbatim>\<open>src/app/store.go\<close>): each section runs under the mutex, so an execution
  is a sequence of them in any order. \<open>waiting\<close> holds the calls blocked in the \<open>select\<close> statement of
  \<open>BLpop\<close>, by client; \<open>pushed\<close> and \<open>taken\<close> record, for the statements only, the elements clients pushed
  and the elements that BLPOP calls returned.
\<close>

record bsys =
  bst :: store
  waiting :: "nat \<rightharpoonup> string list \<times> chanid"
  pushed :: "popped multiset"
  taken :: "popped multiset"

datatype bevent =
  EPush string "string list" | EPushLeft string "string list"
| EEnter nat "string list" | EReceive nat | ECancel nat

definition binit :: bsys where
  "binit = \<lparr>bst = newStore, waiting = Map.empty, pushed = {#}, taken = {#}\<rparr>"

inductive bstep :: "bsys \<Rightarrow> bevent \<Rightarrow> bsys \<Rightarrow> bool" where
  push: "RPush key vals (bst \<sigma>) = Returns (n, s') \<Longrightarrow>
     bstep \<sigma> (EPush key vals) (\<sigma>\<lparr>bst := s', pushed := pushed \<sigma> + image_mset (Pair key) (mset vals)\<rparr>)"
| push_left: "LPush key vals (bst \<sigma>) = (n, s') \<Longrightarrow>
     bstep \<sigma> (EPushLeft key vals)
       (\<sigma>\<lparr>bst := s', pushed := pushed \<sigma> + image_mset (Pair key) (mset vals)\<rparr>)"
| served: "waiting \<sigma> c = None \<Longrightarrow> BLpop_enter keys (bst \<sigma>) = Served p s' \<Longrightarrow>
     bstep \<sigma> (EEnter c keys) (\<sigma>\<lparr>bst := s', taken := taken \<sigma> + {#p#}\<rparr>)"
| parked: "waiting \<sigma> c = None \<Longrightarrow> BLpop_enter keys (bst \<sigma>) = Parked ch s' \<Longrightarrow>
     bstep \<sigma> (EEnter c keys) (\<sigma>\<lparr>bst := s', waiting := (waiting \<sigma>)(c \<mapsto> (keys, ch))\<rparr>)"
| receive: "waiting \<sigma> c = Some (keys, ch) \<Longrightarrow> chan_recv ch (bst \<sigma>) = Some (p, s') \<Longrightarrow>
     bstep \<sigma> (EReceive c)
       (\<sigma>\<lparr>bst := s', waiting := (waiting \<sigma>)(c := None), taken := taken \<sigma> + {#p#}\<rparr>)"
| cancel_empty: "waiting \<sigma> c = Some (keys, ch) \<Longrightarrow> cancelWait keys ch (bst \<sigma>) = Returns (None, s') \<Longrightarrow>
     bstep \<sigma> (ECancel c) (\<sigma>\<lparr>bst := s', waiting := (waiting \<sigma>)(c := None)\<rparr>)"
| cancel_value: "waiting \<sigma> c = Some (keys, ch) \<Longrightarrow>
     cancelWait keys ch (bst \<sigma>) = Returns (Some p, s') \<Longrightarrow>
     bstep \<sigma> (ECancel c)
       (\<sigma>\<lparr>bst := s', waiting := (waiting \<sigma>)(c := None), taken := taken \<sigma> + {#p#}\<rparr>)"

inductive_cases bstep_cases: "bstep \<sigma> ev \<sigma>'"

section \<open>What lists and channels hold\<close>

definition entry_elems :: "string \<Rightarrow> entry option \<Rightarrow> popped multiset" where
  "entry_elems k eo = (case eo of None \<Rightarrow> {#} | Some e \<Rightarrow> image_mset (Pair k) (mset (e_list e)))"

definition list_elems :: "(string \<rightharpoonup> entry) \<Rightarrow> popped multiset" where
  "list_elems d = (\<Sum>k \<in> dom d. entry_elems k (d k))"

definition chan_elems :: "(nat \<rightharpoonup> string list \<times> chanid) \<Rightarrow> (chanid \<Rightarrow> popped list) \<Rightarrow> popped multiset" where
  "chan_elems w cs = (\<Sum>c \<in> dom w. mset (cs (snd (the (w c)))))"

lemma list_elems_remove:
  assumes "finite (dom d)"
  shows "list_elems d = list_elems (d(k := None)) + entry_elems k (d k)"
proof (cases "d k")
  case None
  then have "d(k := None) = d" by auto
  with None show ?thesis by (simp add: entry_elems_def)
next
  case (Some e)
  then have k: "k \<in> dom d" by auto
  have "list_elems (d(k := None)) = (\<Sum>j \<in> dom d - {k}. entry_elems j (d j))"
    unfolding list_elems_def by (rule sum.cong) auto
  with sum.remove [OF assms k, of "\<lambda>k. entry_elems k (d k)"] show ?thesis
    by (simp add: list_elems_def add.commute)
qed

lemma list_elems_update:
  assumes "finite (dom d)"
  shows "list_elems (d(k \<mapsto> e)) + entry_elems k (d k) = list_elems d + entry_elems k (Some e)"
  using list_elems_remove [OF assms, of k] list_elems_remove [of "d(k \<mapsto> e)" k] assms
  by (simp add: ac_simps)

lemma chan_elems_remove:
  assumes "finite (dom w)" and "w c = Some (ks, ch)"
  shows "chan_elems w cs = chan_elems (w(c := None)) cs + mset (cs ch)"
proof -
  have c: "c \<in> dom w" using assms(2) by auto
  have "chan_elems (w(c := None)) cs = (\<Sum>j \<in> dom w - {c}. mset (cs (snd (the (w j)))))"
    unfolding chan_elems_def by (rule sum.cong) auto
  with sum.remove [OF assms(1) c, of "\<lambda>j. mset (cs (snd (the (w j))))"] assms(2) show ?thesis
    by (simp add: chan_elems_def add.commute)
qed

lemma chan_elems_cong:
  "(\<And>c ks ch. w c = Some (ks, ch) \<Longrightarrow> cs ch = cs' ch) \<Longrightarrow> chan_elems w cs = chan_elems w cs'"
  unfolding chan_elems_def by (rule sum.cong) (auto simp: dom_def)

section \<open>The invariant of single-key calls\<close>

definition single_key :: "bevent \<Rightarrow> bool" where
  "single_key ev = (case ev of EEnter c keys \<Rightarrow> length keys = 1 | _ \<Rightarrow> True)"

text \<open>
  \<open>protocol_ok\<close>: every blocked call is either still queued under its key with an empty channel, or
  no longer queued with exactly one element of that key in its channel; queues hold each call once.
  \<open>conserved\<close>: every element pushed is in a list, in the channel of a blocked call, or was returned.
\<close>

definition call_ok :: "store \<Rightarrow> string \<Rightarrow> chanid \<Rightarrow> bool" where
  "call_ok s k ch \<longleftrightarrow>
     ch \<in> set (slice_at (waiters s) k) \<and> chans s ch = [] \<or>
     ch \<notin> set (slice_at (waiters s) k) \<and> (\<exists>v. chans s ch = [(k, v)])"

definition protocol_ok :: "bsys \<Rightarrow> bool" where
  "protocol_ok \<sigma> \<longleftrightarrow>
     finite (dom (data (bst \<sigma>))) \<and> finite (dom (waiting \<sigma>)) \<and>
     (\<forall>c ks ch. waiting \<sigma> c = Some (ks, ch) \<longrightarrow>
        ch < next_chan (bst \<sigma>) \<and> (\<exists>k. ks = [k] \<and> call_ok (bst \<sigma>) k ch)) \<and>
     (\<forall>c c' ks ks' ch. waiting \<sigma> c = Some (ks, ch) \<longrightarrow> waiting \<sigma> c' = Some (ks', ch) \<longrightarrow> c = c') \<and>
     (\<forall>k. distinct (slice_at (waiters (bst \<sigma>)) k)) \<and>
     (\<forall>k ch. ch \<in> set (slice_at (waiters (bst \<sigma>)) k) \<longrightarrow> (\<exists>c. waiting \<sigma> c = Some ([k], ch)))"

lemma protocol_okI:
  assumes "finite (dom (data (bst \<sigma>)))" and "finite (dom (waiting \<sigma>))"
    and "\<And>c ks ch. waiting \<sigma> c = Some (ks, ch) \<Longrightarrow>
        ch < next_chan (bst \<sigma>) \<and> (\<exists>k. ks = [k] \<and> call_ok (bst \<sigma>) k ch)"
    and "\<And>c c' ks ks' ch. waiting \<sigma> c = Some (ks, ch) \<Longrightarrow> waiting \<sigma> c' = Some (ks', ch) \<Longrightarrow> c = c'"
    and "\<And>k. distinct (slice_at (waiters (bst \<sigma>)) k)"
    and "\<And>k ch. ch \<in> set (slice_at (waiters (bst \<sigma>)) k) \<Longrightarrow> \<exists>c. waiting \<sigma> c = Some ([k], ch)"
  shows "protocol_ok \<sigma>"
  unfolding protocol_ok_def using assms by blast

definition conserved :: "bsys \<Rightarrow> bool" where
  "conserved \<sigma> \<longleftrightarrow>
     pushed \<sigma> = list_elems (data (bst \<sigma>)) + chan_elems (waiting \<sigma>) (chans (bst \<sigma>)) + taken \<sigma>"

lemma protocol_okD:
  assumes "protocol_ok \<sigma>"
  shows "finite (dom (data (bst \<sigma>)))" and "finite (dom (waiting \<sigma>))"
    and "waiting \<sigma> c = Some (ks, ch) \<Longrightarrow> ch < next_chan (bst \<sigma>)"
    and "waiting \<sigma> c = Some (ks, ch) \<Longrightarrow> \<exists>k. ks = [k]"
    and "waiting \<sigma> c = Some ([k], ch) \<Longrightarrow> call_ok (bst \<sigma>) k ch"
    and "waiting \<sigma> c = Some (ks, ch) \<Longrightarrow> waiting \<sigma> c' = Some (ks', ch) \<Longrightarrow> c = c'"
    and "distinct (slice_at (waiters (bst \<sigma>)) k)"
    and "ch \<in> set (slice_at (waiters (bst \<sigma>)) k) \<Longrightarrow> \<exists>c. waiting \<sigma> c = Some ([k], ch)"
  using assms unfolding protocol_ok_def by (blast | fastforce)+

lemma queued_chan_empty:
  "protocol_ok \<sigma> \<Longrightarrow> ch \<in> set (slice_at (waiters (bst \<sigma>)) k) \<Longrightarrow> chans (bst \<sigma>) ch = []"
  using protocol_okD(5,8) [of \<sigma>] by (fastforce simp: call_ok_def)

section \<open>Every section keeps the invariant\<close>

lemma chan_elems_put:
  assumes "finite (dom w)" and "w c = Some (ks, ch)" and "cs ch = []"
    and "\<And>c' ks'. w c' = Some (ks', ch) \<Longrightarrow> c' = c"
  shows "chan_elems w (cs(ch := [p])) = chan_elems w cs + {#p#}"
proof -
  have "chan_elems (w(c := None)) (cs(ch := [p])) = chan_elems (w(c := None)) cs"
    by (rule chan_elems_cong) (use assms(4) in \<open>auto split: if_splits\<close>)
  then show ?thesis
    using chan_elems_remove [OF assms(1,2), of cs] chan_elems_remove [OF assms(1,2), of "cs(ch := [p])"]
      assms(3) by simp
qed

lemma chan_elems_deliver:
  assumes "finite (dom w)" and "distinct q" and "\<forall>ch \<in> set q. cs ch = [] \<and> (\<exists>c. w c = Some ([key], ch))"
    and "\<And>c c' ks ks' ch. w c = Some (ks, ch) \<Longrightarrow> w c' = Some (ks', ch) \<Longrightarrow> c = c'"
  shows "chan_elems w (deliver key q vals cs) =
     chan_elems w cs + image_mset (Pair key) (mset (take (length q) vals))"
  using assms(2,3)
proof (induction q arbitrary: vals cs)
  case (Cons ch q)
  show ?case
  proof (cases vals)
    case Nil
    then show ?thesis by simp
  next
    case (Cons v vs)
    let ?cs = "cs(ch := [(key, v)])"
    obtain c where c: "w c = Some ([key], ch)" using Cons.prems(2) by auto
    have "\<forall>ch' \<in> set q. ?cs ch' = [] \<and> (\<exists>c. w c = Some ([key], ch'))" using Cons.prems by auto
    with Cons.prems(1) have "chan_elems w (deliver key q vs ?cs) =
        chan_elems w ?cs + image_mset (Pair key) (mset (take (length q) vs))"
      by (intro Cons.IH) (simp_all only: distinct.simps)
    also have "chan_elems w ?cs = chan_elems w cs + {#(key, v)#}"
      using assms(4) c Cons.prems(2) by (intro chan_elems_put [OF assms(1) c]) auto
    finally show ?thesis
      using Cons Cons.prems(1) by (simp add: deliver_Cons ac_simps del: fun_upd_apply)
  qed
qed simp

lemma push_protocol_ok:
  assumes ok: "protocol_ok \<sigma>" and step: "RPush key vals (bst \<sigma>) = Returns (n, s')"
  shows "protocol_ok (\<sigma>\<lparr>bst := s', pushed := P\<rparr>)"
proof -
  let ?s = "bst \<sigma>"
  define q where "q = slice_at (waiters ?s) key"
  have q: "distinct q" "\<forall>ch \<in> set q. chans ?s ch = []"
    using protocol_okD(7) [OF ok] queued_chan_empty [OF ok] by (auto simp: q_def)
  from RPush_spec [OF q_def [symmetric] q, of vals] step
  have s': "data s' = (data ?s)(key \<mapsto> (entry_at ?s key)\<lparr>e_list := e_list (entry_at ?s key) @ drop (length q) vals\<rparr>)"
    and w': "\<And>k. slice_at (waiters s') k = (if k = key then drop (length vals) q else slice_at (waiters ?s) k)"
    and c': "chans s' = deliver key q vals (chans ?s)" and nc: "next_chan s' = next_chan ?s"
    by (auto simp: q_def)
  have disj: "set (take (length vals) q) \<inter> set (drop (length vals) q) = {}"
    using q(1) by (simp add: set_take_disj_set_drop_if_distinct)
  have split: "set q = set (take (length vals) q) \<union> set (drop (length vals) q)"
    by (metis append_take_drop_id set_append)
  have own: "k = key" if "waiting \<sigma> c = Some ([k], ch)" and "ch \<in> set q" for c k ch
    using that protocol_okD(6,8) [OF ok] by (metis list.inject option.inject prod.inject q_def)
  have state: "ch \<in> set (slice_at (waiters s') k) \<and> chans s' ch = [] \<or>
      ch \<notin> set (slice_at (waiters s') k) \<and> (\<exists>v. chans s' ch = [(k, v)])"
    if w: "waiting \<sigma> c = Some ([k], ch)" for c k ch
  proof (cases "ch \<in> set (take (length vals) q)")
    case True
    with own [OF w] split have "k = key" by auto
    with True disj deliver_inside [OF True, of key "chans ?s"] show ?thesis by (auto simp: w' c')
  next
    case False
    from deliver_outside [OF this] have "chans s' ch = chans ?s ch" by (simp add: c')
    moreover have "ch \<in> set (slice_at (waiters s') k) \<longleftrightarrow> ch \<in> set (slice_at (waiters ?s) k)"
      using False split by (auto simp: w' q_def)
    ultimately show ?thesis using protocol_okD(5) [OF ok w] by (simp add: call_ok_def)
  qed
  have sub: "set (slice_at (waiters s') k) \<subseteq> set (slice_at (waiters ?s) k)"
    and dist: "distinct (slice_at (waiters s') k)" for k
    using protocol_okD(7) [OF ok, of k] by (auto simp: w' q_def dest: in_set_dropD)
  show ?thesis
  proof (rule protocol_okI)
    fix c ks ch
    assume "waiting (\<sigma>\<lparr>bst := s', pushed := P\<rparr>) c = Some (ks, ch)"
    then have w: "waiting \<sigma> c = Some (ks, ch)" by simp
    obtain k where k: "ks = [k]" using protocol_okD(4) [OF ok w] by auto
    with w state protocol_okD(3) [OF ok w] nc
    show "ch < next_chan (bst (\<sigma>\<lparr>bst := s', pushed := P\<rparr>)) \<and>
        (\<exists>k. ks = [k] \<and> call_ok (bst (\<sigma>\<lparr>bst := s', pushed := P\<rparr>)) k ch)"
      by (simp add: call_ok_def)
  next
    fix k ch
    assume "ch \<in> set (slice_at (waiters (bst (\<sigma>\<lparr>bst := s', pushed := P\<rparr>))) k)"
    then have "ch \<in> set (slice_at (waiters (bst \<sigma>)) k)" using sub [of k] by auto
    from protocol_okD(8) [OF ok this]
    show "\<exists>c. waiting (\<sigma>\<lparr>bst := s', pushed := P\<rparr>) c = Some ([k], ch)" by simp
  qed (use protocol_okD(1,2,6) [OF ok] s' dist in auto)
qed

lemma push_conserved:
  assumes ok: "protocol_ok \<sigma>" and con: "conserved \<sigma>"
    and step: "RPush key vals (bst \<sigma>) = Returns (n, s')"
  shows "conserved (\<sigma>\<lparr>bst := s', pushed := pushed \<sigma> + image_mset (Pair key) (mset vals)\<rparr>)"
proof -
  let ?s = "bst \<sigma>"
  let ?e = "entry_at ?s key"
  define q where "q = slice_at (waiters ?s) key"
  have q: "distinct q" "\<forall>ch \<in> set q. chans ?s ch = []"
    using protocol_okD(7) [OF ok] queued_chan_empty [OF ok] by (auto simp: q_def)
  let ?e' = "?e\<lparr>e_list := e_list ?e @ drop (length q) vals\<rparr>"
  from RPush_spec [OF q_def [symmetric] q, of vals] step
  have d: "data s' = (data ?s)(key \<mapsto> ?e')" and c: "chans s' = deliver key q vals (chans ?s)"
    by auto
  have "list_elems (data s') + entry_elems key (data ?s key) =
      list_elems (data ?s) + entry_elems key (Some ?e')"
    unfolding d by (rule list_elems_update [OF protocol_okD(1) [OF ok]])
  moreover have "entry_elems key (Some ?e') =
      entry_elems key (data ?s key) + image_mset (Pair key) (mset (drop (length q) vals))"
    by (simp add: entry_elems_def entry_at_def zero_entry_def split: option.split)
  ultimately have l: "list_elems (data s') =
      list_elems (data ?s) + image_mset (Pair key) (mset (drop (length q) vals))"
    by (simp add: ac_simps)
  have "chan_elems (waiting \<sigma>) (chans s') =
      chan_elems (waiting \<sigma>) (chans ?s) + image_mset (Pair key) (mset (take (length q) vals))"
    unfolding c using protocol_okD(2,6,8) [OF ok] q
    by (intro chan_elems_deliver) (auto simp: q_def)
  moreover have "mset vals = mset (take (length q) vals) + mset (drop (length q) vals)"
    by (metis append_take_drop_id mset_append)
  ultimately show ?thesis using con l by (simp add: conserved_def ac_simps)
qed

text \<open>A section that changes lists only.\<close>

lemma data_step_protocol_ok:
  assumes ok: "protocol_ok \<sigma>" and "waiters s' = waiters (bst \<sigma>)" and "chans s' = chans (bst \<sigma>)"
    and "next_chan s' = next_chan (bst \<sigma>)" and "finite (dom (data s'))"
  shows "protocol_ok (\<sigma>\<lparr>bst := s', pushed := P, taken := T\<rparr>)"
  using assms unfolding protocol_ok_def call_ok_def by simp

lemma push_left_conserved:
  assumes ok: "protocol_ok \<sigma>" and con: "conserved \<sigma>" and step: "LPush key vals (bst \<sigma>) = (n, s')"
  shows "conserved (\<sigma>\<lparr>bst := s', pushed := pushed \<sigma> + image_mset (Pair key) (mset vals)\<rparr>)"
proof -
  let ?s = "bst \<sigma>"
  obtain e' where d: "data s' = (data ?s)(key \<mapsto> e')"
    and e': "e_list e' = rev vals @ e_list (entry_at ?s key)" and c: "chans s' = chans ?s"
    using step by (auto simp: LPush_def Let_def fold_Cons_rev)
  have "list_elems (data s') + entry_elems key (data ?s key) =
      list_elems (data ?s) + entry_elems key (Some e')"
    unfolding d by (rule list_elems_update [OF protocol_okD(1) [OF ok]])
  moreover have "entry_elems key (Some e') =
      entry_elems key (data ?s key) + image_mset (Pair key) (mset vals)"
    by (simp add: entry_elems_def e' entry_at_def zero_entry_def split: option.split)
  ultimately show ?thesis using con c by (simp add: conserved_def ac_simps)
qed

lemma served_conserved:
  assumes ok: "protocol_ok \<sigma>" and con: "conserved \<sigma>"
    and step: "BLpop_enter [k] (bst \<sigma>) = Served p s'"
  shows "conserved (\<sigma>\<lparr>bst := s', taken := taken \<sigma> + {#p#}\<rparr>)"
proof -
  let ?s = "bst \<sigma>"
  have fin: "finite (dom (data ?s))" using protocol_okD(1) [OF ok] .
  from step obtain v vs where l: "e_list (entry_at ?s k) = v # vs" and p: "p = (k, v)"
    and d: "data s' = (if vs = [] then (data ?s)(k := None)
        else (data ?s)(k \<mapsto> (entry_at ?s k)\<lparr>e_list := vs\<rparr>))" and c: "chans s' = chans ?s"
    by (auto simp: BLpop_enter_def Let_def split: option.splits list.splits if_splits)
  from l obtain e where e: "data ?s k = Some e" "e_list e = v # vs"
    by (cases "data ?s k") (auto simp: entry_at_def zero_entry_def)
  have "list_elems (data ?s) = list_elems (data s') + {#p#}"
  proof (cases "vs = []")
    case True
    then show ?thesis using list_elems_remove [OF fin, of k] e d p by (simp add: entry_elems_def)
  next
    case False
    then show ?thesis
      using list_elems_update [OF fin, of k "(entry_at ?s k)\<lparr>e_list := vs\<rparr>"] e d p
      by (simp add: entry_elems_def)
  qed
  with con c show ?thesis by (simp add: conserved_def)
qed

lemma served_protocol_ok:
  assumes "protocol_ok \<sigma>" and "BLpop_enter keys (bst \<sigma>) = Served p s'"
  shows "protocol_ok (\<sigma>\<lparr>bst := s', pushed := P, taken := T\<rparr>)"
proof -
  have "blpop_scan keys s = Some (p, s') \<Longrightarrow> finite (dom (data s)) \<Longrightarrow>
      waiters s' = waiters s \<and> chans s' = chans s \<and> next_chan s' = next_chan s \<and> finite (dom (data s'))"
    for s by (induction keys) (auto split: list.splits if_splits)
  moreover have "blpop_scan keys (bst \<sigma>) = Some (p, s')"
    using assms(2) by (auto simp: BLpop_enter_def Let_def split: option.splits)
  ultimately show ?thesis using assms(1) protocol_okD(1) [OF assms(1)]
    by (intro data_step_protocol_ok) auto
qed

lemma BLpop_enter_Parked:
  assumes "BLpop_enter [k] s = Parked ch s'"
  shows "ch = next_chan s" and "e_list (entry_at s k) = []"
    and "s' = s\<lparr>next_chan := ch + 1, chans := (chans s)(ch := []),
                waiters := (waiters s)(k \<mapsto> slice_at (waiters s) k @ [ch])\<rparr>"
  using assms
  by (auto simp: BLpop_enter_def Let_def register_waiter_def split: option.splits list.splits if_splits)

lemma parked_protocol_ok:
  assumes ok: "protocol_ok \<sigma>" and free: "waiting \<sigma> c = None"
    and step: "BLpop_enter [k] (bst \<sigma>) = Parked ch s'"
  shows "protocol_ok (\<sigma>\<lparr>bst := s', waiting := (waiting \<sigma>)(c \<mapsto> ([k], ch))\<rparr>)"
proof -
  note s' = BLpop_enter_Parked(3) [OF step]
  have fresh: "\<And>c' ks. waiting \<sigma> c' \<noteq> Some (ks, ch)"
    using protocol_okD(3) [OF ok] BLpop_enter_Parked(1) [OF step] by blast
  have freshq: "\<And>k'. ch \<notin> set (slice_at (waiters (bst \<sigma>)) k')"
    using protocol_okD(8) [OF ok] fresh by blast
  have calls: "ch' < next_chan s' \<and> (\<exists>k'. ks = [k'] \<and> call_ok s' k' ch')"
    if "((waiting \<sigma>)(c \<mapsto> ([k], ch))) c' = Some (ks, ch')" for c' ks ch'
  proof (cases "c' = c")
    case True
    with that show ?thesis by (auto simp: s' call_ok_def)
  next
    case False
    with that have w: "waiting \<sigma> c' = Some (ks, ch')" by simp
    then obtain k' where k': "ks = [k']" using protocol_okD(4) [OF ok] by blast
    have "ch' \<noteq> ch" using w fresh by blast
    with protocol_okD(5) [OF ok w [unfolded k']] protocol_okD(3) [OF ok w]
      BLpop_enter_Parked(1) [OF step] k' show ?thesis
      by (auto simp: s' call_ok_def)
  qed
  show ?thesis
  proof (rule protocol_okI)
    fix k' ch'
    assume "ch' \<in> set (slice_at (waiters (bst (\<sigma>\<lparr>bst := s', waiting := (waiting \<sigma>)(c \<mapsto> ([k], ch))\<rparr>))) k')"
    then have "ch' \<in> set (slice_at (waiters (bst \<sigma>)) k') \<or> ch' = ch \<and> k' = k"
      by (auto simp: s' split: if_splits)
    then show "\<exists>c'. waiting (\<sigma>\<lparr>bst := s', waiting := (waiting \<sigma>)(c \<mapsto> ([k], ch))\<rparr>) c' = Some ([k'], ch')"
      using protocol_okD(8) [OF ok] free by (auto split: if_splits) (metis option.distinct(1))
  qed (use protocol_okD(1,2,6,7) [OF ok] calls fresh freshq in
      \<open>auto simp: s' split: if_splits\<close>)
qed

lemma parked_conserved:
  assumes ok: "protocol_ok \<sigma>" and con: "conserved \<sigma>" and free: "waiting \<sigma> c = None"
    and step: "BLpop_enter [k] (bst \<sigma>) = Parked ch s'"
  shows "conserved (\<sigma>\<lparr>bst := s', waiting := (waiting \<sigma>)(c \<mapsto> ([k], ch))\<rparr>)"
proof -
  note s' = BLpop_enter_Parked(3) [OF step]
  let ?w = "(waiting \<sigma>)(c \<mapsto> ([k], ch))"
  have "\<And>c' ks. waiting \<sigma> c' \<noteq> Some (ks, ch)"
    using protocol_okD(3) [OF ok] BLpop_enter_Parked(1) [OF step] by blast
  then have "chan_elems (waiting \<sigma>) (chans s') = chan_elems (waiting \<sigma>) (chans (bst \<sigma>))"
    by (intro chan_elems_cong) (auto simp: s')
  moreover have "chan_elems ?w (chans s') = chan_elems (?w(c := None)) (chans s') + mset (chans s' ch)"
    using protocol_okD(2) [OF ok] by (intro chan_elems_remove) auto
  moreover have "?w(c := None) = waiting \<sigma>" using free by auto
  ultimately show ?thesis using con by (simp add: conserved_def s')
qed

text \<open>A call that leaves: its channel is in no queue any more.\<close>

lemma leave_protocol_ok:
  assumes ok: "protocol_ok \<sigma>" and w: "waiting \<sigma> c = Some (ks, ch)"
    and q: "\<And>k. slice_at (waiters s') k = remove1 ch (slice_at (waiters (bst \<sigma>)) k)"
    and cs: "\<And>ch'. ch' \<noteq> ch \<Longrightarrow> chans s' ch' = chans (bst \<sigma>) ch'"
    and d: "data s' = data (bst \<sigma>)" "next_chan s' = next_chan (bst \<sigma>)"
  shows "protocol_ok (\<sigma>\<lparr>bst := s', waiting := (waiting \<sigma>)(c := None), taken := T\<rparr>)"
proof -
  have notin: "ch \<notin> set (slice_at (waiters s') k)" for k
    using protocol_okD(7) [OF ok, of k] by (simp add: q)
  have calls: "ch' < next_chan s' \<and> (\<exists>k'. ks' = [k'] \<and> call_ok s' k' ch')"
    if "((waiting \<sigma>)(c := None)) c' = Some (ks', ch')" for c' ks' ch'
  proof -
    from that have w': "waiting \<sigma> c' = Some (ks', ch')" and "c' \<noteq> c" by (auto split: if_splits)
    then have ne: "ch' \<noteq> ch" using protocol_okD(6) [OF ok w] w' by blast
    obtain k' where k': "ks' = [k']" using protocol_okD(4) [OF ok w'] by blast
    from protocol_okD(5) [OF ok w' [unfolded k']] protocol_okD(3) [OF ok w'] ne k' show ?thesis
      by (auto simp: call_ok_def q cs d)
  qed
  show ?thesis
  proof (rule protocol_okI)
    fix k ch'
    assume a: "ch' \<in> set (slice_at (waiters (bst (\<sigma>\<lparr>bst := s', waiting := (waiting \<sigma>)(c := None), taken := T\<rparr>))) k)"
    then have "ch' \<noteq> ch" and "ch' \<in> set (slice_at (waiters (bst \<sigma>)) k)"
      using notin set_remove1_subset [of ch "slice_at (waiters (bst \<sigma>)) k"] by (auto simp: q)
    then show "\<exists>c'. waiting (\<sigma>\<lparr>bst := s', waiting := (waiting \<sigma>)(c := None), taken := T\<rparr>) c' = Some ([k], ch')"
      using protocol_okD(8) [OF ok, of ch' k] w by force
  qed (use protocol_okD(1,2,6,7) [OF ok] calls d in \<open>auto simp: q split: if_splits\<close>)
qed

lemma leave_conserved:
  assumes ok: "protocol_ok \<sigma>" and con: "conserved \<sigma>" and w: "waiting \<sigma> c = Some (ks, ch)"
    and cs: "\<And>ch'. ch' \<noteq> ch \<Longrightarrow> chans s' ch' = chans (bst \<sigma>) ch'" and d: "data s' = data (bst \<sigma>)"
  shows "conserved (\<sigma>\<lparr>bst := s', waiting := (waiting \<sigma>)(c := None),
    taken := taken \<sigma> + mset (chans (bst \<sigma>) ch)\<rparr>)"
proof -
  have "chan_elems ((waiting \<sigma>)(c := None)) (chans s') =
      chan_elems ((waiting \<sigma>)(c := None)) (chans (bst \<sigma>))"
    using protocol_okD(6) [OF ok w] cs by (intro chan_elems_cong) (metis fun_upd_apply option.distinct(1))
  then show ?thesis
    using con chan_elems_remove [OF protocol_okD(2) [OF ok] w, of "chans (bst \<sigma>)"] d
    by (simp add: conserved_def ac_simps)
qed

text \<open>What receiving and cancelling do to a call the invariant covers.\<close>

lemma receive_effect:
  assumes ok: "protocol_ok \<sigma>" and w: "waiting \<sigma> c = Some ([k], ch)"
    and recv: "chan_recv ch (bst \<sigma>) = Some (p, s')"
  shows "chans (bst \<sigma>) ch = [p]" and "ch \<notin> set (slice_at (waiters (bst \<sigma>)) k)" and "fst p = k"
    and "s' = (bst \<sigma>)\<lparr>chans := (chans (bst \<sigma>))(ch := [])\<rparr>"
  using recv protocol_okD(5) [OF ok w]
  by (auto simp: chan_recv_def call_ok_def split: list.splits)

lemma other_queue_free:
  assumes ok: "protocol_ok \<sigma>" and w: "waiting \<sigma> c = Some ([k], ch)" and "k' \<noteq> k"
  shows "ch \<notin> set (slice_at (waiters (bst \<sigma>)) k')"
  using protocol_okD(6,8) [OF ok] w assms(3) by (metis list.inject option.inject prod.inject)

lemma removeWaiter_single:
  "removeWaiter [k] ch s =
     (if ch \<in> set (slice_at (waiters s) k)
      then (True, s\<lparr>waiters := (waiters s)(k \<mapsto> remove1 ch (slice_at (waiters s) k))\<rparr>) else (False, s))"
  by (simp add: removeWaiter_def unregister_waiter_def)

lemma cancel_effect:
  assumes ok: "protocol_ok \<sigma>" and w: "waiting \<sigma> c = Some ([k], ch)"
  shows "cancelWait [k] ch (bst \<sigma>) =
     (case chans (bst \<sigma>) ch of
        [] \<Rightarrow> Returns (None, (bst \<sigma>)\<lparr>waiters :=
                (waiters (bst \<sigma>))(k \<mapsto> remove1 ch (slice_at (waiters (bst \<sigma>)) k))\<rparr>)
      | p # _ \<Rightarrow> Returns (Some p, (bst \<sigma>)\<lparr>chans := (chans (bst \<sigma>))(ch := [])\<rparr>))"
  using protocol_okD(5) [OF ok w]
  by (auto simp: cancelWait_def removeWaiter_single call_ok_def chan_recv_def)

lemma receive_step:
  assumes ok: "protocol_ok \<sigma>" and con: "conserved \<sigma>" and w: "waiting \<sigma> c = Some (ks, ch)"
    and recv: "chan_recv ch (bst \<sigma>) = Some (p, s')"
  shows "protocol_ok (\<sigma>\<lparr>bst := s', waiting := (waiting \<sigma>)(c := None), taken := taken \<sigma> + {#p#}\<rparr>)"
    and "conserved (\<sigma>\<lparr>bst := s', waiting := (waiting \<sigma>)(c := None), taken := taken \<sigma> + {#p#}\<rparr>)"
proof -
  obtain k where k: "ks = [k]" using protocol_okD(4) [OF ok w] by blast
  note eff = receive_effect [OF ok w [unfolded k] recv]
  have "slice_at (waiters s') k' = remove1 ch (slice_at (waiters (bst \<sigma>)) k')" for k'
    using eff other_queue_free [OF ok w [unfolded k], of k'] by (cases "k' = k") (auto simp: remove1_idem)
  then show "protocol_ok (\<sigma>\<lparr>bst := s', waiting := (waiting \<sigma>)(c := None), taken := taken \<sigma> + {#p#}\<rparr>)"
    using eff by (intro leave_protocol_ok [OF ok w]) auto
  show "conserved (\<sigma>\<lparr>bst := s', waiting := (waiting \<sigma>)(c := None), taken := taken \<sigma> + {#p#}\<rparr>)"
    using leave_conserved [OF ok con w, of s'] eff by simp
qed

lemma cancel_step:
  assumes ok: "protocol_ok \<sigma>" and con: "conserved \<sigma>" and w: "waiting \<sigma> c = Some (ks, ch)"
    and cancel: "cancelWait ks ch (bst \<sigma>) = Returns (po, s')"
  defines "T \<equiv> taken \<sigma> + (case po of None \<Rightarrow> {#} | Some p \<Rightarrow> {#p#})"
  shows "protocol_ok (\<sigma>\<lparr>bst := s', waiting := (waiting \<sigma>)(c := None), taken := T\<rparr>)"
    and "conserved (\<sigma>\<lparr>bst := s', waiting := (waiting \<sigma>)(c := None), taken := T\<rparr>)"
proof -
  obtain k where k: "ks = [k]" using protocol_okD(4) [OF ok w] by blast
  have call: "call_ok (bst \<sigma>) k ch" using protocol_okD(5) [OF ok w [unfolded k]] .
  note eff = cancel_effect [OF ok w [unfolded k]]
  have q: "slice_at (waiters s') k' = remove1 ch (slice_at (waiters (bst \<sigma>)) k')" for k'
    using cancel k eff call other_queue_free [OF ok w [unfolded k], of k']
    by (cases "k' = k") (auto simp: call_ok_def remove1_idem split: list.splits)
  have rest: "data s' = data (bst \<sigma>)" "next_chan s' = next_chan (bst \<sigma>)"
    "\<And>ch'. ch' \<noteq> ch \<Longrightarrow> chans s' ch' = chans (bst \<sigma>) ch'" "T = taken \<sigma> + mset (chans (bst \<sigma>) ch)"
    using cancel k eff call by (auto simp: T_def call_ok_def split: list.splits)
  show "protocol_ok (\<sigma>\<lparr>bst := s', waiting := (waiting \<sigma>)(c := None), taken := T\<rparr>)"
    using q rest by (intro leave_protocol_ok [OF ok w]) auto
  show "conserved (\<sigma>\<lparr>bst := s', waiting := (waiting \<sigma>)(c := None), taken := T\<rparr>)"
    unfolding rest(4) using rest by (intro leave_conserved [OF ok con w]) auto
qed

lemma bstep_keeps:
  assumes inv: "protocol_ok \<sigma> \<and> conserved \<sigma>" and step: "bstep \<sigma> ev \<sigma>'" and single: "single_key ev"
  shows "protocol_ok \<sigma>' \<and> conserved \<sigma>'"
  using step
proof cases
  case (push key vals n s')
  then show ?thesis using push_protocol_ok push_conserved inv by auto
next
  case (push_left key vals n s')
  then have "protocol_ok (\<sigma>\<lparr>bst := s', pushed := pushed \<sigma> + image_mset (Pair key) (mset vals), taken := taken \<sigma>\<rparr>)"
    using inv protocol_okD(1) [of \<sigma>]
    by (intro data_step_protocol_ok) (auto simp: LPush_def Let_def)
  with push_left push_left_conserved inv show ?thesis by auto
next
  case (served c keys p s')
  then obtain k where "keys = [k]" using single by (cases keys) (auto simp: single_key_def)
  with served served_conserved [of \<sigma> k p s'] inv
    served_protocol_ok [of \<sigma> keys p s' "taken \<sigma> + {#p#}" "pushed \<sigma>"] show ?thesis by simp
next
  case (parked c keys ch s')
  then obtain k where "keys = [k]" using single by (cases keys) (auto simp: single_key_def)
  with parked parked_conserved parked_protocol_ok inv show ?thesis by blast
next
  case (receive c keys ch p s')
  then show ?thesis using receive_step inv by blast
next
  case (cancel_empty c keys ch s')
  then show ?thesis using cancel_step [of \<sigma> c keys ch None s'] inv by simp
next
  case (cancel_value c keys ch p s')
  then show ?thesis using cancel_step [of \<sigma> c keys ch "Some p" s'] inv by simp
qed

interpretation blpop: step_invariant
  "\<lambda>\<sigma>. \<sigma> = binit" "\<lambda>\<sigma> ev \<sigma>'. single_key ev \<and> bstep \<sigma> ev \<sigma>'" "\<lambda>\<sigma>. protocol_ok \<sigma> \<and> conserved \<sigma>"
proof unfold_locales
  show "protocol_ok \<sigma> \<and> conserved \<sigma>" if "\<sigma> = binit" for \<sigma>
    using that by (simp add: binit_def newStore_def protocol_ok_def conserved_def list_elems_def
        chan_elems_def)
qed (use bstep_keeps in blast)

section \<open>No client waits on a list that has elements\<close>

text \<open>
  This one holds for calls on any number of keys, as long as elements arrive through RPUSH: LPUSH does
  not look at the waiting channels.
\<close>

definition queues_drained :: "bsys \<Rightarrow> bool" where
  "queues_drained \<sigma> \<longleftrightarrow>
     (\<forall>k. slice_at (waiters (bst \<sigma>)) k \<noteq> [] \<longrightarrow> e_list (entry_at (bst \<sigma>) k) = [])"

definition right_push_only :: "bevent \<Rightarrow> bool" where
  "right_push_only ev = (case ev of EPushLeft key vals \<Rightarrow> False | _ \<Rightarrow> True)"

lemma rpush_loop_drained:
  "rpush_loop key vals lst h s = Returns (lst', h', s') \<Longrightarrow>
     (slice_at (waiters s) key \<noteq> [] \<Longrightarrow> lst = []) \<Longrightarrow>
     (slice_at (waiters s') key \<noteq> [] \<longrightarrow> lst' = []) \<and> data s' = data s \<and>
     (\<forall>k. k \<noteq> key \<longrightarrow> slice_at (waiters s') k = slice_at (waiters s) k)"
proof (induction vals arbitrary: lst h s)
  case (Cons v vals)
  show ?case
  proof (cases "slice_at (waiters s) key")
    case Nil
    then show ?thesis using Cons.IH [of "lst @ [v]" h s] Cons.prems by simp
  next
    case (Cons ch q)
    then obtain s1 where s1: "rpush_loop key vals lst (h + 1) s1 = Returns (lst', h', s')"
      and w: "waiters s1 = (waiters s)(key \<mapsto> q)" and d: "data s1 = data s"
      using Cons.prems(1) by (auto simp: chan_send_def split: if_splits)
    from Cons Cons.prems(2) have "lst = []" by simp
    with Cons.IH [OF s1] w d show ?thesis by auto
  qed
qed auto

lemma waiters_fold_register:
  "waiters (fold (register_waiter ch) ks s) k =
     (if k \<in> set ks then Some (slice_at (waiters s) k @ replicate (count_list ks k) ch) else waiters s k)"
proof (induction ks arbitrary: s)
  case (Cons k' ks)
  then show ?case
    by (cases "k = k'"; cases "k \<in> set ks")
      (simp_all add: register_waiter_def slice_at_def count_list_0_iff replicate_app_Cons_same)
qed simp

lemma data_fold_register: "data (fold (register_waiter ch) ks s) = data s"
  by (induction ks arbitrary: s) (simp_all add: register_waiter_def)

lemma blpop_scan_None: "blpop_scan ks s = None \<Longrightarrow> k \<in> set ks \<Longrightarrow> e_list (entry_at s k) = []"
  by (induction ks) (auto split: list.splits)

lemma blpop_scan_lists:
  "blpop_scan ks s = Some (p, s') \<Longrightarrow>
     waiters s' = waiters s \<and> (\<forall>k. e_list (entry_at s k) = [] \<longrightarrow> e_list (entry_at s' k) = [])"
  by (induction ks) (auto simp: entry_at_def zero_entry_def split: list.splits option.splits if_splits)

lemma fold_unregister:
  "fold (unregister_waiter ch) ks (f, s) = (b, s') \<Longrightarrow> data s' = data s \<and> chans s' = chans s \<and>
     (\<forall>k. slice_at (waiters s) k = [] \<longrightarrow> slice_at (waiters s') k = [])"
proof (induction ks arbitrary: f s)
  case (Cons k ks)
  obtain f1 s1 where u: "unregister_waiter ch k (f, s) = (f1, s1)" by fastforce
  then have "data s1 = data s \<and> chans s1 = chans s \<and>
      (\<forall>k. slice_at (waiters s) k = [] \<longrightarrow> slice_at (waiters s1) k = [])"
    by (auto simp: unregister_waiter_def slice_at_def split: if_splits)
  with Cons.IH [of f1 s1] Cons.prems u show ?case by simp
qed simp

lemmas removeWaiter_shrinks = fold_unregister [where f = False, folded removeWaiter_def]

lemma entry_at_data: "data s' = data s \<Longrightarrow> entry_at s' k = entry_at s k"
  by (simp add: entry_at_def)

lemma chan_recv_frame: "chan_recv ch s = Some (p, s') \<Longrightarrow> waiters s' = waiters s \<and> data s' = data s"
  by (auto simp: chan_recv_def split: list.splits)

lemma queues_drained_shrink:
  assumes "queues_drained \<sigma>" and "data (bst \<sigma>') = data (bst \<sigma>)"
    and "\<And>k. slice_at (waiters (bst \<sigma>)) k = [] \<Longrightarrow> slice_at (waiters (bst \<sigma>')) k = []"
  shows "queues_drained \<sigma>'"
  using assms entry_at_data [OF assms(2)] unfolding queues_drained_def by metis

lemma drained_step:
  assumes inv: "queues_drained \<sigma>" and step: "bstep \<sigma> ev \<sigma>'" and rp: "right_push_only ev"
  shows "queues_drained \<sigma>'"
  using step
proof cases
  case (push key vals n s')
  then obtain lst h s1 where r: "rpush_loop key vals (e_list (entry_at (bst \<sigma>) key)) 0 (bst \<sigma>) = Returns (lst, h, s1)"
    and s': "s' = s1\<lparr>data := (data s1)(key \<mapsto> (entry_at (bst \<sigma>) key)\<lparr>e_list := lst\<rparr>)\<rparr>"
    by (auto simp: RPush_def Let_def split: sync.splits)
  have "slice_at (waiters (bst \<sigma>)) key \<noteq> [] \<Longrightarrow> e_list (entry_at (bst \<sigma>) key) = []"
    using inv by (simp add: queues_drained_def)
  from rpush_loop_drained [OF r this] inv push s' show ?thesis
    by (auto simp: queues_drained_def entry_at_def)
next
  case (push_left key vals n s')
  then show ?thesis using rp by (simp add: right_push_only_def)
next
  case (served c keys p s')
  then have "blpop_scan keys (bst \<sigma>) = Some (p, s')"
    by (auto simp: BLpop_enter_def Let_def split: option.splits)
  from blpop_scan_lists [OF this] served inv show ?thesis by (simp add: queues_drained_def)
next
  case (parked c keys ch s')
  then have scan: "blpop_scan keys (bst \<sigma>) = None"
    and s': "s' = fold (register_waiter ch) keys
       ((bst \<sigma>)\<lparr>next_chan := ch + 1, chans := (chans (bst \<sigma>))(ch := [])\<rparr>)"
    by (auto simp: BLpop_enter_def Let_def split: option.splits)
  have entries: "entry_at s' k = entry_at (bst \<sigma>) k" for k
    by (rule entry_at_data) (simp add: s' data_fold_register)
  have "e_list (entry_at s' k) = []" if q: "slice_at (waiters s') k \<noteq> []" for k
  proof (cases "k \<in> set keys")
    case True
    then show ?thesis using blpop_scan_None [OF scan] entries by simp
  next
    case False
    with q have "slice_at (waiters (bst \<sigma>)) k \<noteq> []"
      by (simp add: s' slice_at_def waiters_fold_register)
    with inv entries show ?thesis by (simp add: queues_drained_def)
  qed
  with parked show ?thesis by (simp add: queues_drained_def)
next
  case (receive c keys ch p s')
  then show ?thesis using chan_recv_frame by (intro queues_drained_shrink [OF inv]) auto
next
  case (cancel_empty c keys ch s')
  then obtain b where "removeWaiter keys ch (bst \<sigma>) = (b, s')"
    by (auto simp: cancelWait_def split: prod.splits if_splits option.splits)
  from removeWaiter_shrinks [OF this] cancel_empty show ?thesis
    by (intro queues_drained_shrink [OF inv]) auto
next
  case (cancel_value c keys ch p s')
  then obtain b s1 where r: "removeWaiter keys ch (bst \<sigma>) = (b, s1)" and c: "chan_recv ch s1 = Some (p, s')"
    by (auto simp: cancelWait_def split: prod.splits if_splits option.splits)
  from removeWaiter_shrinks [OF r] chan_recv_frame [OF c] cancel_value show ?thesis
    by (intro queues_drained_shrink [OF inv]) auto
qed

interpretation drained: step_invariant
  "\<lambda>\<sigma>. \<sigma> = binit" "\<lambda>\<sigma> ev \<sigma>'. right_push_only ev \<and> bstep \<sigma> ev \<sigma>'" queues_drained
  by unfold_locales
    (use drained_step in \<open>auto simp: binit_def newStore_def queues_drained_def\<close>)

section \<open>The queues are in the order of arrival\<close>

text \<open>
  Over the history of a run: \<open>arrived c evs\<close> is the place of the last event of \<open>evs\<close> in which client \<open>c\<close> entered
  BLPOP, counted from 1.
\<close>

definition enters :: "nat \<Rightarrow> bevent \<Rightarrow> bool" where
  "enters c ev \<longleftrightarrow> (case ev of EEnter c' keys \<Rightarrow> c' = c | _ \<Rightarrow> False)"

definition arrived :: "nat \<Rightarrow> bevent list \<Rightarrow> nat" where
  "arrived c evs = length (dropWhile (\<lambda>ev. \<not> enters c ev) (rev evs))"

lemma arrived_snoc: "arrived c (evs @ [ev]) = (if enters c ev then length evs + 1 else arrived c evs)"
  by (simp add: arrived_def)

lemma arrived_le: "arrived c evs \<le> length evs"
  unfolding arrived_def using length_dropWhile_le [of _ "rev evs"] by simp

text \<open>Channel numbers follow the arrivals of the calls that wait, and every queue is sorted by them.\<close>

definition arrival_order :: "bevent list \<Rightarrow> bsys \<Rightarrow> bool" where
  "arrival_order evs \<sigma> \<longleftrightarrow>
     (\<forall>c c' ks ks' ch ch'. waiting \<sigma> c = Some (ks, ch) \<longrightarrow> waiting \<sigma> c' = Some (ks', ch') \<longrightarrow> ch < ch' \<longrightarrow>
        arrived c evs < arrived c' evs) \<and>
     (\<forall>k. sorted_wrt (<) (slice_at (waiters (bst \<sigma>)) k))"

lemma arrival_orderI:
  assumes "\<And>c c' ks ks' ch ch'. waiting \<sigma> c = Some (ks, ch) \<Longrightarrow> waiting \<sigma> c' = Some (ks', ch') \<Longrightarrow> ch < ch' \<Longrightarrow>
        arrived c evs < arrived c' evs"
    and "\<And>k. sorted_wrt (<) (slice_at (waiters (bst \<sigma>)) k)"
  shows "arrival_order evs \<sigma>"
  unfolding arrival_order_def using assms by blast

text \<open>A section after which no call waits that did not wait before, and the queues are shorter.\<close>

lemma arrival_order_shrink:
  assumes "arrival_order evs \<sigma>" and "\<And>c. enters c ev \<Longrightarrow> waiting \<sigma>' c = None"
    and "\<And>c x. waiting \<sigma>' c = Some x \<Longrightarrow> waiting \<sigma> c = Some x"
    and "\<And>k. sorted_wrt (<) (slice_at (waiters (bst \<sigma>')) k)"
  shows "arrival_order (evs @ [ev]) \<sigma>'"
proof (rule arrival_orderI)
  fix c c' ks ks' ch ch'
  assume w: "waiting \<sigma>' c = Some (ks, ch)" "waiting \<sigma>' c' = Some (ks', ch')" "ch < ch'"
  then have "\<not> enters c ev" "\<not> enters c' ev" using assms(2) by auto
  moreover have "arrived c evs < arrived c' evs"
    using assms(1,3) w unfolding arrival_order_def by blast
  ultimately show "arrived c (evs @ [ev]) < arrived c' (evs @ [ev])" by (simp add: arrived_snoc)
qed (rule assms(4))

lemma arrival_order_parked:
  assumes inv: "arrival_order evs \<sigma>" and ok: "protocol_ok \<sigma>" and free: "waiting \<sigma> c = None"
    and step: "BLpop_enter [k] (bst \<sigma>) = Parked ch s'"
  shows "arrival_order (evs @ [EEnter c [k]]) (\<sigma>\<lparr>bst := s', waiting := (waiting \<sigma>)(c \<mapsto> ([k], ch))\<rparr>)"
proof (rule arrival_orderI)
  note s' = BLpop_enter_Parked [OF step]
  have below: "ch' < ch" if "waiting \<sigma> c' = Some (ks', ch')" for c' ks' ch'
    using protocol_okD(3) [OF ok that] s'(1) by simp
  fix k'
  have "\<forall>ch' \<in> set (slice_at (waiters (bst \<sigma>)) k). ch' < ch"
    using protocol_okD(8) [OF ok, of _ k] below by blast
  with inv show "sorted_wrt (<) (slice_at (waiters (bst (\<sigma>\<lparr>bst := s', waiting := (waiting \<sigma>)(c \<mapsto> ([k], ch))\<rparr>))) k')"
    by (simp add: s'(3) sorted_wrt_append arrival_order_def)
  fix c1 c2 ks1 ks2 ch1 ch2
  assume w: "waiting (\<sigma>\<lparr>bst := s', waiting := (waiting \<sigma>)(c \<mapsto> ([k], ch))\<rparr>) c1 = Some (ks1, ch1)"
    "waiting (\<sigma>\<lparr>bst := s', waiting := (waiting \<sigma>)(c \<mapsto> ([k], ch))\<rparr>) c2 = Some (ks2, ch2)" "ch1 < ch2"
  have ne: "c1 \<noteq> c" using w below [of c2] by (auto split: if_splits)
  then have w1: "waiting \<sigma> c1 = Some (ks1, ch1)" using w(1) by simp
  show "arrived c1 (evs @ [EEnter c [k]]) < arrived c2 (evs @ [EEnter c [k]])"
  proof (cases "c2 = c")
    case True
    with ne arrived_le [of c1 evs] show ?thesis by (simp add: arrived_snoc enters_def)
  next
    case False
    then have "waiting \<sigma> c2 = Some (ks2, ch2)" using w(2) by simp
    with inv w1 w(3) have "arrived c1 evs < arrived c2 evs" unfolding arrival_order_def by blast
    with ne False show ?thesis by (simp add: arrived_snoc enters_def)
  qed
qed

lemma sorted_remove1: "sorted_wrt (<) (xs :: nat list) \<Longrightarrow> sorted_wrt (<) (remove1 x xs)"
  by (induction xs) (auto dest: notin_set_remove1 [rotated])

lemma arrival_order_step:
  assumes inv: "arrival_order evs \<sigma>" and ok: "protocol_ok \<sigma>" and step: "bstep \<sigma> ev \<sigma>'" and single: "single_key ev"
  shows "arrival_order (evs @ [ev]) \<sigma>'"
  using step
proof cases
  case (push key vals n s')
  let ?s = "bst \<sigma>"
  have q: "distinct (slice_at (waiters ?s) key)" "\<forall>ch \<in> set (slice_at (waiters ?s) key). chans ?s ch = []"
    using protocol_okD(7) [OF ok] queued_chan_empty [OF ok] by auto
  from RPush_spec [OF refl q, of vals] push(3)
  have "slice_at (waiters s') k = (if k = key then drop (length vals) (slice_at (waiters ?s) k) else slice_at (waiters ?s) k)" for k
    by auto
  with inv have "sorted_wrt (<) (slice_at (waiters s') k)" for k
    by (simp add: arrival_order_def sorted_wrt_drop)
  with push show ?thesis by (intro arrival_order_shrink [OF inv]) (auto simp: enters_def)
next
  case (push_left key vals n s')
  then show ?thesis using inv
    by (intro arrival_order_shrink [OF inv]) (auto simp: enters_def LPush_def Let_def arrival_order_def)
next
  case (served c keys p s')
  then have "blpop_scan keys (bst \<sigma>) = Some (p, s')"
    by (auto simp: BLpop_enter_def Let_def split: option.splits)
  from blpop_scan_lists [OF this] served inv show ?thesis
    by (intro arrival_order_shrink [OF inv]) (auto simp: enters_def arrival_order_def)
next
  case (parked c keys ch s')
  then obtain k where "keys = [k]" using single by (cases keys) (auto simp: single_key_def)
  with parked arrival_order_parked [OF inv ok, of c k ch s'] show ?thesis by simp
next
  case (receive c keys ch p s')
  then show ?thesis using chan_recv_frame [of ch "bst \<sigma>" p s'] inv
    by (intro arrival_order_shrink [OF inv]) (auto simp: enters_def arrival_order_def split: if_splits)
next
  case (cancel_empty c keys ch s')
  obtain k where "keys = [k]" using protocol_okD(4) [OF ok cancel_empty(3)] by blast
  with cancel_empty cancel_effect [OF ok, of c k ch] inv show ?thesis
    by (intro arrival_order_shrink [OF inv])
      (auto simp: enters_def arrival_order_def sorted_remove1 split: list.splits if_splits)
next
  case (cancel_value c keys ch p s')
  obtain k where "keys = [k]" using protocol_okD(4) [OF ok cancel_value(3)] by blast
  with cancel_value cancel_effect [OF ok, of c k ch] inv show ?thesis
    by (intro arrival_order_shrink [OF inv])
      (auto simp: enters_def arrival_order_def split: list.splits if_splits)
qed

lemma arrival_order_run:
  "run_of (\<lambda>\<sigma> ev \<sigma>'. single_key ev \<and> bstep \<sigma> ev \<sigma>') \<sigma> evs \<sigma>' \<Longrightarrow> protocol_ok \<sigma> \<and> conserved \<sigma> \<Longrightarrow>
     arrival_order pre \<sigma> \<Longrightarrow> arrival_order (pre @ evs) \<sigma>'"
proof (induction arbitrary: pre rule: run_of.induct)
  case (run_cons \<sigma> ev \<sigma>1 evs \<sigma>2)
  then have "arrival_order (pre @ [ev]) \<sigma>1" and "protocol_ok \<sigma>1 \<and> conserved \<sigma>1"
    using arrival_order_step bstep_keeps by blast+
  with run_cons.IH [of "pre @ [ev]"] show ?case by simp
qed simp

section \<open>Properties\<close>

text \<open>Runs of the whole protocol, and those in which every BLPOP names one key.\<close>

abbreviation single_key_run :: "bevent list \<Rightarrow> bsys \<Rightarrow> bool" where
  "single_key_run evs \<sigma> \<equiv> run_of (\<lambda>\<sigma> ev \<sigma>'. single_key ev \<and> bstep \<sigma> ev \<sigma>') binit evs \<sigma>"

abbreviation right_push_run :: "bevent list \<Rightarrow> bsys \<Rightarrow> bool" where
  "right_push_run evs \<sigma> \<equiv> run_of (\<lambda>\<sigma> ev \<sigma>'. right_push_only ev \<and> bstep \<sigma> ev \<sigma>') binit evs \<sigma>"

lemma single_key_run_ok: "single_key_run evs \<sigma> \<Longrightarrow> protocol_ok \<sigma> \<and> conserved \<sigma>"
  by (rule blpop.run_from_init) simp_all

text \<open>The state after one client blocked on one key of an empty store.\<close>

definition blpop_a :: bsys where
  "blpop_a = binit\<lparr>bst := (case BLpop_enter [''a''] newStore of Parked ch s' \<Rightarrow> s' | Served p s' \<Rightarrow> s'),
                   waiting := [1 \<mapsto> ([''a''], 0)]\<rparr>"

lemma blpop_a_run: "single_key_run [EEnter 1 [''a'']] blpop_a" "right_push_run [EEnter 1 [''a'']] blpop_a"
proof -
  have "bstep binit (EEnter 1 [''a'']) blpop_a"
    using parked [of binit 1 "[''a'']" 0 "bst blpop_a"]
    by (simp add: blpop_a_def binit_def newStore_def BLpop_enter_def entry_at_def zero_entry_def
        register_waiter_def)
  then show "single_key_run [EEnter 1 [''a'']] blpop_a" "right_push_run [EEnter 1 [''a'']] blpop_a"
    by (simp_all add: run_of_Cons single_key_def right_push_only_def)
qed

lemma blpop_a_state:
  "waiting blpop_a 1 = Some ([''a''], 0)" "slice_at (waiters (bst blpop_a)) ''a'' = [0]"
  "e_list (entry_at (bst blpop_a) ''a'') = []" "chans (bst blpop_a) 0 = []" "pushed blpop_a = {#}"
  by (simp_all add: blpop_a_def binit_def newStore_def BLpop_enter_def entry_at_def zero_entry_def
      register_waiter_def)

text \<open>C5. No element is lost or duplicated between pushes and blocked clients: in every interleaving of
  RPUSH, LPUSH and one-key BLPOP calls, with their deliveries, timeouts and cancellations, the elements
  pushed so far are, as a multiset, those in the lists, those in the channels of blocked calls and those
  already returned; and every blocked call is either queued once with an empty channel or holds exactly one
  element of its own key.\<close>

theorem blpop_conserves_elements:
  assumes "single_key_run evs \<sigma>"
  shows "pushed \<sigma> = list_elems (data (bst \<sigma>)) + chan_elems (waiting \<sigma>) (chans (bst \<sigma>)) + taken \<sigma> \<and>
    (\<forall>c ks ch. waiting \<sigma> c = Some (ks, ch) \<longrightarrow> (\<exists>k. ks = [k] \<and>
        (ch \<in> set (slice_at (waiters (bst \<sigma>)) k) \<and> chans (bst \<sigma>) ch = [] \<or>
         ch \<notin> set (slice_at (waiters (bst \<sigma>)) k) \<and> (\<exists>v. chans (bst \<sigma>) ch = [(k, v)]))))"
proof -
  have ok: "protocol_ok \<sigma>" and con: "conserved \<sigma>" using single_key_run_ok [OF assms] by simp_all
  from con show ?thesis
    using protocol_okD(4,5) [OF ok] unfolding conserved_def call_ok_def by metis
qed

theorem blpop_conserves_elements_witness:
  "waiting blpop_a 1 = Some ([''a''], 0) \<and> slice_at (waiters (bst blpop_a)) ''a'' = [0] \<and>
   {#} = list_elems (data (bst blpop_a)) + chan_elems (waiting blpop_a) (chans (bst blpop_a)) + taken blpop_a"
  using blpop_conserves_elements [OF blpop_a_run(1)] by (simp only: blpop_a_state simp_thms)

text \<open>C23. No section of the BLPOP protocol blocks while it holds the mutex, as long as every BLPOP names
  one key: RPUSH always returns, and a call that times out or loses its client always leaves, with the
  element if one was already delivered.\<close>

theorem blpop_never_stuck:
  assumes "single_key_run evs \<sigma>"
  shows "(\<exists>s'. RPush key vals (bst \<sigma>) =
            Returns (length (e_list (entry_at (bst \<sigma>) key)) + length vals, s')) \<and>
    (\<forall>c ks ch. waiting \<sigma> c = Some (ks, ch) \<longrightarrow>
       (\<exists>r s'. cancelWait ks ch (bst \<sigma>) = Returns (r, s') \<and>
          r = (case chans (bst \<sigma>) ch of [] \<Rightarrow> None | p # ps \<Rightarrow> Some p)))"
proof -
  have ok: "protocol_ok \<sigma>" using single_key_run_ok [OF assms] by simp
  have "\<exists>r s'. cancelWait ks ch (bst \<sigma>) = Returns (r, s') \<and>
          r = (case chans (bst \<sigma>) ch of [] \<Rightarrow> None | p # ps \<Rightarrow> Some p)"
    if w: "waiting \<sigma> c = Some (ks, ch)" for c ks ch
  proof -
    obtain k where k: "ks = [k]" using protocol_okD(4) [OF ok w] by blast
    show ?thesis using cancel_effect [OF ok w [unfolded k]] k by (auto split: list.splits)
  qed
  moreover have "\<exists>s'. RPush key vals (bst \<sigma>) =
      Returns (length (e_list (entry_at (bst \<sigma>) key)) + length vals, s')"
    using RPush_spec [OF refl protocol_okD(7) [OF ok], of key vals] queued_chan_empty [OF ok] by simp
  ultimately show ?thesis by blast
qed

theorem blpop_never_stuck_witness:
  "\<exists>s'. cancelWait [''a''] 0 (bst blpop_a) = Returns (None, s')"
proof -
  have "\<exists>r s'. cancelWait [''a''] 0 (bst blpop_a) = Returns (r, s') \<and>
      r = (case chans (bst blpop_a) 0 of [] \<Rightarrow> None | p # ps \<Rightarrow> Some p)"
    using blpop_never_stuck [OF blpop_a_run(1)] blpop_a_state(1) by blast
  then show ?thesis by (simp add: blpop_a_state)
qed

text \<open>C24. Blocked clients are served first come, first served, in every interleaving of RPUSH, LPUSH and one-key
  BLPOP calls with their deliveries, timeouts and cancellations. The calls queued under a key are calls of
  waiting clients, in the order in which these clients entered BLPOP in the history of the run; RPUSH gives its
  i-th value to the i-th of them, appends what is left over to the list, and leaves the calls it could not
  serve queued in the same order.\<close>

theorem blpop_fifo:
  assumes "single_key_run evs \<sigma>" and "RPush key vals (bst \<sigma>) = Returns (n, s')"
    and "q = slice_at (waiters (bst \<sigma>)) key"
  shows "(\<forall>ch \<in> set q. \<exists>c. waiting \<sigma> c = Some ([key], ch)) \<and>
    (\<forall>i j c c'. i < j \<and> j < length q \<and> waiting \<sigma> c = Some ([key], q ! i) \<and> waiting \<sigma> c' = Some ([key], q ! j) \<longrightarrow>
       arrived c evs < arrived c' evs) \<and>
    (\<forall>i < min (length vals) (length q). chans s' (q ! i) = [(key, vals ! i)]) \<and>
    slice_at (waiters s') key = drop (length vals) q \<and>
    e_list (entry_at s' key) = e_list (entry_at (bst \<sigma>) key) @ drop (length q) vals"
proof -
  have ok: "protocol_ok \<sigma>" using single_key_run_ok [OF assms(1)] by simp
  have "protocol_ok binit \<and> conserved binit" by (rule blpop.inv_init) simp
  moreover have "arrival_order [] binit" by (simp add: arrival_order_def binit_def newStore_def)
  ultimately have ao: "arrival_order evs \<sigma>" using arrival_order_run [OF assms(1), of "[]"] by simp
  have order: "arrived c evs < arrived c' evs" if "i < j" "j < length q"
    "waiting \<sigma> c = Some ([key], q ! i)" "waiting \<sigma> c' = Some ([key], q ! j)" for i j c c'
  proof -
    have "sorted_wrt (<) q" using ao assms(3) by (simp add: arrival_order_def)
    then have "q ! i < q ! j" using that by (simp add: sorted_wrt_iff_nth_less)
    with ao that show ?thesis unfolding arrival_order_def by blast
  qed
  have q: "distinct q" "\<forall>ch \<in> set q. chans (bst \<sigma>) ch = []" "\<forall>ch \<in> set q. \<exists>c. waiting \<sigma> c = Some ([key], ch)"
    using protocol_okD(7,8) [OF ok] queued_chan_empty [OF ok] by (auto simp: assms(3))
  have "map_of (zip q vals) (q ! i) = Some (vals ! i)" if "i < min (length vals) (length q)" for i
    using that q(1) by (intro map_of_zip_nth_min) simp_all
  then have "(\<forall>i < min (length vals) (length q). chans s' (q ! i) = [(key, vals ! i)]) \<and>
    slice_at (waiters s') key = drop (length vals) q \<and>
    e_list (entry_at s' key) = e_list (entry_at (bst \<sigma>) key) @ drop (length q) vals"
    using RPush_spec [OF assms(3) [symmetric] q(1,2), of vals] assms(2)
    by (auto simp: assms(3) [symmetric] deliver_def entry_at_def)
  with order q(3) show ?thesis by blast
qed

text \<open>Two clients that blocked one after the other, and a push of three values.\<close>

theorem blpop_fifo_witness:
  "\<exists>\<sigma> s'. single_key_run [EEnter 1 [''a''], EEnter 2 [''a'']] \<sigma> \<and>
     waiting \<sigma> 1 = Some ([''a''], 0) \<and> waiting \<sigma> 2 = Some ([''a''], 1) \<and>
     RPush ''a'' [''x'', ''y'', ''z''] (bst \<sigma>) = Returns (3, s') \<and>
     chans s' 0 = [(''a'', ''x'')] \<and> chans s' 1 = [(''a'', ''y'')] \<and> e_list (entry_at s' ''a'') = [''z'']"
proof -
  obtain s1 where e: "BLpop_enter [''a''] (bst blpop_a) = Parked 1 s1"
    and s1: "s1 = (bst blpop_a)\<lparr>next_chan := 2, chans := (chans (bst blpop_a))(1 := []),
        waiters := (waiters (bst blpop_a))(''a'' \<mapsto> [0, 1])\<rparr>"
    by (simp add: BLpop_enter_def blpop_a_state register_waiter_def)
      (simp add: blpop_a_def binit_def newStore_def BLpop_enter_def entry_at_def zero_entry_def register_waiter_def)
  define \<sigma> where "\<sigma> = blpop_a\<lparr>bst := s1, waiting := (waiting blpop_a)(2 \<mapsto> ([''a''], 1))\<rparr>"
  have "bstep blpop_a (EEnter 2 [''a'']) \<sigma>"
    unfolding \<sigma>_def by (rule parked [OF _ e]) (simp add: blpop_a_def)
  then have run: "single_key_run [EEnter 1 [''a''], EEnter 2 [''a'']] \<sigma>"
    using blpop_a_run(1) by (auto simp: run_of_Cons single_key_def)
  have st: "slice_at (waiters (bst \<sigma>)) ''a'' = [0, 1]" "e_list (entry_at (bst \<sigma>) ''a'') = []"
    "waiting \<sigma> 1 = Some ([''a''], 0)" "waiting \<sigma> 2 = Some ([''a''], 1)"
    using blpop_a_state by (simp_all add: \<sigma>_def s1 entry_at_def)
  obtain s' where r: "RPush ''a'' [''x'', ''y'', ''z''] (bst \<sigma>) = Returns (3, s')"
    using RPush_spec [OF st(1), of "[''x'', ''y'', ''z'']"] st(2)
    by (auto simp: \<sigma>_def s1 blpop_a_state)
  note f = blpop_fifo [OF run r st(1) [symmetric]]
  have "\<forall>i < 2. chans s' ([0, 1] ! i) = [(''a'', [''x'', ''y'', ''z''] ! i)]"
    and l: "e_list (entry_at s' ''a'') = [''z'']" using f by (simp_all add: st(2))
  from this(1) [rule_format, of 0] this(1) [rule_format, of 1] l run r st(3,4) show ?thesis
    by (intro exI [of _ \<sigma>] exI [of _ s']) simp
qed

text \<open>C25. No client waits on a list that has elements: as long as elements arrive through RPUSH, a key
  under which a channel is queued holds an empty list, for BLPOP calls on any number of keys.\<close>

theorem blpop_waits_on_empty_lists:
  assumes "right_push_run evs \<sigma>" and "slice_at (waiters (bst \<sigma>)) k \<noteq> []"
  shows "e_list (entry_at (bst \<sigma>) k) = []"
proof -
  have "queues_drained \<sigma>" by (rule drained.run_from_init [OF _ assms(1)]) simp
  with assms(2) show ?thesis by (simp add: queues_drained_def)
qed

theorem blpop_waits_on_empty_lists_witness:
  "slice_at (waiters (bst blpop_a)) ''a'' = [0] \<and> e_list (entry_at (bst blpop_a) ''a'') = []"
  using blpop_waits_on_empty_lists [OF blpop_a_run(2), of "''a''"] by (simp add: blpop_a_state(2))

text \<open>Defect of BLPOP on several keys: the channel stays queued under the keys that did not serve
  the call. After \<open>BLPOP a b\<close> is served by a push to \<open>a\<close>, the next value pushed to \<open>b\<close> goes to that
  abandoned channel: the push replies 1, but the value is in no list and no client gets it. And a push
  to \<open>b\<close> that comes before the client picks up the first value blocks for ever with the mutex held,
  which stops the whole server.\<close>

theorem blpop_multi_key_loses_element:
  "(\<exists>\<sigma>. run_of bstep binit [EEnter 1 [''a'', ''b''], EPush ''a'' [''x''], EReceive 1, EPush ''b'' [''y'']] \<sigma> \<and>
      pushed \<sigma> = {#(''a'', ''x''), (''b'', ''y'')#} \<and> taken \<sigma> = {#(''a'', ''x'')#} \<and>
      waiting \<sigma> = Map.empty \<and> e_list (entry_at (bst \<sigma>) ''b'') = []) \<and>
   (\<exists>\<sigma> ch. run_of bstep binit [EEnter 1 [''a'', ''b''], EPush ''a'' [''x'']] \<sigma> \<and>
      RPush ''b'' [''y''] (bst \<sigma>) = BlockedOn ch)"
proof -
  define s1 where "s1 = newStore\<lparr>next_chan := 1, waiters := [''a'' \<mapsto> [0], ''b'' \<mapsto> [0]]\<rparr>"
  define s2 where "s2 = s1\<lparr>data := [''a'' \<mapsto> zero_entry], waiters := [''a'' \<mapsto> [], ''b'' \<mapsto> [0]],
      chans := (chans s1)(0 := [(''a'', ''x'')])\<rparr>"
  define s3 where "s3 = s2\<lparr>chans := (chans s2)(0 := [])\<rparr>"
  define s4 where "s4 = s3\<lparr>data := [''a'' \<mapsto> zero_entry, ''b'' \<mapsto> zero_entry],
      waiters := [''a'' \<mapsto> [], ''b'' \<mapsto> []], chans := (chans s3)(0 := [(''b'', ''y'')])\<rparr>"
  define w where "w = [1 :: nat \<mapsto> ([''a'', ''b''], 0 :: chanid)]"
  define \<sigma>1 where "\<sigma>1 = binit\<lparr>bst := s1, waiting := w\<rparr>"
  define \<sigma>2 where "\<sigma>2 = \<sigma>1\<lparr>bst := s2, pushed := {#(''a'', ''x'')#}\<rparr>"
  define \<sigma>3 where "\<sigma>3 = \<sigma>2\<lparr>bst := s3, waiting := Map.empty, taken := {#(''a'', ''x'')#}\<rparr>"
  define \<sigma>4 where "\<sigma>4 = \<sigma>3\<lparr>bst := s4, pushed := {#(''a'', ''x''), (''b'', ''y'')#}\<rparr>"
  have 1: "bstep binit (EEnter 1 [''a'', ''b'']) \<sigma>1"
    using parked [of binit 1 "[''a'', ''b'']" 0 s1]
    by (simp add: \<sigma>1_def s1_def w_def binit_def newStore_def BLpop_enter_def entry_at_def zero_entry_def
        register_waiter_def fun_upd_twist fun_upd_idem)
  have 2: "bstep \<sigma>1 (EPush ''a'' [''x'']) \<sigma>2"
    using push [of "''a''" "[''x'']" \<sigma>1 1 s2]
    by (simp add: \<sigma>2_def s2_def \<sigma>1_def s1_def binit_def newStore_def RPush_def entry_at_def
        zero_entry_def chan_send_def fun_upd_twist)
  have 3: "bstep \<sigma>2 (EReceive 1) \<sigma>3"
    using receive [of \<sigma>2 1 "[''a'', ''b'']" 0 "(''a'', ''x'')" s3]
    by (simp add: \<sigma>3_def \<sigma>2_def \<sigma>1_def s3_def s2_def w_def binit_def chan_recv_def)
  have 4: "bstep \<sigma>3 (EPush ''b'' [''y'']) \<sigma>4"
    using push [of "''b''" "[''y'']" \<sigma>3 1 s4]
    by (simp add: \<sigma>4_def \<sigma>3_def \<sigma>2_def \<sigma>1_def s4_def s3_def s2_def s1_def binit_def newStore_def
        RPush_def Let_def entry_at_def zero_entry_def chan_send_def add_mset_commute)
  have "RPush ''b'' [''y''] (bst \<sigma>2) = BlockedOn 0"
    by (simp add: \<sigma>2_def s2_def s1_def newStore_def RPush_def entry_at_def zero_entry_def chan_send_def)
  moreover have "pushed \<sigma>4 = {#(''a'', ''x''), (''b'', ''y'')#} \<and> taken \<sigma>4 = {#(''a'', ''x'')#} \<and>
      waiting \<sigma>4 = Map.empty \<and> e_list (entry_at (bst \<sigma>4) ''b'') = []"
    by (simp add: \<sigma>4_def \<sigma>3_def s4_def entry_at_def zero_entry_def)
  moreover have "run_of bstep binit [EEnter 1 [''a'', ''b''], EPush ''a'' [''x''], EReceive 1, EPush ''b'' [''y'']] \<sigma>4"
    "run_of bstep binit [EEnter 1 [''a'', ''b''], EPush ''a'' [''x'']] \<sigma>2"
    using 1 2 3 4 by (blast intro: run_of.intros)+
  ultimately show ?thesis by blast
qed

text \<open>Defect of LPUSH: it does not look at the waiting channels, so a client blocked in BLPOP keeps
  waiting on a list that now has an element.\<close>

theorem lpush_does_not_wake:
  "\<exists>\<sigma>. single_key_run [EEnter 1 [''a''], EPushLeft ''a'' [''x'']] \<sigma> \<and>
     slice_at (waiters (bst \<sigma>)) ''a'' = [0] \<and> waiting \<sigma> 1 = Some ([''a''], 0) \<and> chans (bst \<sigma>) 0 = [] \<and>
     e_list (entry_at (bst \<sigma>) ''a'') = [''x'']"
proof -
  define \<sigma> where "\<sigma> = blpop_a\<lparr>bst := snd (LPush ''a'' [''x''] (bst blpop_a)),
      pushed := pushed blpop_a + image_mset (Pair ''a'') (mset [''x''])\<rparr>"
  have "bstep blpop_a (EPushLeft ''a'' [''x'']) \<sigma>"
    unfolding \<sigma>_def by (rule push_left [of _ _ _ 1]) (simp add: LPush_def Let_def blpop_a_state)
  then have "single_key_run [EEnter 1 [''a''], EPushLeft ''a'' [''x'']] \<sigma>"
    using blpop_a_run(1) by (auto simp: run_of_Cons single_key_def)
  moreover have "slice_at (waiters (bst \<sigma>)) ''a'' = [0] \<and> waiting \<sigma> 1 = Some ([''a''], 0) \<and>
      chans (bst \<sigma>) 0 = [] \<and> e_list (entry_at (bst \<sigma>) ''a'') = [''x'']"
    by (simp add: \<sigma>_def LPush_def Let_def blpop_a_state blpop_a_state(1) [simplified]) (simp add: entry_at_def)
  ultimately show ?thesis by blast
qed

end
