(* ===== verification/Wakeup.thy ===== *)
theory Wakeup
  imports Client Blocking
begin

text \<open>
  What a connection does after a command that blocked: the \<open>select\<close> statements at the end of \<open>BLpop\<close> and in the
  loops of \<open>XReadBlock\<close> and \<open>wait\<close>, and the rest of the iteration of \<open>handleClient\<close> that follows (the reply, the
  rest of the queue of EXEC, propagation and append).
\<close>

section \<open>The select statements\<close>

text \<open>The case that is taken: the channel waited for, the timer, or the end of the context.\<close>

datatype wake = Message | TimerFires | Cancelled

text \<open>
  The result: the case is not ready, the command is done with a reply, it waits again, or it panics. A call of
  \<open>cancelWait\<close> that waits for a value nobody will send never becomes ready.
\<close>

datatype wakeup = Asleep | Answers bytes store | WaitsAgain outcome | WakePanics

definition pop_cancelled :: "string list \<Rightarrow> chanid \<Rightarrow> store \<Rightarrow> wakeup" where
  "pop_cancelled keys ch s =
     (case cancelWait keys ch s of BlockedOn _ \<Rightarrow> Asleep | Returns (p, s') \<Rightarrow> Answers (blpop_reply p) s')"

definition pop_wakes :: "wake \<Rightarrow> string list \<Rightarrow> chanid \<Rightarrow> int \<Rightarrow> store \<Rightarrow> wakeup" where
  "pop_wakes wk keys ch timeout s =
     (case wk of
        Message \<Rightarrow> (case chan_recv ch s of None \<Rightarrow> Asleep | Some (p, s') \<Rightarrow> Answers (blpop_reply (Some p)) s')
      | TimerFires \<Rightarrow> if 0 < timeout then pop_cancelled keys ch s else Asleep
      | Cancelled \<Rightarrow> pop_cancelled keys ch s)"

text \<open>The channel \<open>n\<close> that a reader waits for is closed once the store has a newer one.\<close>

definition read_wakes :: "wake \<Rightarrow> string list \<Rightarrow> StreamID list \<Rightarrow> nat \<Rightarrow> int \<Rightarrow> store \<Rightarrow> wakeup" where
  "read_wakes wk keys afters n timeout s =
     (case wk of
        Message \<Rightarrow>
          if notify s = n then Asleep
          else (case XReadBlock_check keys afters s of
                  Panic \<Rightarrow> WakePanics
                | Ret (XDone results) \<Rightarrow> Answers (xread_reply results) s
                | Ret (XParked n') \<Rightarrow> WaitsAgain (ParkRead keys afters n' timeout s))
      | TimerFires \<Rightarrow> if 0 < timeout then Answers (xread_reply []) s else Asleep
      | Cancelled \<Rightarrow> Answers (xread_reply []) s)"

definition outcome_wakes :: "wake \<Rightarrow> outcome \<Rightarrow> store \<Rightarrow> wakeup" where
  "outcome_wakes wk out s =
     (case out of
        ParkPop keys ch timeout _ \<Rightarrow> pop_wakes wk keys ch timeout s
      | ParkRead keys afters n timeout _ \<Rightarrow> read_wakes wk keys afters n timeout s
      | _ \<Rightarrow> Asleep)"

text \<open>The loop of WAIT does not look at the context.\<close>

definition wait_wakes :: "wake \<Rightarrow> int \<Rightarrow> int \<Rightarrow> nat \<Rightarrow> int \<Rightarrow> int \<Rightarrow> replicaSet \<Rightarrow> wait_state option" where
  "wait_wakes wk numReplicas target ch cnt timeout r =
     (case wk of
        Message \<Rightarrow> if ackCh r = ch then None else Some (wait_check numReplicas target r)
      | TimerFires \<Rightarrow> if 0 < timeout then Some (WaitDone cnt) else None
      | Cancelled \<Rightarrow> None)"

section \<open>The rest of the iteration\<close>

definition exec_rest :: "host \<Rightarrow> connid \<Rightarrow> bytes list list \<Rightarrow> conn \<Rightarrow> world \<Rightarrow> client_result" where
  "exec_rest h self cmds c w =
     (case exec_queued h self cmds w of
        Panic \<Rightarrow> Panics
      | Ret (rs, None, w') \<Rightarrow> Continues rs c w'
      | Ret (rs, Some (out, rest), w') \<Rightarrow> Blocks rs (InExec out rest) c w')"

fun before_result :: "wire \<Rightarrow> client_result \<Rightarrow> client_result" where
  "before_result out (Continues o2 c w) = Continues (out @ o2) c w"
| "before_result out (Blocks o2 b c w) = Blocks (out @ o2) b c w"
| "before_result out Panics = Panics"

fun client_resume :: "os \<Rightarrow> host \<Rightarrow> wake \<Rightarrow> connid \<Rightarrow> blocked \<Rightarrow> conn \<Rightarrow> world \<Rightarrow> client_result option" where
  "client_resume os h wk self (InCommand out commandName cmd) c w =
     (case outcome_wakes wk out (db w) of
        Asleep \<Rightarrow> None
      | WakePanics \<Rightarrow> Some Panics
      | WaitsAgain out' \<Rightarrow> Some (Blocks [] (InCommand out' commandName cmd) c w)
      | Answers r s \<Rightarrow>
          (case after_command os commandName cmd (w\<lparr>db := s\<rparr>) of (sent, w') \<Rightarrow> Some (Continues ((self, r) # sent) c w')))"
| "client_resume os h wk self (InExec out cmds) c w =
     (case outcome_wakes wk out (db w) of
        Asleep \<Rightarrow> None
      | WakePanics \<Rightarrow> Some Panics
      | WaitsAgain out' \<Rightarrow> Some (Blocks [] (InExec out' cmds) c w)
      | Answers r s \<Rightarrow> Some (before_result [(self, r)] (exec_rest h self cmds c (w\<lparr>db := s\<rparr>))))"
| "client_resume os h wk self (InWait num target ch cnt timeout) c w =
     (case wait_wakes wk num target ch cnt timeout (srv_replicas (srv w)) of
        None \<Rightarrow> None
      | Some (WaitDone n) \<Rightarrow> Some (Continues [(self, int_reply n)] c w)
      | Some (WaitParked ch' cnt') \<Rightarrow> Some (Blocks [] (InWait num target ch' cnt' timeout) c w))"

text \<open>A wake-up after which the command waits again, and the commands that wait without the mutex.\<close>

fun rearm :: "wake \<Rightarrow> blocked \<Rightarrow> world \<Rightarrow> blocked option" where
  "rearm wk (InCommand out commandName cmd) w =
     (case outcome_wakes wk out (db w) of WaitsAgain out' \<Rightarrow> Some (InCommand out' commandName cmd) | _ \<Rightarrow> None)"
| "rearm wk (InExec out cmds) w =
     (case outcome_wakes wk out (db w) of WaitsAgain out' \<Rightarrow> Some (InExec out' cmds) | _ \<Rightarrow> None)"
| "rearm wk (InWait num target ch cnt timeout) w =
     (case wait_wakes wk num target ch cnt timeout (srv_replicas (srv w)) of
        Some (WaitParked ch' cnt') \<Rightarrow> Some (InWait num target ch' cnt' timeout)
      | _ \<Rightarrow> None)"

fun parks :: "outcome \<Rightarrow> bool" where
  "parks (ParkPop keys ch timeout s) = True"
| "parks (ParkRead keys afters n timeout s) = True"
| "parks _ = False"

section \<open>What a wake-up leaves alone\<close>

definition queue_frame :: "store \<Rightarrow> store \<Rightarrow> bool" where
  "queue_frame s s' \<longleftrightarrow> data s' = data s \<and> watchers s' = watchers s \<and> txs s' = txs s \<and> notify s' = notify s"

lemma queue_frame_refl [simp]: "queue_frame s s"
  by (simp add: queue_frame_def)

lemma queue_frame_trans: "queue_frame s t \<Longrightarrow> queue_frame t u \<Longrightarrow> queue_frame s u"
  by (simp add: queue_frame_def)

lemma chan_recv_queue: "chan_recv ch s = Some (p, s') \<Longrightarrow> queue_frame s s'"
  by (auto simp: chan_recv_def queue_frame_def split: list.splits)

lemma removeWaiter_queue: "removeWaiter keys ch s = (b, s') \<Longrightarrow> queue_frame s s'"
proof -
  have "queue_frame s (snd (fold (unregister_waiter ch) keys (f, s)))" for f
    by (induction keys arbitrary: f s)
      (auto simp: unregister_waiter_def queue_frame_def split: if_splits)
  then show "removeWaiter keys ch s = (b, s') \<Longrightarrow> queue_frame s s'" unfolding removeWaiter_def by (metis snd_conv)
qed

lemma cancelWait_queue:
  assumes "cancelWait keys ch s = Returns (p, s')"
  shows "queue_frame s s'"
proof -
  obtain b s1 where r: "removeWaiter keys ch s = (b, s1)" by fastforce
  then show ?thesis
    using assms removeWaiter_queue [OF r] chan_recv_queue [of ch s1]
    by (auto simp: cancelWait_def split: if_splits option.splits intro: queue_frame_trans)
qed

lemma outcome_wakes_queue:
  assumes "outcome_wakes wk out s = Answers r s'"
  shows "queue_frame s s'"
  using assms
  by (auto simp: outcome_wakes_def pop_wakes_def pop_cancelled_def read_wakes_def dest: chan_recv_queue cancelWait_queue
      split: outcome.splits wake.splits sync.splits option.splits if_splits go.splits xread_state.splits)

section \<open>Cancelling\<close>

text \<open>
  What ends a blocked command when nobody sends to it any more: the end of the context, and for WAIT, which does not
  look at the context, its timer. A command that is stuck while it holds the mutex, a BLPOP whose channel is
  in none of its queues and empty, and a WAIT without a timeout do not end.
\<close>

fun ending :: "blocked \<Rightarrow> wake" where
  "ending (InWait num target ch cnt timeout) = TimerFires"
| "ending _ = Cancelled"

fun interruptible :: "blocked \<Rightarrow> store \<Rightarrow> bool" where
  "interruptible (InCommand out nm cmd) s \<longleftrightarrow> outcome_wakes Cancelled out s \<noteq> Asleep"
| "interruptible (InExec out cmds) s \<longleftrightarrow> outcome_wakes Cancelled out s \<noteq> Asleep"
| "interruptible (InWait num target ch cnt timeout) s \<longleftrightarrow> 0 < timeout"

lemma interruptible_resumes:
  "interruptible b (db w) \<longleftrightarrow> client_resume os h (ending b) self b c w \<noteq> None"
  by (cases b) (auto simp: wait_wakes_def split: wakeup.splits prod.splits)

lemma cancelled_not_again: "outcome_wakes Cancelled out s \<noteq> WaitsAgain out'" "outcome_wakes Cancelled out s \<noteq> WakePanics"
  by (auto simp: outcome_wakes_def pop_wakes_def pop_cancelled_def read_wakes_def split: outcome.splits sync.splits)

lemma ParkRead_interruptible: "outcome_wakes Cancelled (ParkRead keys afters n timeout s0) s = Answers null_array s"
  by (simp add: outcome_wakes_def read_wakes_def xread_reply_def)

end
