(* ===== verification/Rdb.thy ===== *)
theory Rdb
  imports RespWrite Store
begin

text \<open>
  The RDB loader of \<^verbatim>\<open>src/app/rdb/rdb.go\<close> on the bytes of the file: length encodings, string
  encodings, opcodes, and the callback \<open>put\<close> (\<open>SetFunc\<close>) as a function on a state. The second half says, as an
  encoder, what the loader accepts, for the round trip.
\<close>

section \<open>Operations\<close>

datatype rdb_err =
  RdbIO read_err | UnsupportedEncoding nat | SpecialEncoding nat | NotRDB | UnsupportedOpcode nat
| CannotOpen | During string rdb_err

definition byte_nat :: "char \<Rightarrow> nat" where "byte_nat c = of_char c"

text \<open>\<open>ReadByte\<close> and \<open>io.ReadFull\<close>.\<close>

definition ReadByte :: "bytes \<Rightarrow> rdb_err + (nat \<times> bytes)" where
  "ReadByte r = (case r of [] \<Rightarrow> Inl (RdbIO EOF) | c # r' \<Rightarrow> Inr (byte_nat c, r'))"

definition ReadFull :: "nat \<Rightarrow> bytes \<Rightarrow> rdb_err + (bytes \<times> bytes)" where
  "ReadFull n r =
     (if n \<le> length r then Inr (take n r, drop n r)
      else if r = [] then Inl (RdbIO EOF) else Inl (RdbIO ErrUnexpectedEOF))"

text \<open>\<open>binary.LittleEndian\<close> and \<open>binary.BigEndian\<close>.\<close>

fun le_nat :: "bytes \<Rightarrow> nat" where
  "le_nat [] = 0"
| "le_nat (c # cs) = byte_nat c + 256 * le_nat cs"

definition be_nat :: "bytes \<Rightarrow> nat" where "be_nat bs = le_nat (rev bs)"

text \<open>The conversions \<open>int8\<close>, \<open>int16\<close>, \<open>int32\<close>, \<open>int64\<close> of an unsigned number, by width.\<close>

definition to_signed :: "nat \<Rightarrow> nat \<Rightarrow> int" where
  "to_signed w n = signed_take_bit (w - 1) (int n)"

definition readSize :: "bytes \<Rightarrow> rdb_err + ((nat \<times> bool) \<times> bytes)" where
  "readSize r =
     (case ReadByte r of
        Inl err \<Rightarrow> Inl err
      | Inr (b, r1) \<Rightarrow>
          if b div 64 = 0 then Inr ((b mod 64, False), r1)
          else if b div 64 = 1
          then (case ReadByte r1 of
                  Inl err \<Rightarrow> Inl err
                | Inr (next, r2) \<Rightarrow> Inr (((b mod 64) * 256 + next, False), r2))
          else if b div 64 = 2
          then (case ReadFull 4 r1 of
                  Inl err \<Rightarrow> Inl err
                | Inr (buf, r2) \<Rightarrow> Inr ((be_nat buf, False), r2))
          else Inr ((b mod 64, True), r1))"

text \<open>
  \<open>readString\<close>. The two-byte integer swallows its read error: it returns the empty string, and what
  was left of the file is consumed.
\<close>

definition readString :: "bytes \<Rightarrow> rdb_err + (string \<times> bytes)" where
  "readString r =
     (case readSize r of
        Inl err \<Rightarrow> Inl err
      | Inr ((n, special), r1) \<Rightarrow>
          if \<not> special then ReadFull n r1
          else if n = 0
          then (case ReadByte r1 of
                  Inl err \<Rightarrow> Inl err | Inr (b, r2) \<Rightarrow> Inr (FormatInt (to_signed 8 b), r2))
          else if n = 1
          then (case ReadFull 2 r1 of
                  Inl err \<Rightarrow> Inr ([], [])
                | Inr (buf, r2) \<Rightarrow> Inr (FormatInt (to_signed 16 (le_nat buf)), r2))
          else if n = 2
          then (case ReadFull 4 r1 of
                  Inl err \<Rightarrow> Inl err
                | Inr (buf, r2) \<Rightarrow> Inr (FormatInt (to_signed 32 (le_nat buf)), r2))
          else Inl (UnsupportedEncoding n))"

definition readPlainSize :: "bytes \<Rightarrow> rdb_err + (nat \<times> bytes)" where
  "readPlainSize r =
     (case readSize r of
        Inl err \<Rightarrow> Inl err
      | Inr ((n, special), r1) \<Rightarrow> if special then Inl (SpecialEncoding n) else Inr (0, r1))"

text \<open>What one record of the file asks the loop to do.\<close>

datatype rdb_item = Skip | Expire time | Pair string string | Finish

definition during :: "string \<Rightarrow> rdb_err + 'a \<Rightarrow> rdb_err + 'a" where
  "during ctx m = (case m of Inl err \<Rightarrow> Inl (During ctx err) | Inr x \<Rightarrow> Inr x)"

definition err_bind :: "rdb_err + ('a \<times> bytes) \<Rightarrow> ('a \<Rightarrow> bytes \<Rightarrow> rdb_err + 'b) \<Rightarrow> rdb_err + 'b" where
  "err_bind m f = (case m of Inl err \<Rightarrow> Inl err | Inr (x, r) \<Rightarrow> f x r)"

definition load_item :: "bytes \<Rightarrow> rdb_err + (rdb_item \<times> bytes)" where
  "load_item r =
     err_bind (during ''reading opcode'' (ReadByte r)) (\<lambda>op r1.
       if op = 0xFA then
         err_bind (during ''aux name'' (readString r1)) (\<lambda>_ r2.
         err_bind (during ''aux value'' (readString r2)) (\<lambda>_ r3. Inr (Skip, r3)))
       else if op = 0xFE then
         err_bind (during ''db index'' (readPlainSize r1)) (\<lambda>_ r2. Inr (Skip, r2))
       else if op = 0xFB then
         err_bind (during ''db size'' (readPlainSize r1)) (\<lambda>_ r2.
         err_bind (during ''expires size'' (readPlainSize r2)) (\<lambda>_ r3. Inr (Skip, r3)))
       else if op = 0xFC then
         err_bind (during ''expiry ms'' (ReadFull 8 r1)) (\<lambda>b r2.
           Inr (Expire (to_signed 64 (le_nat b) * 1000000), r2))
       else if op = 0xFD then
         err_bind (during ''expiry sec'' (ReadFull 4 r1)) (\<lambda>b r2.
           Inr (Expire (int (le_nat b) * 1000000000), r2))
       else if op = 0x00 then
         err_bind (during ''key'' (readString r1)) (\<lambda>key r2.
         err_bind (during (''value for '' @ key) (readString r2)) (\<lambda>val r3. Inr (Pair key val, r3)))
       else if op = 0xFF then Inr (Finish, r1)
       else Inl (UnsupportedOpcode op))"

lemma ReadByte_shorter: "ReadByte r = Inr (x, r') \<Longrightarrow> length r' < length r"
  by (auto simp: ReadByte_def split: list.splits)

lemma ReadFull_shorter: "ReadFull n r = Inr (x, r') \<Longrightarrow> length r' \<le> length r"
  by (auto simp: ReadFull_def split: if_splits)

lemma readSize_shorter: "readSize r = Inr (x, r') \<Longrightarrow> length r' < length r"
  by (fastforce simp: readSize_def split: sum.splits prod.splits if_splits
      dest: ReadByte_shorter ReadFull_shorter)

lemma readString_shorter: "readString r = Inr (x, r') \<Longrightarrow> length r' < length r"
  by (fastforce simp: readString_def split: sum.splits prod.splits if_splits
      dest: ReadByte_shorter ReadFull_shorter readSize_shorter)

lemma readPlainSize_shorter: "readPlainSize r = Inr (x, r') \<Longrightarrow> length r' < length r"
  by (auto simp: readPlainSize_def split: sum.splits prod.splits if_splits dest: readSize_shorter)

lemma during_Inr [simp]: "during ctx m = Inr x \<longleftrightarrow> m = Inr x"
  by (auto simp: during_def split: sum.splits)

lemma err_bind_Inr: "err_bind m f = Inr y \<longleftrightarrow> (\<exists>x r. m = Inr (x, r) \<and> f x r = Inr y)"
  by (auto simp: err_bind_def split: sum.splits prod.splits)

lemma load_item_shorter: "load_item r = Inr (x, r') \<Longrightarrow> length r' < length r"
  unfolding load_item_def err_bind_Inr
  by (fastforce simp: err_bind_Inr split: if_splits
      dest: ReadByte_shorter ReadFull_shorter readString_shorter readPlainSize_shorter)

function load_loop :: "(string \<Rightarrow> string \<Rightarrow> time \<Rightarrow> 's \<Rightarrow> 's) \<Rightarrow> time \<Rightarrow> bytes \<Rightarrow> 's \<Rightarrow> rdb_err option \<times> 's" where
  "load_loop put expiresAt r s =
     (case load_item r of
        Inl err \<Rightarrow> (Some err, s)
      | Inr (item, r') \<Rightarrow>
          (case item of
             Skip \<Rightarrow> load_loop put expiresAt r' s
           | Expire t \<Rightarrow> load_loop put t r' s
           | Pair key val \<Rightarrow> load_loop put zero_time r' (put key val expiresAt s)
           | Finish \<Rightarrow> (None, s)))"
  by pat_completeness auto
termination
  by (relation "measure (\<lambda>(put, t, r, s). length r)") (auto dest: load_item_shorter)

declare load_loop.simps [simp del]

definition Load :: "(string \<Rightarrow> string \<Rightarrow> time \<Rightarrow> 's \<Rightarrow> 's) \<Rightarrow> bytes \<Rightarrow> 's \<Rightarrow> rdb_err option \<times> 's" where
  "Load put r s =
     (case ReadFull 9 r of
        Inl err \<Rightarrow> (Some (During ''reading header'' err), s)
      | Inr (hdr, r1) \<Rightarrow>
          if take 5 hdr \<noteq> ''REDIS'' then (Some NotRDB, s)
          else load_loop put zero_time r1 s)"

text \<open>\<open>file\<close> is the outcome of \<open>os.Open\<close>: a missing file is an empty database.\<close>

datatype open_result = Missing | OpenFails | Opened bytes

definition LoadRDBFile :: "open_result \<Rightarrow> (string \<Rightarrow> string \<Rightarrow> time \<Rightarrow> 's \<Rightarrow> 's) \<Rightarrow> 's \<Rightarrow> rdb_err option \<times> 's" where
  "LoadRDBFile file put s =
     (case file of
        Missing \<Rightarrow> (None, s)
      | OpenFails \<Rightarrow> (Some CannotOpen, s)
      | Opened content \<Rightarrow> Load put content s)"

section \<open>The format, as an encoder\<close>

fun le_bytes :: "nat \<Rightarrow> nat \<Rightarrow> bytes" where
  "le_bytes 0 n = []"
| "le_bytes (Suc k) n = char_of (n mod 256) # le_bytes k (n div 256)"

definition rdb_size :: "nat \<Rightarrow> bytes" where
  "rdb_size n =
     (if n < 64 then [char_of n]
      else if n < 16384 then [char_of (64 + n div 256), char_of (n mod 256)]
      else char_of (128 :: nat) # rev (le_bytes 4 n))"

text \<open>A string is stored raw, or as an integer of one, two or four bytes.\<close>

datatype rdb_str = Raw string | Int8 int | Int16 int | Int32 int

fun rdb_text :: "rdb_str \<Rightarrow> string" where
  "rdb_text (Raw s) = s"
| "rdb_text (Int8 i) = FormatInt i"
| "rdb_text (Int16 i) = FormatInt i"
| "rdb_text (Int32 i) = FormatInt i"

fun rdb_str_ok :: "rdb_str \<Rightarrow> bool" where
  "rdb_str_ok (Raw s) \<longleftrightarrow> length s < 2 ^ 32"
| "rdb_str_ok (Int8 i) \<longleftrightarrow> - (2 ^ 7) \<le> i \<and> i < 2 ^ 7"
| "rdb_str_ok (Int16 i) \<longleftrightarrow> - (2 ^ 15) \<le> i \<and> i < 2 ^ 15"
| "rdb_str_ok (Int32 i) \<longleftrightarrow> - (2 ^ 31) \<le> i \<and> i < 2 ^ 31"

fun rdb_string :: "rdb_str \<Rightarrow> bytes" where
  "rdb_string (Raw s) = rdb_size (length s) @ s"
| "rdb_string (Int8 i) = char_of (0xC0 :: nat) # le_bytes 1 (nat (i mod 2 ^ 8))"
| "rdb_string (Int16 i) = char_of (0xC1 :: nat) # le_bytes 2 (nat (i mod 2 ^ 16))"
| "rdb_string (Int32 i) = char_of (0xC2 :: nat) # le_bytes 4 (nat (i mod 2 ^ 32))"

datatype rdb_record = Aux rdb_str rdb_str | SelectDB nat | ResizeDB nat nat
| KeyValue rdb_str rdb_str | ExpireMs nat | ExpireSec nat

fun record_ok :: "rdb_record \<Rightarrow> bool" where
  "record_ok (Aux a b) \<longleftrightarrow> rdb_str_ok a \<and> rdb_str_ok b"
| "record_ok (SelectDB n) \<longleftrightarrow> n < 2 ^ 32"
| "record_ok (ResizeDB n m) \<longleftrightarrow> n < 2 ^ 32 \<and> m < 2 ^ 32"
| "record_ok (KeyValue k v) \<longleftrightarrow> rdb_str_ok k \<and> rdb_str_ok v"
| "record_ok (ExpireMs n) \<longleftrightarrow> n < 2 ^ 63"
| "record_ok (ExpireSec n) \<longleftrightarrow> n < 2 ^ 32"

fun rdb_record_bytes :: "rdb_record \<Rightarrow> bytes" where
  "rdb_record_bytes (Aux a b) = char_of (0xFA :: nat) # rdb_string a @ rdb_string b"
| "rdb_record_bytes (SelectDB n) = char_of (0xFE :: nat) # rdb_size n"
| "rdb_record_bytes (ResizeDB n m) = char_of (0xFB :: nat) # rdb_size n @ rdb_size m"
| "rdb_record_bytes (KeyValue k v) = char_of (0x00 :: nat) # rdb_string k @ rdb_string v"
| "rdb_record_bytes (ExpireMs n) = char_of (0xFC :: nat) # le_bytes 8 n"
| "rdb_record_bytes (ExpireSec n) = char_of (0xFD :: nat) # le_bytes 4 n"

definition rdb_file :: "rdb_record list \<Rightarrow> bytes \<Rightarrow> bytes" where
  "rdb_file recs checksum =
     ''REDIS0011'' @ concat (map rdb_record_bytes recs) @ char_of (0xFF :: nat) # checksum"

text \<open>What a file means: its pairs in order, each with the expiry stated since the previous pair.\<close>

fun rdb_meaning :: "time \<Rightarrow> rdb_record list \<Rightarrow> (string \<times> string \<times> time) list" where
  "rdb_meaning t [] = []"
| "rdb_meaning t (KeyValue k v # recs) = (rdb_text k, rdb_text v, t) # rdb_meaning zero_time recs"
| "rdb_meaning t (ExpireMs n # recs) = rdb_meaning (int n * 1000000) recs"
| "rdb_meaning t (ExpireSec n # recs) = rdb_meaning (int n * 1000000000) recs"
| "rdb_meaning t (_ # recs) = rdb_meaning t recs"

section \<open>The loader reads what the encoder writes\<close>

lemma byte_nat_char [simp]: "byte_nat (char_of n) = n mod 256"
  by (simp add: byte_nat_def of_char_of)

lemma length_le_bytes [simp]: "length (le_bytes k n) = k"
  by (induction k arbitrary: n) simp_all

lemma le_nat_le_bytes: "le_nat (le_bytes k n) = n mod 256 ^ k"
proof (induction k arbitrary: n)
  case (Suc k)
  then show ?case by (simp add: mod_mult2_eq)
qed simp

lemma ReadFull_append [simp]: "n = length x \<Longrightarrow> ReadFull n (x @ r) = Inr (x, r)"
  by (simp add: ReadFull_def)

lemma ReadByte_Cons [simp]: "ReadByte (c # r) = Inr (byte_nat c, r)"
  by (simp add: ReadByte_def)

lemma readSize_rdb_size: "n < 2 ^ 32 \<Longrightarrow> readSize (rdb_size n @ r) = Inr ((n, False), r)"
proof -
  assume n: "n < 2 ^ 32"
  consider "n < 64" | "64 \<le> n" "n < 16384" | "16384 \<le> n" by linarith
  then show ?thesis
  proof cases
    case 1
    then show ?thesis by (simp add: rdb_size_def readSize_def)
  next
    case 2
    then have "n div 256 < 64" by (simp add: div_less_iff_less_mult)
    then have "(64 + n div 256) mod 256 = 64 + n div 256" "(64 + n div 256) div 64 = 1"
      "(64 + n div 256) mod 64 = n div 256" by simp_all
    then show ?thesis using 2 by (simp add: rdb_size_def readSize_def)
  next
    case 3
    have "ReadFull 4 (rev (le_bytes 4 n) @ r) = Inr (rev (le_bytes 4 n), r)" by (rule ReadFull_append) simp
    moreover have "be_nat (rev (le_bytes 4 n)) = n" using n by (simp add: be_nat_def le_nat_le_bytes)
    ultimately show ?thesis using 3 by (simp add: rdb_size_def readSize_def)
  qed
qed

lemma to_signed_wrap:
  assumes "- (2 ^ (w - 1)) \<le> i" and "i < 2 ^ (w - 1)" and "0 < w"
  shows "to_signed w (nat (i mod 2 ^ w)) = i"
proof -
  have "i mod 2 ^ w = take_bit w i" by (simp add: take_bit_eq_mod)
  moreover have "signed_take_bit (w - 1) (take_bit w i) = signed_take_bit (w - 1) i"
    using assms(3) by (cases w) (simp_all add: signed_take_bit_take_bit)
  moreover have "signed_take_bit (w - 1) i = i" using assms by (simp add: signed_take_bit_int_eq_self)
  ultimately show ?thesis by (simp add: to_signed_def)
qed

lemma readString_special:
  assumes "k < 64"
  shows "readSize (char_of (0xC0 + k :: nat) # r) = Inr ((k, True), r)"
proof -
  have "(0xC0 + k) div 64 = 3" "(0xC0 + k) mod 64 = k"
    using assms div_mult_self3 [of 64 3 k] mod_mult_self3 [of 3 64 k] by simp_all
  then show ?thesis using assms by (simp add: readSize_def)
qed

lemma readString_rdb_string: "rdb_str_ok x \<Longrightarrow> readString (rdb_string x @ r) = Inr (rdb_text x, r)"
proof (cases x)
  case (Raw s)
  assume "rdb_str_ok x"
  with Raw show ?thesis by (simp add: readString_def readSize_rdb_size)
next
  case (Int8 i)
  assume "rdb_str_ok x"
  then have "to_signed 8 (nat (i mod 2 ^ 8)) = i" using Int8 by (intro to_signed_wrap) simp_all
  moreover have "nat (i mod 2 ^ 8) < 256" by (simp add: nat_less_iff)
  ultimately show ?thesis using Int8 readString_special [of 0]
    by (simp add: readString_def numeral_eq_Suc [of Num.One])
next
  case (Int16 i)
  assume "rdb_str_ok x"
  then have "to_signed 16 (nat (i mod 2 ^ 16)) = i" using Int16 by (intro to_signed_wrap) simp_all
  moreover have "le_nat (le_bytes 2 (nat (i mod 2 ^ 16))) = nat (i mod 2 ^ 16)"
    by (simp only: le_nat_le_bytes) (simp add: nat_less_iff)
  ultimately show ?thesis using Int16 readString_special [of 1] by (simp add: readString_def)
next
  case (Int32 i)
  assume "rdb_str_ok x"
  then have "to_signed 32 (nat (i mod 2 ^ 32)) = i" using Int32 by (intro to_signed_wrap) simp_all
  moreover have "le_nat (le_bytes 4 (nat (i mod 2 ^ 32))) = nat (i mod 2 ^ 32)"
    by (simp only: le_nat_le_bytes) (simp add: nat_less_iff)
  ultimately show ?thesis using Int32 readString_special [of 2] by (simp add: readString_def)
qed

lemma readPlainSize_rdb_size: "n < 2 ^ 32 \<Longrightarrow> readPlainSize (rdb_size n @ r) = Inr (0, r)"
  by (simp add: readPlainSize_def readSize_rdb_size)

lemma err_bind_simps [simp]: "err_bind (Inr (x, r)) f = f x r" "during ctx (Inr y) = Inr y"
  by (simp_all add: err_bind_def during_def)

fun record_item :: "rdb_record \<Rightarrow> rdb_item" where
  "record_item (KeyValue k v) = Pair (rdb_text k) (rdb_text v)"
| "record_item (ExpireMs n) = Expire (int n * 1000000)"
| "record_item (ExpireSec n) = Expire (int n * 1000000000)"
| "record_item _ = Skip"

lemma load_item_record:
  assumes "record_ok rc"
  shows "load_item (rdb_record_bytes rc @ r) = Inr (record_item rc, r)"
proof (cases rc)
  case (ExpireMs n)
  have "le_nat (le_bytes 8 n) = n"
    using assms ExpireMs le_nat_le_bytes [of 8 n] by simp
  moreover have "to_signed 64 n = int n"
    using assms ExpireMs by (simp add: to_signed_def signed_take_bit_int_eq_self)
  ultimately show ?thesis using ExpireMs by (simp add: load_item_def)
next
  case (ExpireSec n)
  have "le_nat (le_bytes 4 n) = n" using assms ExpireSec le_nat_le_bytes [of 4 n] by simp
  then show ?thesis using ExpireSec by (simp add: load_item_def)
qed (use assms in \<open>simp_all add: load_item_def readString_rdb_string readPlainSize_rdb_size\<close>)

text \<open>The expiry that is pending after some records.\<close>

fun pending_expiry :: "time \<Rightarrow> rdb_record list \<Rightarrow> time" where
  "pending_expiry t [] = t"
| "pending_expiry t (KeyValue k v # recs) = pending_expiry zero_time recs"
| "pending_expiry t (ExpireMs n # recs) = pending_expiry (int n * 1000000) recs"
| "pending_expiry t (ExpireSec n # recs) = pending_expiry (int n * 1000000000) recs"
| "pending_expiry t (_ # recs) = pending_expiry t recs"

lemma load_loop_records:
  assumes "list_all record_ok recs"
  shows "load_loop put t (concat (map rdb_record_bytes recs) @ rest) s =
    load_loop put (pending_expiry t recs) rest (fold (\<lambda>(k, v, e). put k v e) (rdb_meaning t recs) s)"
  using assms
proof (induction recs arbitrary: t s)
  case (Cons rc recs)
  let ?r = "concat (map rdb_record_bytes recs) @ rest"
  have item: "load_item (rdb_record_bytes rc @ ?r) = Inr (record_item rc, ?r)"
    using load_item_record Cons.prems by simp
  have "load_loop put t (rdb_record_bytes rc @ ?r) s = load_loop put (pending_expiry t (rc # recs)) rest
      (fold (\<lambda>(k, v, e). put k v e) (rdb_meaning t (rc # recs)) s)"
    unfolding load_loop.simps [of put t "rdb_record_bytes rc @ ?r"] item
    using Cons by (cases rc) simp_all
  then show ?case by simp
qed simp

lemma load_loop_ends:
  "load_loop put t (char_of (0xFF :: nat) # rest) s = (None, s)"
  "load_loop put t [] s = (Some (During ''reading opcode'' (RdbIO EOF)), s)"
proof -
  have "load_item (char_of (0xFF :: nat) # rest) = Inr (Finish, rest)" by (simp add: load_item_def)
  then show "load_loop put t (char_of (0xFF :: nat) # rest) s = (None, s)"
    by (simp add: load_loop.simps [of put t "char_of (0xFF :: nat) # rest"])
  have "load_item [] = Inl (During ''reading opcode'' (RdbIO EOF))"
    by (simp add: load_item_def ReadByte_def err_bind_def during_def)
  then show "load_loop put t [] s = (Some (During ''reading opcode'' (RdbIO EOF)), s)"
    by (simp add: load_loop.simps [of put t "[]"])
qed

lemma Load_header: "Load put (''REDIS0011'' @ r) s = load_loop put zero_time r s"
proof -
  have "ReadFull 9 (''REDIS0011'' @ r) = Inr (''REDIS0011'', r)" by (rule ReadFull_append) simp
  then show ?thesis by (simp add: Load_def)
qed

section \<open>Properties\<close>

text \<open>C9. Loading an RDB file stores exactly the pairs of the file, in order: whatever mix of auxiliary
  fields, database selectors, size hints, expiries and string pairs a well-formed file has, in raw or
  integer encoding, the loader ends without error and has called its callback for each pair with the expiry
  stated for that pair alone. The trailing checksum is not read.\<close>

theorem rdb_load_round_trip:
  assumes "list_all record_ok recs"
  shows "Load put (rdb_file recs checksum) s =
    (None, fold (\<lambda>(k, v, e). put k v e) (rdb_meaning zero_time recs) s)"
  unfolding rdb_file_def Load_header load_loop_records [OF assms] load_loop_ends ..

theorem rdb_load_round_trip_witness:
  "Load Set (rdb_file [SelectDB 0, ExpireMs 5, KeyValue (Raw ''k'') (Int8 (- 3))] []) newStore =
     (None, Set ''k'' ''-3'' 5000000 newStore)"
proof -
  have "FormatInt (- 3) = ''-3''" by code_simp
  then show ?thesis
    using rdb_load_round_trip [of "[SelectDB 0, ExpireMs 5, KeyValue (Raw ''k'') (Int8 (- 3))]" Set "[]" newStore]
    by simp
qed

text \<open>C35. Error behaviour of the loader: a file cut inside the header is an error that stores nothing; a
  file without the magic is refused before anything is stored; a file that ends where an opcode is due is
  an error, after every complete pair was stored; a missing file is an empty database.\<close>

theorem rdb_load_errors:
  assumes "list_all record_ok recs"
  shows "(length r < 9 \<longrightarrow> (\<exists>e. Load put r s = (Some e, s))) \<and>
   (9 \<le> length r \<longrightarrow> take 5 r \<noteq> ''REDIS'' \<longrightarrow> Load put r s = (Some NotRDB, s)) \<and>
   Load put (''REDIS0011'' @ concat (map rdb_record_bytes recs)) s =
     (Some (During ''reading opcode'' (RdbIO EOF)),
      fold (\<lambda>(k, v, e). put k v e) (rdb_meaning zero_time recs) s) \<and>
   LoadRDBFile Missing put s = (None, s)"
proof -
  have "length r < 9 \<Longrightarrow> \<exists>e. Load put r s = (Some e, s)" by (auto simp: Load_def ReadFull_def)
  moreover have "9 \<le> length r \<Longrightarrow> take 5 r \<noteq> ''REDIS'' \<Longrightarrow> Load put r s = (Some NotRDB, s)"
    by (simp add: Load_def ReadFull_def min_def)
  moreover have "Load put (''REDIS0011'' @ concat (map rdb_record_bytes recs)) s =
     (Some (During ''reading opcode'' (RdbIO EOF)),
      fold (\<lambda>(k, v, e). put k v e) (rdb_meaning zero_time recs) s)"
    unfolding Load_header using load_loop_records [OF assms, of put zero_time "[]" s] load_loop_ends(2) by simp
  ultimately show ?thesis by (simp add: LoadRDBFile_def)
qed

theorem rdb_load_errors_witness: "Load Set ''REDIS00119'' newStore = (Some (UnsupportedOpcode 0x39), newStore) \<and>
   Load Set ''REDIS0011'' newStore = (Some (During ''reading opcode'' (RdbIO EOF)), newStore)"
proof -
  have "Load Set ''REDIS00119'' newStore = (Some (UnsupportedOpcode 0x39), newStore)"
    using Load_header [of Set "''9''" newStore]
    by (simp add: load_loop.simps [of Set] load_item_def byte_nat_def)
  moreover have "Load Set ''REDIS0011'' newStore = (Some (During ''reading opcode'' (RdbIO EOF)), newStore)"
    using rdb_load_errors [of "[]" "[]" Set newStore] by simp
  ultimately show ?thesis by blast
qed

end
