(* ===== verification/ClientProps.thy ===== *)
theory ClientProps
  imports Wakeup Rdb
begin

text \<open>
  What connections can rely on in every interleaving of clients: the authentication gate and the queue of a
  transaction. The steps of the keyspace and of a connection, and what each leaves alone.
\<close>

section \<open>Steps of the keyspace\<close>

text \<open>Every change a data command makes to the store is one of the store's operations.\<close>

inductive keyspace_step :: "store \<Rightarrow> store \<Rightarrow> bool" where
  stay: "keyspace_step s s"
| set_key: "keyspace_step s (Set k v t s)"
| incr: "Increment k s = (r, s') \<Longrightarrow> keyspace_step s s'"
| rpush: "RPush k vs s = Returns (n, s') \<Longrightarrow> keyspace_step s s'"
| lpush: "LPush k vs s = (n, s') \<Longrightarrow> keyspace_step s s'"
| lpop: "LPop k i s = Ret (p, s') \<Longrightarrow> keyspace_step s s'"
| blpop: "BLpop_enter ks s = Served x s' \<Longrightarrow> keyspace_step s s'"
| blpop_park: "BLpop_enter ks s = Parked ch s' \<Longrightarrow> keyspace_step s s'"
| xadd: "XAdd now k i fs s = Ret (q, s') \<Longrightarrow> keyspace_step s s'"
| zadd: "ZAdd k sc m s = Ret (r, s') \<Longrightarrow> keyspace_step s s'"
| zrem: "ZRem k m s = Ret (j, s') \<Longrightarrow> keyspace_step s s'"
| setbit: "SetBit now k off b s = (r, s') \<Longrightarrow> keyspace_step s s'"
| bitop: "bit_op f d k1 k2 s = (n, s') \<Longrightarrow> keyspace_step s s'"

declare keyspace_step.stay [simp]

lemma geoadd_step: "GeoAdd fl k lon lat m s = Ret (r, s') \<Longrightarrow> keyspace_step s s'"
  by (auto simp: GeoAdd_def split: if_splits intro: keyspace_step.intros)

abbreviation steps_store :: "store \<Rightarrow> outcome \<Rightarrow> bool" where
  "steps_store s \<equiv> outcome_all (\<lambda>r. True) (keyspace_step s)"

lemma table_steps:
  assumes "map_of (command_table h cfg replid) nm = Some run"
  shows "steps_store s (run cmd s)"
proof -
  note [intro] = keyspace_step.intros geoadd_step
  have strings: "steps_store s (cmd_ECHO cmd s)" "steps_store s (cmd_SET h cmd s)" "steps_store s (cmd_GET h cmd s)"
    "steps_store s (cmd_INCR cmd s)" "steps_store s (cmd_TYPE cmd s)" "steps_store s (cmd_KEYS h cmd s)"
    "steps_store s (cmd_INFO cfg replid s)" "steps_store s (cmd_CONFIG h cfg cmd s)"
    by (auto simp: cmd_ECHO_def cmd_SET_def cmd_GET_def cmd_INCR_def cmd_TYPE_def cmd_KEYS_def cmd_INFO_def cmd_CONFIG_def
        Let_def outcome_all_on_val split: prod.splits)
  have lists: "steps_store s (cmd_RPUSH cmd s)" "steps_store s (cmd_LPUSH cmd s)" "steps_store s (cmd_LLEN cmd s)"
    "steps_store s (cmd_LRANGE cmd s)" "steps_store s (cmd_LPOP cmd s)" "steps_store s (cmd_BLPOP h cmd s)"
    by (auto simp: cmd_RPUSH_def cmd_LPUSH_def cmd_LLEN_def cmd_LRANGE_def cmd_LPOP_def cmd_BLPOP_def Let_def
        intro!: outcome_all_on_ret split: prod.splits sync.splits blpop_entry.splits)
  have streams: "steps_store s (cmd_XADD h cmd s)" "steps_store s (cmd_XRANGE cmd s)" "steps_store s (cmd_XREAD h cmd s)"
    by (auto simp: cmd_XADD_def cmd_XRANGE_def cmd_XREAD_def Let_def outcome_all_on_val
        intro!: outcome_all_on_ret split: sum.splits option.splits xread_state.splits)
  have zsets: "steps_store s (cmd_ZADD h cmd s)" "steps_store s (cmd_ZRANK cmd s)" "steps_store s (cmd_ZRANGE cmd s)"
    "steps_store s (cmd_ZCARD cmd s)" "steps_store s (cmd_ZSCORE h cmd s)" "steps_store s (cmd_ZREM cmd s)"
    by (auto simp: cmd_ZADD_def cmd_ZRANK_def cmd_ZRANGE_def cmd_ZCARD_def cmd_ZSCORE_def cmd_ZREM_def
        intro!: outcome_all_on_ret split: sum.splits)
  have bits: "steps_store s (cmd_SETBIT h cmd s)" "steps_store s (cmd_GETBIT h cmd s)" "steps_store s (cmd_STRLEN h cmd s)"
    "steps_store s (cmd_BITCOUNT cmd s)" "steps_store s (cmd_BITOP cmd s)"
    by (auto simp: cmd_SETBIT_def cmd_GETBIT_def cmd_STRLEN_def cmd_BITCOUNT_def cmd_BITOP_def BitOpAnd_def BitOpOr_def
        outcome_all_on_val intro!: outcome_all_on_ret split: prod.splits sum.splits)
  have geo: "steps_store s (cmd_GEOADD h cmd s)" "steps_store s (cmd_GEOPOS h cmd s)" "steps_store s (cmd_GEODIST h cmd s)"
    "steps_store s (cmd_GEOSEARCH h cmd s)"
    by (auto simp: cmd_GEOADD_def cmd_GEOPOS_def cmd_GEODIST_def cmd_GEOSEARCH_def Let_def outcome_all_on_val
        intro!: outcome_all_on_ret)
  have "list_all (\<lambda>(nm, run). steps_store s (run cmd s)) (command_table h cfg replid)"
    by (simp add: command_table_def strings lists streams zsets bits geo keyspace_step.stay)
  with map_of_SomeD [OF assms] show ?thesis by (auto simp: list_all_iff)
qed

text \<open>A step of the keyspace leaves registrations alone and at most marks transactions dirty.\<close>

definition tx_frame :: "store \<Rightarrow> store \<Rightarrow> bool" where
  "tx_frame s s' \<longleftrightarrow> watchers s' = watchers s \<and>
     (\<forall>t. tx_active (txs s' t) = tx_active (txs s t) \<and> tx_queued (txs s' t) = tx_queued (txs s t) \<and>
          tx_watched (txs s' t) = tx_watched (txs s t) \<and> (tx_dirty (txs s t) \<longrightarrow> tx_dirty (txs s' t))) \<and>
     (watchers s = Map.empty \<longrightarrow> txs s' = txs s)"

lemma tx_frame_same: "watchers s' = watchers s \<Longrightarrow> txs s' = txs s \<Longrightarrow> tx_frame s s'"
  by (simp add: tx_frame_def)

lemma mark_unwatched: "watchers s = Map.empty \<Longrightarrow> txs (markWatchersLocked k s) = txs s"
  by (simp add: markWatchersLocked_def slice_at_def)

lemma tx_frame_mark: "watchers s' = watchers s \<Longrightarrow> txs s' = txs (markWatchersLocked k s) \<Longrightarrow> tx_frame s s'"
  by (simp add: tx_frame_def mark_unwatched)

lemma rpush_loop_txs:
  "rpush_loop key vs lst n s = Returns (lst', n', s') \<Longrightarrow> watchers s' = watchers s \<and> txs s' = txs s"
  by (induction key vs lst n s rule: rpush_loop.induct)
    (auto simp: chan_send_def split: list.splits option.splits if_splits)

lemma blpop_scan_txs: "blpop_scan ks s = Some (p, s') \<Longrightarrow> watchers s' = watchers s \<and> txs s' = txs s"
  by (induction ks) (auto split: list.splits if_splits)

lemma register_txs: "watchers (fold (register_waiter ch) ks s) = watchers s \<and> txs (fold (register_waiter ch) ks s) = txs s"
  by (induction ks arbitrary: s) (simp_all add: register_waiter_def)

lemma keyspace_step_frame: "keyspace_step s s' \<Longrightarrow> tx_frame s s'"
proof (induction rule: keyspace_step.induct)
  case (rpush k vs s n s')
  then show ?case
    by (intro tx_frame_same) (auto simp: RPush_def Let_def dest!: rpush_loop_txs split: sync.splits)
next
  case (blpop ks s x s')
  then show ?case
    by (intro tx_frame_same) (auto simp: BLpop_enter_def Let_def dest!: blpop_scan_txs split: option.splits)
next
  case (blpop_park ks s ch s')
  then show ?case
    by (intro tx_frame_same) (auto simp: BLpop_enter_def Let_def register_txs split: option.splits)
next
  case (incr k s r s')
  then show ?case
    using tx_frame_same [of s s] tx_frame_mark [of s' s k]
    by (auto simp: Increment_def Let_def markWatchersLocked_def split: if_splits prod.splits)
next
  case (zadd k sc m s r s')
  then show ?case
    using tx_frame_same [of s s] tx_frame_mark [of s' s k]
    by (auto simp: ZAdd_def Let_def go_bind_eq_Ret put_zset_def split: if_splits option.splits)
next
  case (setbit now k off b s r s')
  then show ?case
    using tx_frame_same [of s s] tx_frame_mark [of s' s k]
    by (auto simp: SetBit_def Let_def split: if_splits prod.splits)
next
  case (set_key s k v t)
  show ?case by (rule tx_frame_mark [of _ _ k]) (simp_all add: Set_def Let_def)
qed (auto intro!: tx_frame_same simp: LPush_def LPop_def XAdd_def ZRem_def bit_op_def put_zset_def Let_def go_bind_eq_Ret
    split: if_splits option.splits sum.splits)

lemma handleCommands_steps: "steps_store s (fst (handleCommands h cfg replid cmd (s, a)))"
  using table_steps [of h cfg replid "ToUpper (uni_upper h) (cmd ! 0)" _ s cmd]
  by (auto simp: handleCommands_def Let_def split: go.splits option.splits)

lemma run_data_steps:
  assumes "run_data h cmd w = (out, w')"
  shows "keyspace_step (db w) (db w')" and "aof w' = aof w" and "srv_replicas (srv w') = srv_replicas (srv w)"
    and "srv_pubsub (srv w') = srv_pubsub (srv w)"
    and "\<And>r s. out = Answer r s \<Longrightarrow> db w' = s"
proof -
  obtain a where hc: "handleCommands h (srv_cfg (srv w)) (replicationID (srv w)) cmd (db w, srv_acl (srv w)) = (out, a)"
    and w': "w' = w\<lparr>db := outcome_store out (db w), srv := (srv w)\<lparr>srv_acl := a\<rparr>\<rparr>"
    using assms by (auto simp: run_data_def split: prod.splits)
  have "steps_store (db w) out" using handleCommands_steps [of "db w"] hc by (metis fst_conv)
  then show "keyspace_step (db w) (db w')" by (cases out) (simp_all add: w' outcome_store_def)
  show "aof w' = aof w" "srv_replicas (srv w') = srv_replicas (srv w)" "srv_pubsub (srv w') = srv_pubsub (srv w)"
    "\<And>r s. out = Answer r s \<Longrightarrow> db w' = s" by (simp_all add: w' outcome_store_def)
qed

section \<open>Interleaved clients\<close>

text \<open>
  The goroutines of several connections as a step relation. A step is a section under a mutex, or code
  on the variables of one connection. A data command is three steps: the command itself, the propagation to
  the replicas and the write to the append-only file; EXEC is one step each for \<open>CheckDirty\<close>, \<open>Unwatch\<close> and taking
  the queue, and one for each queued command. \<open>pc\<close> says where a connection stands. SUBSCRIBE,
  UNSUBSCRIBE, which take their mutex once for each channel, and the start of WAIT are one step here. A command
  that blocks without the mutex leaves its connection in \<open>Blocked\<close> until one of its select cases is ready. A
  command that is stuck while it holds the mutex has no step: after it nothing else happens in the store.
\<close>

datatype pc =
  Idle
| Checked bool
| Unwatched bool
| Executing "bytes list list"
| Propagating "bytes list"
| Appending "bytes list"
| Blocked blocked

record sys =
  conns :: "connid \<Rightarrow> conn"
  pcs :: "connid \<Rightarrow> pc"
  shared :: world

datatype event = Event (ev_conn: connid) (ev_os: os) (ev_host: host) (ev_cmd: "bytes list")

definition ev_name :: "event \<Rightarrow> string" where
  "ev_name e = ToUpper (uni_upper (ev_host e)) (ev_cmd e ! 0)"

definition is_data :: "string \<Rightarrow> bool" where
  "is_data nm \<longleftrightarrow> nm \<notin> {''MULTI'', ''EXEC'', ''DISCARD'', ''WATCH'', ''UNWATCH'', ''PSYNC'', ''REPLCONF'', ''WAIT'',
     ''SUBSCRIBE'', ''PUBLISH'', ''UNSUBSCRIBE'', ''AUTH''}"

definition tx_control :: "string \<Rightarrow> bool" where
  "tx_control nm \<longleftrightarrow> nm \<in> {''MULTI'', ''EXEC'', ''DISCARD'', ''WATCH''}"

text \<open>Whether the connection is past the checks at the head of the loop, so that the switch is reached.\<close>

definition reaches_switch :: "connid \<Rightarrow> string \<Rightarrow> bytes list \<Rightarrow> conn \<Rightarrow> world \<Rightarrow> bool" where
  "reaches_switch a nm cmd c w \<longleftrightarrow>
     \<not> (currentUser c = None \<and> nm \<noteq> ''AUTH'') \<and>
     \<not> (tx_active (txs (db w) a) \<and> \<not> tx_control nm) \<and>
     (subscribed c \<noteq> {} \<longrightarrow> client_subscriber_mode nm cmd = None)"

inductive sys_step :: "sys \<Rightarrow> event \<Rightarrow> sys \<Rightarrow> bool" where
  command: "pcs \<sigma> a = Idle \<Longrightarrow> cmd \<noteq> [] \<Longrightarrow> nm = ToUpper (uni_upper h) (cmd ! 0) \<Longrightarrow>
    \<not> (reaches_switch a nm cmd (conns \<sigma> a) (shared \<sigma>) \<and> (is_data nm \<or> nm = ''EXEC'')) \<Longrightarrow>
    client_command os h a cmd (conns \<sigma> a) (shared \<sigma>) = Continues out c w \<Longrightarrow>
    sys_step \<sigma> (Event a os h cmd) (\<sigma>\<lparr>conns := (conns \<sigma>)(a := c), shared := w\<rparr>)"
| data_command: "pcs \<sigma> a = Idle \<Longrightarrow> cmd \<noteq> [] \<Longrightarrow> nm = ToUpper (uni_upper h) (cmd ! 0) \<Longrightarrow>
    reaches_switch a nm cmd (conns \<sigma> a) (shared \<sigma>) \<Longrightarrow> is_data nm \<Longrightarrow>
    run_data h cmd (shared \<sigma>) = (Answer r s, w) \<Longrightarrow>
    sys_step \<sigma> (Event a os h cmd)
      (\<sigma>\<lparr>pcs := (pcs \<sigma>)(a := if writeCommands nm then Propagating cmd else Idle), shared := w\<rparr>)"
| propagates: "pcs \<sigma> a = Propagating cmd \<Longrightarrow> propagate cmd (srv_replicas (srv (shared \<sigma>))) = (out, r) \<Longrightarrow>
    sys_step \<sigma> (Event a os h cmd) (\<sigma>\<lparr>pcs := (pcs \<sigma>)(a := Appending cmd),
      shared := (shared \<sigma>)\<lparr>srv := (srv (shared \<sigma>))\<lparr>srv_replicas := r\<rparr>\<rparr>\<rparr>)"
| appends: "pcs \<sigma> a = Appending cmd \<Longrightarrow>
    sys_step \<sigma> (Event a os h cmd) (\<sigma>\<lparr>pcs := (pcs \<sigma>)(a := Idle),
      shared := (shared \<sigma>)\<lparr>aof := snd (Append (os_write os) (os_sync os) (EncodeRaw cmd) (aof (shared \<sigma>)))\<rparr>\<rparr>)"
| exec_check: "pcs \<sigma> a = Idle \<Longrightarrow> cmd \<noteq> [] \<Longrightarrow> ToUpper (uni_upper h) (cmd ! 0) = ''EXEC'' \<Longrightarrow>
    reaches_switch a ''EXEC'' cmd (conns \<sigma> a) (shared \<sigma>) \<Longrightarrow> tx_active (txs (db (shared \<sigma>)) a) \<Longrightarrow>
    sys_step \<sigma> (Event a os h cmd) (\<sigma>\<lparr>pcs := (pcs \<sigma>)(a := Checked (CheckDirty a (db (shared \<sigma>))))\<rparr>)"
| exec_unwatch: "pcs \<sigma> a = Checked aborted \<Longrightarrow>
    sys_step \<sigma> (Event a os h cmd) (\<sigma>\<lparr>pcs := (pcs \<sigma>)(a := Unwatched aborted),
      shared := (shared \<sigma>)\<lparr>db := Unwatch a (db (shared \<sigma>))\<rparr>\<rparr>)"
| exec_take: "pcs \<sigma> a = Unwatched aborted \<Longrightarrow>
    sys_step \<sigma> (Event a os h cmd)
      (\<sigma>\<lparr>pcs := (pcs \<sigma>)(a := if aborted then Idle else Executing (tx_queued (txs (db (shared \<sigma>)) a))),
         shared := on_tx a (\<lambda>_. zero_transaction) (shared \<sigma>)\<rparr>)"
| exec_refused: "pcs \<sigma> a = Idle \<Longrightarrow> cmd \<noteq> [] \<Longrightarrow> ToUpper (uni_upper h) (cmd ! 0) = ''EXEC'' \<Longrightarrow>
    reaches_switch a ''EXEC'' cmd (conns \<sigma> a) (shared \<sigma>) \<Longrightarrow> \<not> tx_active (txs (db (shared \<sigma>)) a) \<Longrightarrow>
    sys_step \<sigma> (Event a os h cmd) \<sigma>"
| exec_next: "pcs \<sigma> a = Executing (cmd # cmds) \<Longrightarrow> run_data h cmd (shared \<sigma>) = (Answer r s, w) \<Longrightarrow>
    sys_step \<sigma> (Event a os h cmd) (\<sigma>\<lparr>pcs := (pcs \<sigma>)(a := Executing cmds), shared := w\<rparr>)"
| exec_done: "pcs \<sigma> a = Executing [] \<Longrightarrow> sys_step \<sigma> (Event a os h cmd) (\<sigma>\<lparr>pcs := (pcs \<sigma>)(a := Idle)\<rparr>)"
| wait_parks: "pcs \<sigma> a = Idle \<Longrightarrow> cmd \<noteq> [] \<Longrightarrow> nm = ToUpper (uni_upper h) (cmd ! 0) \<Longrightarrow>
    \<not> (reaches_switch a nm cmd (conns \<sigma> a) (shared \<sigma>) \<and> (is_data nm \<or> nm = ''EXEC'')) \<Longrightarrow>
    client_command os h a cmd (conns \<sigma> a) (shared \<sigma>) = Blocks out b c w \<Longrightarrow>
    sys_step \<sigma> (Event a os h cmd) (\<sigma>\<lparr>conns := (conns \<sigma>)(a := c), pcs := (pcs \<sigma>)(a := Blocked b), shared := w\<rparr>)"
| data_parks: "pcs \<sigma> a = Idle \<Longrightarrow> cmd \<noteq> [] \<Longrightarrow> nm = ToUpper (uni_upper h) (cmd ! 0) \<Longrightarrow>
    reaches_switch a nm cmd (conns \<sigma> a) (shared \<sigma>) \<Longrightarrow> is_data nm \<Longrightarrow>
    run_data h cmd (shared \<sigma>) = (res, w) \<Longrightarrow> parks res \<Longrightarrow>
    sys_step \<sigma> (Event a os h cmd) (\<sigma>\<lparr>pcs := (pcs \<sigma>)(a := Blocked (InCommand res nm cmd)), shared := w\<rparr>)"
| exec_parks: "pcs \<sigma> a = Executing (cmd # cmds) \<Longrightarrow> run_data h cmd (shared \<sigma>) = (res, w) \<Longrightarrow> parks res \<Longrightarrow>
    sys_step \<sigma> (Event a os h cmd) (\<sigma>\<lparr>pcs := (pcs \<sigma>)(a := Blocked (InExec res cmds)), shared := w\<rparr>)"
| data_wakes: "pcs \<sigma> a = Blocked (InCommand res nm cmd) \<Longrightarrow> outcome_wakes wk res (db (shared \<sigma>)) = Answers r s \<Longrightarrow>
    sys_step \<sigma> (Event a os h cmd)
      (\<sigma>\<lparr>pcs := (pcs \<sigma>)(a := if writeCommands nm then Propagating cmd else Idle), shared := (shared \<sigma>)\<lparr>db := s\<rparr>\<rparr>)"
| exec_wakes: "pcs \<sigma> a = Blocked (InExec res cmds) \<Longrightarrow> outcome_wakes wk res (db (shared \<sigma>)) = Answers r s \<Longrightarrow>
    sys_step \<sigma> (Event a os h cmd) (\<sigma>\<lparr>pcs := (pcs \<sigma>)(a := Executing cmds), shared := (shared \<sigma>)\<lparr>db := s\<rparr>\<rparr>)"
| wait_wakes: "pcs \<sigma> a = Blocked (InWait num target ch cnt timeout) \<Longrightarrow>
    wait_wakes wk num target ch cnt timeout (srv_replicas (srv (shared \<sigma>))) = Some (WaitDone n) \<Longrightarrow>
    sys_step \<sigma> (Event a os h cmd) (\<sigma>\<lparr>pcs := (pcs \<sigma>)(a := Idle)\<rparr>)"
| waits_again: "pcs \<sigma> a = Blocked b \<Longrightarrow> rearm wk b (shared \<sigma>) = Some b' \<Longrightarrow>
    sys_step \<sigma> (Event a os h cmd) (\<sigma>\<lparr>pcs := (pcs \<sigma>)(a := Blocked b')\<rparr>)"

section \<open>What a connection can do to the others\<close>

lemma txs_on_tx [simp]: "txs (db (on_tx b f w)) = (txs (db w))(b := f (txs (db w) b))"
  and on_tx_frame [simp]: "data (db (on_tx b f w)) = data (db w)" "watchers (db (on_tx b f w)) = watchers (db w)"
    "aof (on_tx b f w) = aof w" "srv (on_tx b f w) = srv w"
  by (simp_all add: on_tx_def)

lemma txs_Watch_other: "t \<noteq> b \<Longrightarrow> txs (Watch b ks s) t = txs s t"
  by (simp add: Watch_txs)

lemma txs_Unwatch_other: "t \<noteq> b \<Longrightarrow> txs (Unwatch b s) t = txs s t"
  by (simp add: Unwatch_def unwatch_fold_txs)

lemma on_pubsub_frame [simp]: "db (on_pubsub f w) = db w" "aof (on_pubsub f w) = aof w" "srv_acl (srv (on_pubsub f w)) = srv_acl (srv w)"
  by (simp_all add: on_pubsub_def)

text \<open>What the subscription loops leave alone.\<close>

definition sub_frame :: "conn \<Rightarrow> world \<Rightarrow> conn \<Rightarrow> world \<Rightarrow> bool" where
  "sub_frame c w c' w' \<longleftrightarrow>
     db w' = db w \<and> aof w' = aof w \<and> srv_acl (srv w') = srv_acl (srv w) \<and> currentUser c' = currentUser c"

lemma subscribe_loop_frame: "subscribe_loop b nms c w = (out, c', w') \<Longrightarrow> sub_frame c w c' w'"
proof (induction nms arbitrary: c w out)
  case (Cons nm nms)
  obtain o2 where "subscribe_loop b nms (c\<lparr>subscribed := insert nm (subscribed c)\<rparr>) (on_pubsub (subscribe nm b) w) = (o2, c', w')"
    using Cons.prems by (simp add: Let_def split: prod.splits)
  from Cons.IH [OF this] show ?case by (simp add: sub_frame_def)
qed (simp add: sub_frame_def)

lemma unsubscribe_loop_frame: "unsubscribe_loop b nms c w = Ret (out, c', w') \<Longrightarrow> sub_frame c w c' w'"
proof (induction nms arbitrary: c w out)
  case (Cons nm nms)
  obtain n ps where "unsubscibe nm b (srv_pubsub (srv w)) = (n, ps)" by (cases "unsubscibe nm b (srv_pubsub (srv w))")
  with Cons.prems obtain o2 where
    "unsubscribe_loop b nms (c\<lparr>subscribed := subscribed c - {nm}\<rparr>) (on_pubsub (\<lambda>_. ps) w) = Ret (o2, c', w')"
    by (simp add: go_bind_eq_Ret split: if_splits) auto
  from Cons.IH [OF this] show ?case by (simp add: sub_frame_def)
qed (simp add: sub_frame_def)

text \<open>A control command leaves the data, the file, the users and the transactions of the others alone.\<close>

definition control_frame :: "connid \<Rightarrow> world \<Rightarrow> world \<Rightarrow> bool" where
  "control_frame b w w' \<longleftrightarrow> data (db w') = data (db w) \<and> aof w' = aof w \<and> srv_acl (srv w') = srv_acl (srv w) \<and>
     (\<forall>t. t \<noteq> b \<longrightarrow> txs (db w') t = txs (db w) t)"

lemma control_frame_simps [simp]:
  "control_frame b w w" "control_frame b w (on_tx b f w)"
  "control_frame b w (w\<lparr>db := Watch b ks (db w)\<rparr>)" "control_frame b w (w\<lparr>db := Unwatch b (db w)\<rparr>)"
  "control_frame b w (w\<lparr>srv := (srv w)\<lparr>srv_replicas := r\<rparr>\<rparr>)"
  by (simp_all add: control_frame_def txs_Watch_other txs_Unwatch_other)

definition user_kept :: "conn \<Rightarrow> conn \<Rightarrow> bool" where "user_kept c c' \<longleftrightarrow> currentUser c' = currentUser c"

lemma control_commands_frame:
  "client_MULTI b c w = Continues out c' w' \<Longrightarrow> control_frame b w w' \<and> user_kept c c'"
  "client_DISCARD b c w = Continues out c' w' \<Longrightarrow> control_frame b w w' \<and> user_kept c c'"
  "client_WATCH b cmd c w = Continues out c' w' \<Longrightarrow> control_frame b w w' \<and> user_kept c c'"
  "client_UNWATCH b c w = Continues out c' w' \<Longrightarrow> control_frame b w w' \<and> user_kept c c'"
  by (auto simp: client_MULTI_def client_DISCARD_def client_WATCH_def client_UNWATCH_def user_kept_def split: if_splits)

lemma replication_commands_frame:
  "client_PSYNC b c w = Continues out c' w' \<Longrightarrow> control_frame b w w' \<and> user_kept c c'"
  by (simp add: client_PSYNC_def user_kept_def split: option.splits) (metis control_frame_simps(5))

lemma REPLCONF_frame:
  "client_REPLCONF h b cmd c w = Continues out c' w' \<Longrightarrow> control_frame b w w' \<and> user_kept c c'"
  by (auto simp: client_REPLCONF_def user_kept_def split: if_splits prod.splits)

lemma PUBLISH_frame:
  "client_PUBLISH os b cmd c w = Continues out c' w' \<Longrightarrow> control_frame b w w' \<and> user_kept c c'"
  by (auto simp: client_PUBLISH_def user_kept_def split: if_splits prod.splits)

lemma WAIT_frame:
  assumes "client_WAIT b cmd c w = Continues out c' w'"
  shows "control_frame b w w' \<and> user_kept c c'"
proof (cases "wait_begin (srv_replicas (srv w))")
  case (WaitReturns n)
  then show ?thesis using assms by (auto simp: client_WAIT_def user_kept_def Let_def split: if_splits)
next
  case (WaitFor target o2 r)
  then show ?thesis
    using assms by (auto simp: client_WAIT_def user_kept_def Let_def split: if_splits wait_state.splits)
qed

lemma sub_frame_refl: "sub_frame c w c w"
  by (simp add: sub_frame_def)

lemma sub_frame_control: "sub_frame c w c' w' \<Longrightarrow> control_frame b w w' \<and> user_kept c c'"
  by (simp add: control_frame_def sub_frame_def user_kept_def)

lemma SUBSCRIBE_frame:
  assumes "client_SUBSCRIBE b cmd c w = Continues out c' w'"
  shows "control_frame b w w' \<and> user_kept c c'"
proof (cases "length cmd < 2")
  case True
  then have "c' = c" "w' = w" using assms by (simp_all add: client_SUBSCRIBE_def)
  then show ?thesis using sub_frame_refl sub_frame_control by blast
next
  case False
  then have "subscribe_loop b (drop 1 cmd) (c\<lparr>sub := True\<rparr>) w = (out, c', w')"
    using assms by (simp add: client_SUBSCRIBE_def split: prod.splits)
  from subscribe_loop_frame [OF this] have "sub_frame c w c' w'" by (simp add: sub_frame_def)
  then show ?thesis by (rule sub_frame_control)
qed

lemma UNSUBSCRIBE_frame:
  assumes "client_UNSUBSCRIBE b cmd c w = Continues out c' w'"
  shows "control_frame b w w' \<and> user_kept c c'"
proof -
  have "unsubscribe_loop b (drop 1 cmd) c w = Ret (out, c', w')"
    using assms by (simp add: client_UNSUBSCRIBE_def split: prod.splits go.splits)
  then show ?thesis by (rule unsubscribe_loop_frame [THEN sub_frame_control])
qed

lemma client_AUTH_frame:
  "client_AUTH h b cmd c w = Continues out c' w' \<Longrightarrow>
     w' = w \<and> (c' = c \<or> currentUser c' \<noteq> None)"
  by (auto simp: client_AUTH_def Let_def split: if_splits option.splits prod.splits)

lemma client_switch_frame:
  assumes "client_switch os h b nm cmd c w = Continues out c' w'" and "\<not> is_data nm" and "nm \<noteq> ''EXEC''"
  shows "control_frame b w w' \<and> (nm \<noteq> ''AUTH'' \<longrightarrow> user_kept c c') \<and>
    (currentUser c \<noteq> None \<longrightarrow> currentUser c' \<noteq> None)"
proof -
  let ?Q = "\<lambda>nm. control_frame b w w' \<and> (nm \<noteq> ''AUTH'' \<longrightarrow> user_kept c c')"
  have "list_all (\<lambda>nm. client_switch os h b nm cmd c w = Continues out c' w' \<longrightarrow> ?Q nm)
     [''MULTI'', ''DISCARD'', ''WATCH'', ''UNWATCH'', ''PSYNC'', ''REPLCONF'', ''WAIT'', ''SUBSCRIBE'', ''PUBLISH'',
      ''UNSUBSCRIBE'', ''AUTH'']"
    using control_commands_frame [where b = b and c = c and w = w and out = out and c' = c' and w' = w']
      replication_commands_frame [of b c w out c' w'] REPLCONF_frame [of h b cmd c w out c' w']
      PUBLISH_frame [of os b cmd c w out c' w'] WAIT_frame [of b cmd c w out c' w'] SUBSCRIBE_frame [of b cmd c w out c' w']
      UNSUBSCRIBE_frame [of b cmd c w out c' w']
      client_AUTH_frame [of h b cmd c w out c' w']
    by (simp add: client_switch_def) auto
  moreover have "nm \<in> set [''MULTI'', ''DISCARD'', ''WATCH'', ''UNWATCH'', ''PSYNC'', ''REPLCONF'', ''WAIT'', ''SUBSCRIBE'',
      ''PUBLISH'', ''UNSUBSCRIBE'', ''AUTH'']"
    using assms(2,3) by (simp add: is_data_def)
  ultimately have Q: "?Q nm" using assms(1) by (simp only: list_all_iff) blast
  moreover have "currentUser c \<noteq> None \<longrightarrow> currentUser c' \<noteq> None"
  proof (cases "nm = ''AUTH''")
    case True
    then have "client_AUTH h b cmd c w = Continues out c' w'" using assms(1) by (simp add: client_switch_def)
    then show ?thesis using client_AUTH_frame by blast
  next
    case False
    then show ?thesis using Q by (simp add: user_kept_def)
  qed
  ultimately show ?thesis by blast
qed

lemma client_command_eq:
  assumes "cmd \<noteq> []" and "nm = ToUpper (uni_upper h) (cmd ! 0)"
  shows "client_command os h b cmd c w =
    (if currentUser c = None \<and> nm \<noteq> ''AUTH'' then Continues [(b, noauth_reply)] c w
     else if tx_active (txs (db w) b) \<and> \<not> tx_control nm
     then Continues [(b, queued_reply)] c (on_tx b (\<lambda>tx. tx\<lparr>tx_queued := tx_queued tx @ [cmd]\<rparr>) w)
     else (case (if subscribed c \<noteq> {} then client_subscriber_mode nm cmd else None) of
             Some r \<Rightarrow> Continues [(b, r)] c w
           | None \<Rightarrow> client_switch os h b nm cmd c w))"
  unfolding client_command_def Let_def tx_control_def assms(2) [symmetric] using assms(1) by (simp only: if_False)

lemma client_command_cases:
  assumes "cmd \<noteq> []" and "nm = ToUpper (uni_upper h) (cmd ! 0)"
  obtains (noauth) "client_command os h b cmd c w = Continues [(b, noauth_reply)] c w"
  | (queued) "tx_active (txs (db w) b)"
      "client_command os h b cmd c w =
         Continues [(b, queued_reply)] c (on_tx b (\<lambda>tx. tx\<lparr>tx_queued := tx_queued tx @ [cmd]\<rparr>) w)"
  | (subscriber) r where "client_command os h b cmd c w = Continues [(b, r)] c w"
  | (switch) "reaches_switch b nm cmd c w" "client_command os h b cmd c w = client_switch os h b nm cmd c w"
proof (cases "currentUser c = None \<and> nm \<noteq> ''AUTH''")
  case True
  then show ?thesis by (intro noauth) (simp only: client_command_eq [OF assms] if_True simp_thms)
next
  case a: False
  show ?thesis
  proof (cases "tx_active (txs (db w) b) \<and> \<not> tx_control nm")
    case True
    then show ?thesis by (intro queued) (simp_all only: client_command_eq [OF assms] a if_True if_False simp_thms)
  next
    case t: False
    show ?thesis
    proof (cases "if subscribed c \<noteq> {} then client_subscriber_mode nm cmd else None")
      case (Some r)
      then show ?thesis by (intro subscriber [of r]) (simp only: client_command_eq [OF assms] a t if_False option.case)
    next
      case None
      then have "subscribed c \<noteq> {} \<longrightarrow> client_subscriber_mode nm cmd = None" by (simp split: if_splits)
      then have "reaches_switch b nm cmd c w" unfolding reaches_switch_def using a t by (intro conjI)
      then show ?thesis using None by (intro switch) (simp_all only: client_command_eq [OF assms] a t if_False option.case)
    qed
  qed
qed

lemma client_command_frame:
  assumes "cmd \<noteq> []" and "nm = ToUpper (uni_upper h) (cmd ! 0)"
    and "\<not> (reaches_switch b nm cmd c w \<and> (is_data nm \<or> nm = ''EXEC''))"
    and run: "client_command os h b cmd c w = Continues out c' w'"
  shows "control_frame b w w'" and "currentUser c \<noteq> None \<longrightarrow> currentUser c' \<noteq> None"
    and "currentUser c' = None \<Longrightarrow> \<not> tx_active (txs (db w) b) \<Longrightarrow> c' = c \<and> w' = w"
proof -
  have "control_frame b w w' \<and> (currentUser c \<noteq> None \<longrightarrow> currentUser c' \<noteq> None) \<and>
      (currentUser c' = None \<longrightarrow> \<not> tx_active (txs (db w) b) \<longrightarrow> c' = c \<and> w' = w)"
    using assms(1,2)
  proof (cases rule: client_command_cases [where c = c and w = w and b = b and os = os])
    case switch
    then have sw: "client_switch os h b nm cmd c w = Continues out c' w'" "\<not> is_data nm" "nm \<noteq> ''EXEC''"
      using run assms(3) by simp_all
    note f = client_switch_frame [OF sw]
    have "c' = c \<and> w' = w" if n: "currentUser c' = None"
    proof -
      have "currentUser c = None" using f n by blast
      then have nm: "nm = ''AUTH''" using switch(1) by (simp add: reaches_switch_def)
      then have "client_AUTH h b cmd c w = Continues out c' w'" using sw(1) by (simp add: client_switch_def)
      then show ?thesis using n client_AUTH_frame by blast
    qed
    then show ?thesis using f by blast
  qed (use run in auto)
  then show "control_frame b w w'" "currentUser c \<noteq> None \<longrightarrow> currentUser c' \<noteq> None"
    "currentUser c' = None \<Longrightarrow> \<not> tx_active (txs (db w) b) \<Longrightarrow> c' = c \<and> w' = w" by blast+
qed

text \<open>The one control command that blocks is WAIT.\<close>

lemma client_switch_Blocks:
  assumes "client_switch os h b nm cmd c w = Blocks out blk c' w'" and "\<not> is_data nm" and "nm \<noteq> ''EXEC''"
  shows "nm = ''WAIT'' \<and> client_WAIT b cmd c w = Blocks out blk c' w'"
proof -
  have "list_all (\<lambda>nm. client_switch os h b nm cmd c w = Blocks out blk c' w' \<longrightarrow> nm = ''WAIT'')
     [''MULTI'', ''DISCARD'', ''WATCH'', ''UNWATCH'', ''PSYNC'', ''REPLCONF'', ''WAIT'', ''SUBSCRIBE'', ''PUBLISH'',
      ''UNSUBSCRIBE'', ''AUTH'']"
    by (simp add: client_switch_def client_MULTI_def client_DISCARD_def client_WATCH_def client_UNWATCH_def client_PSYNC_def
        client_REPLCONF_def client_SUBSCRIBE_def client_PUBLISH_def client_UNSUBSCRIBE_def client_AUTH_def Let_def
        split: prod.splits option.splits go.splits)
  moreover have "nm \<in> set [''MULTI'', ''DISCARD'', ''WATCH'', ''UNWATCH'', ''PSYNC'', ''REPLCONF'', ''WAIT'', ''SUBSCRIBE'',
      ''PUBLISH'', ''UNSUBSCRIBE'', ''AUTH'']"
    using assms(2,3) by (simp add: is_data_def)
  ultimately have "nm = ''WAIT''" using assms(1) by (simp only: list_all_iff)
  then show ?thesis using assms(1) by (simp add: client_switch_def)
qed

lemma WAIT_Blocks:
  assumes "client_WAIT b cmd c w = Blocks out blk c' w'"
  shows "c' = c \<and> (\<exists>r. w' = w\<lparr>srv := (srv w)\<lparr>srv_replicas := r\<rparr>\<rparr>)"
  using assms by (auto simp: client_WAIT_def Let_def split: if_splits wait_start.splits wait_state.splits)

lemma client_command_Blocks:
  assumes "cmd \<noteq> []" and "nm = ToUpper (uni_upper h) (cmd ! 0)"
    and "\<not> (reaches_switch b nm cmd c w \<and> (is_data nm \<or> nm = ''EXEC''))"
    and run: "client_command os h b cmd c w = Blocks out blk c' w'"
  shows "c' = c" and "currentUser c \<noteq> None" and "db w' = db w" and "aof w' = aof w" and "nm = ''WAIT''"
    and "reaches_switch b nm cmd c w"
proof -
  have "c' = c \<and> currentUser c \<noteq> None \<and> db w' = db w \<and> aof w' = aof w \<and> nm = ''WAIT'' \<and> reaches_switch b nm cmd c w"
    using assms(1,2)
  proof (cases rule: client_command_cases [where c = c and w = w and b = b and os = os])
    case switch
    then have sw: "client_switch os h b nm cmd c w = Blocks out blk c' w'" "\<not> is_data nm" "nm \<noteq> ''EXEC''"
      using run assms(3) by simp_all
    from client_switch_Blocks [OF sw] have nm: "nm = ''WAIT''" and wt: "client_WAIT b cmd c w = Blocks out blk c' w'"
      by simp_all
    from WAIT_Blocks [OF wt] nm switch(1) show ?thesis by (auto simp: reaches_switch_def)
  qed (use run in auto)
  then show "c' = c" "currentUser c \<noteq> None" "db w' = db w" "aof w' = aof w" "nm = ''WAIT''" "reaches_switch b nm cmd c w"
    by blast+
qed

text \<open>What a step of one connection leaves of the transaction of another.\<close>

definition tx_kept :: "transaction \<Rightarrow> transaction \<Rightarrow> bool" where
  "tx_kept t t' \<longleftrightarrow> tx_active t' = tx_active t \<and> tx_queued t' = tx_queued t \<and> tx_watched t' = tx_watched t \<and>
     (tx_dirty t \<longrightarrow> tx_dirty t')"

lemma tx_kept_refl [simp]: "tx_kept t t"
  by (simp add: tx_kept_def)

lemma tx_frame_kept: "tx_frame s s' \<Longrightarrow> tx_kept (txs s t) (txs s' t)"
  by (simp add: tx_frame_def tx_kept_def)

lemma sys_step_other:
  assumes "sys_step \<sigma> e \<sigma>'" and "ev_conn e \<noteq> a"
  shows "conns \<sigma>' a = conns \<sigma> a \<and> pcs \<sigma>' a = pcs \<sigma> a \<and>
    tx_kept (txs (db (shared \<sigma>)) a) (txs (db (shared \<sigma>')) a)"
  using assms
proof (induction rule: sys_step.induct)
  case (command \<sigma> b cmd nm h os out c w)
  from client_command_frame(1) [OF command(2-5)] command(6) show ?case by (simp add: control_frame_def)
next
  case (data_command \<sigma> b cmd nm h r s w os)
  from run_data_steps(1) [OF data_command(6)] data_command(7) show ?case
    by (simp add: keyspace_step_frame tx_frame_kept)
next
  case (exec_next \<sigma> b cmd cmds h r s w os)
  from run_data_steps(1) [OF exec_next(2)] exec_next(3) show ?case
    by (simp add: keyspace_step_frame tx_frame_kept)
next
  case (exec_unwatch \<sigma> b aborted os h cmd)
  then show ?case by (simp add: txs_Unwatch_other)
next
  case (wait_parks \<sigma> b cmd nm h os out blk c w)
  note f = client_command_Blocks [OF wait_parks(2-5)]
  from f(1,3) wait_parks(6) show ?case by simp
next
  case (data_parks \<sigma> b cmd nm h res w os)
  from run_data_steps(1) [OF data_parks(6)] data_parks(8) show ?case
    by (simp add: keyspace_step_frame tx_frame_kept)
next
  case (exec_parks \<sigma> b cmd cmds h res w os)
  from run_data_steps(1) [OF exec_parks(2)] exec_parks(4) show ?case
    by (simp add: keyspace_step_frame tx_frame_kept)
next
  case (data_wakes \<sigma> b res nm cmd wk r s os h)
  from outcome_wakes_queue [OF data_wakes(2)] data_wakes(3) show ?case by (simp add: queue_frame_def)
next
  case (exec_wakes \<sigma> b res cmds wk r s os h cmd)
  from outcome_wakes_queue [OF exec_wakes(2)] exec_wakes(3) show ?case by (simp add: queue_frame_def)
qed simp_all

section \<open>Authentication\<close>

text \<open>A connection that has not authenticated has no transaction and is between two commands.\<close>

definition unauth_idle :: "connid \<Rightarrow> sys \<Rightarrow> bool" where
  "unauth_idle a \<sigma> \<longleftrightarrow>
     (currentUser (conns \<sigma> a) = None \<longrightarrow> pcs \<sigma> a = Idle \<and> \<not> tx_active (txs (db (shared \<sigma>)) a))"

lemma reaches_switch_auth: "reaches_switch a nm cmd c w \<Longrightarrow> nm \<noteq> ''AUTH'' \<Longrightarrow> currentUser c \<noteq> None"
  by (simp add: reaches_switch_def)

lemma not_data_AUTH [simp]: "\<not> is_data ''AUTH''" "\<not> is_data ''EXEC''"
  by (simp_all add: is_data_def)

lemma sys_step_user:
  assumes "sys_step \<sigma> e \<sigma>'" and "currentUser (conns \<sigma> a) \<noteq> None"
  shows "currentUser (conns \<sigma>' a) \<noteq> None"
  using assms
proof (induction rule: sys_step.induct)
  case (command \<sigma> b cmd nm h os out c w)
  from client_command_frame(2) [OF command(2-5)] command(6) show ?case by auto
next
  case (wait_parks \<sigma> b cmd nm h os out blk c w)
  from client_command_Blocks(1) [OF wait_parks(2-5)] wait_parks(6) show ?case by auto
qed simp_all

lemma sys_step_unauth:
  assumes "sys_step \<sigma> e \<sigma>'" and "ev_conn e = a" and "unauth_idle a \<sigma>"
    and "currentUser (conns \<sigma> a) = None" and "currentUser (conns \<sigma>' a) = None"
  shows "\<sigma>' = \<sigma>"
  using assms
proof (induction rule: sys_step.induct)
  case (command \<sigma> b cmd nm h os out c w)
  then have "c = conns \<sigma> b \<and> w = shared \<sigma>"
    by (intro client_command_frame(3) [OF command(2-5)]) (simp_all add: unauth_idle_def)
  then show ?case by simp
next
  case (data_command \<sigma> b cmd nm h r s w os)
  have "nm \<noteq> ''AUTH''" using data_command(5) by auto
  then have False using reaches_switch_auth [OF data_command(4)] data_command(7,9) by simp
  then show ?case ..
next
  case (exec_check \<sigma> b cmd h os)
  then show ?case using reaches_switch_auth [OF exec_check(4)] by simp
next
  case (wait_parks \<sigma> b cmd nm h os out blk c w)
  from client_command_Blocks(2) [OF wait_parks(2-5)] wait_parks(6,8) show ?case by simp
next
  case (data_parks \<sigma> b cmd nm h res w os)
  have "nm \<noteq> ''AUTH''" using data_parks(5) by auto
  then show ?case using reaches_switch_auth [OF data_parks(4)] data_parks(8,10) by simp
qed (auto simp: unauth_idle_def)

lemma unauth_idle_step:
  assumes "sys_step \<sigma> e \<sigma>'" and "unauth_idle a \<sigma>"
  shows "unauth_idle a \<sigma>'"
proof (cases "currentUser (conns \<sigma>' a) = None")
  case True
  then have n: "currentUser (conns \<sigma> a) = None" using sys_step_user [OF assms(1)] by blast
  show ?thesis
  proof (cases "ev_conn e = a")
    case True
    then show ?thesis using sys_step_unauth [OF assms(1) True assms(2) n] \<open>currentUser (conns \<sigma>' a) = None\<close> assms(2) by simp
  next
    case False
    from sys_step_other [OF assms(1) this] assms(2) show ?thesis by (simp add: unauth_idle_def tx_kept_def)
  qed
qed (auto simp: unauth_idle_def)

definition starting :: "sys \<Rightarrow> bool" where
  "starting \<sigma> \<longleftrightarrow> (\<forall>a. pcs \<sigma> a = Idle \<and> txs (db (shared \<sigma>)) a = zero_transaction)"

interpretation unauth: step_invariant starting sys_step "unauth_idle a" for a
proof unfold_locales
  show "unauth_idle a \<sigma>" if "starting \<sigma>" for \<sigma>
    using that by (simp add: starting_def unauth_idle_def zero_transaction_def)
  show "unauth_idle a \<sigma>'" if "unauth_idle a \<sigma>" "sys_step \<sigma> e \<sigma>'" for \<sigma> e \<sigma>'
    using that unauth_idle_step by blast
qed

section \<open>Transactions\<close>

text \<open>Connection \<open>a\<close> is inside MULTI with the queue \<open>q\<close>.\<close>

definition queueing :: "connid \<Rightarrow> bytes list list \<Rightarrow> sys \<Rightarrow> bool" where
  "queueing a q \<sigma> \<longleftrightarrow> pcs \<sigma> a = Idle \<and> currentUser (conns \<sigma> a) \<noteq> None \<and>
     tx_active (txs (db (shared \<sigma>)) a) \<and> tx_queued (txs (db (shared \<sigma>)) a) = q"

lemma queueing_other:
  "sys_step \<sigma> e \<sigma>' \<Longrightarrow> ev_conn e \<noteq> a \<Longrightarrow> queueing a q \<sigma> \<Longrightarrow> queueing a q \<sigma>'"
  using sys_step_other [of \<sigma> e \<sigma>' a] by (simp add: queueing_def tx_kept_def)

lemma queueing_own:
  assumes "sys_step \<sigma> e \<sigma>'" and "queueing (ev_conn e) q \<sigma>" and "\<not> tx_control (ev_name e)"
  shows "queueing (ev_conn e) (q @ [ev_cmd e]) \<sigma>' \<and> data (db (shared \<sigma>')) = data (db (shared \<sigma>)) \<and> aof (shared \<sigma>') = aof (shared \<sigma>)"
  using assms
proof (induction rule: sys_step.induct)
  case (command \<sigma> a cmd nm h os out c w)
  have u: "currentUser (conns \<sigma> a) \<noteq> None" and act: "tx_active (txs (db (shared \<sigma>)) a)"
    and q: "tx_queued (txs (db (shared \<sigma>)) a) = q" and i: "pcs \<sigma> a = Idle"
    using command(6) by (simp_all add: queueing_def)
  have nm: "\<not> tx_control nm" using command(3,7) by (simp add: ev_name_def)
  have "client_command os h a cmd (conns \<sigma> a) (shared \<sigma>) = Continues [(a, queued_reply)] (conns \<sigma> a)
      (on_tx a (\<lambda>tx. tx\<lparr>tx_queued := tx_queued tx @ [cmd]\<rparr>) (shared \<sigma>))"
    using u act nm by (auto simp: client_command_eq [OF command(2,3)])
  with command(5) have "c = conns \<sigma> a" "w = on_tx a (\<lambda>tx. tx\<lparr>tx_queued := tx_queued tx @ [cmd]\<rparr>) (shared \<sigma>)"
    by simp_all
  then show ?case using u act q i by (simp add: queueing_def)
next
  case (data_command \<sigma> a cmd nm h r s w os)
  have "tx_active (txs (db (shared \<sigma>)) a)" using data_command(7) by (simp add: queueing_def)
  moreover have "\<not> tx_control nm" using data_command(3,8) by (simp add: ev_name_def)
  ultimately have False using data_command(4) by (simp add: reaches_switch_def)
  then show ?case ..
next
  case (exec_check \<sigma> a cmd h os)
  then show ?case by (simp add: tx_control_def ev_name_def)
next
  case (exec_refused \<sigma> a cmd h os)
  then show ?case by (simp add: queueing_def)
next
  case (wait_parks \<sigma> a cmd nm h os out blk c w)
  have "tx_active (txs (db (shared \<sigma>)) a)" using wait_parks(6) by (simp add: queueing_def)
  with client_command_Blocks(5,6) [OF wait_parks(2-5)] have False by (simp add: reaches_switch_def tx_control_def)
  then show ?case ..
next
  case (data_parks \<sigma> a cmd nm h res w os)
  have "tx_active (txs (db (shared \<sigma>)) a)" using data_parks(8) by (simp add: queueing_def)
  moreover have "\<not> tx_control nm" using data_parks(3,9) by (simp add: ev_name_def)
  ultimately have False using data_parks(4) by (simp add: reaches_switch_def)
  then show ?case ..
qed (auto simp: queueing_def)

lemma queueing_run:
  assumes "run_of sys_step \<sigma> es \<sigma>'" and "queueing a q \<sigma>"
    and "\<And>e. e \<in> set es \<Longrightarrow> ev_conn e = a \<Longrightarrow> \<not> tx_control (ev_name e)"
  shows "queueing a (q @ map ev_cmd (filter (\<lambda>e. ev_conn e = a) es)) \<sigma>'"
  using assms
proof (induction arbitrary: q rule: run_of.induct)
  case (run_cons \<sigma> e \<sigma>1 es \<sigma>2)
  have step: "queueing a (if ev_conn e = a then q @ [ev_cmd e] else q) \<sigma>1"
    using queueing_own [OF run_cons.hyps(1), of q] queueing_other [OF run_cons.hyps(1), of a q] run_cons.prems by auto
  show ?case
    using run_cons.IH [OF step] run_cons.prems(2) by (auto split: if_splits)
qed simp

lemma unauth_run:
  assumes "run_of sys_step \<sigma> es \<sigma>'" and "unauth_idle a \<sigma>" and "currentUser (conns \<sigma>' a) = None"
  shows "run_of sys_step \<sigma> (filter (\<lambda>e. ev_conn e \<noteq> a) es) \<sigma>' \<and> currentUser (conns \<sigma> a) = None"
  using assms
proof (induction rule: run_of.induct)
  case (run_cons \<sigma> e \<sigma>1 es \<sigma>2)
  note IH = run_cons.IH [OF unauth_idle_step [OF run_cons.hyps(1) run_cons.prems(1)] run_cons.prems(2)]
  have n: "currentUser (conns \<sigma> a) = None" using IH sys_step_user [OF run_cons.hyps(1)] by blast
  show ?case
  proof (cases "ev_conn e = a")
    case True
    have "\<sigma>1 = \<sigma>"
      by (rule sys_step_unauth [OF run_cons.hyps(1) True run_cons.prems(1) n]) (rule IH [THEN conjunct2])
    then show ?thesis using True IH n by simp
  next
    case False
    then show ?thesis using IH n run_cons.hyps(1) by (simp add: run_of.run_cons)
  qed
qed simp

section \<open>An example\<close>

text \<open>A server with its default user and nothing stored; connection 2 is not authenticated.\<close>

definition example_user :: user where "example_user = \<lparr>u_name = ''default'', u_flags = [], u_passwords = [''pw'']\<rparr>"

definition example_world :: world where
  "example_world = \<lparr>db = newStore, srv = (newServer zero_config)\<lparr>srv_acl := [''default'' \<mapsto> example_user]\<rparr>,
     aof = Some \<lparr>aof_file = [], aof_fsync = ''always''\<rparr>\<rparr>"

definition example_os :: os where
  "example_os = \<lparr>os_write = WroteAll, os_sync = True, conn_order = sorted_list_of_set\<rparr>"

definition example_sys :: sys where
  "example_sys = \<lparr>conns = (\<lambda>a. \<lparr>sub = False, subscribed = {}, currentUser = (if a = 2 then None else Some example_user)\<rparr>),
     pcs = (\<lambda>_. Idle), shared = example_world\<rparr>"

lemma starting_example: "starting example_sys"
  by (simp add: starting_def example_sys_def example_world_def newStore_def)

text \<open>Connection 2 sends SET without having authenticated.\<close>

lemma example_unauth_step: "sys_step example_sys (Event 2 example_os host_example [''SET'', ''k'', ''v'']) example_sys"
proof -
  have "client_command example_os host_example 2 [''SET'', ''k'', ''v''] (conns example_sys 2) (shared example_sys) =
      Continues [(2, noauth_reply)] (conns example_sys 2) (shared example_sys)"
    by (simp add: client_command_def example_sys_def)
  moreover have "\<not> reaches_switch 2 ''SET'' cmd (conns example_sys 2) w" for cmd w
    by (simp add: reaches_switch_def example_sys_def)
  ultimately have "sys_step example_sys (Event 2 example_os host_example [''SET'', ''k'', ''v''])
      (example_sys\<lparr>conns := (conns example_sys)(2 := conns example_sys 2), shared := shared example_sys\<rparr>)"
    by (intro sys_step.command [where nm = "''SET''" and out = "[(2, noauth_reply)]"]) (simp_all add: example_sys_def)
  then show ?thesis by simp
qed

section \<open>Properties\<close>

text \<open>C7. No command runs before AUTH: in every interleaving of the clients of a server, a connection
  that has not authenticated has no effect at all. The run without its events is a run to the same state:
  same data, same subscriptions, same replicas and file, same state of every other connection.\<close>

theorem no_effect_before_auth:
  assumes "starting \<sigma>" and "run_of sys_step \<sigma> es \<sigma>'" and "currentUser (conns \<sigma>' a) = None"
  shows "run_of sys_step \<sigma> (filter (\<lambda>e. ev_conn e \<noteq> a) es) \<sigma>'"
  using unauth_run [OF assms(2) unauth.inv_init [OF assms(1)] assms(3)] by blast

theorem no_effect_before_auth_witness:
  "run_of sys_step example_sys [Event 2 example_os host_example [''SET'', ''k'', ''v'']] example_sys \<and>
   run_of sys_step example_sys [] example_sys"
proof -
  have run: "run_of sys_step example_sys [Event 2 example_os host_example [''SET'', ''k'', ''v'']] example_sys"
    using example_unauth_step by (simp add: run_of_Cons)
  have "currentUser (conns example_sys 2) = None" by (simp add: example_sys_def)
  from no_effect_before_auth [OF starting_example run this] run show ?thesis by simp
qed

text \<open>C17. MULTI queues: from the moment a connection is inside MULTI, and in every interleaving with other
  clients, each of its commands other than MULTI, EXEC, DISCARD and WATCH is appended to its queue, in the order
  sent, and nothing another client does changes the queue or ends the transaction.\<close>

theorem multi_queues_in_order:
  assumes "run_of sys_step \<sigma> es \<sigma>'" and "queueing a q \<sigma>"
    and "\<And>e. e \<in> set es \<Longrightarrow> ev_conn e = a \<Longrightarrow> \<not> tx_control (ev_name e)"
  shows "queueing a (q @ map ev_cmd (filter (\<lambda>e. ev_conn e = a) es)) \<sigma>'"
  using assms by (rule queueing_run)

text \<open>Connection 1 of the example inside MULTI.\<close>

definition example_multi :: sys where
  "example_multi = example_sys\<lparr>shared := on_tx 1 (\<lambda>tx. tx\<lparr>tx_active := True\<rparr>) example_world\<rparr>"

theorem multi_queues_in_order_witness:
  "\<exists>\<sigma>'. run_of sys_step example_multi [Event 1 example_os host_example [''PING'']] \<sigma>' \<and> queueing 1 [[''PING'']] \<sigma>'"
proof -
  let ?c = "conns example_multi 1" and ?w = "shared example_multi" and ?e = "Event 1 example_os host_example [''PING'']"
  let ?w' = "on_tx 1 (\<lambda>tx. tx\<lparr>tx_queued := tx_queued tx @ [[''PING'']]\<rparr>) ?w"
  have q: "queueing 1 [] example_multi"
    by (simp add: queueing_def example_multi_def example_sys_def example_world_def newStore_def zero_transaction_def on_tx_def)
  have "client_command example_os host_example 1 [''PING''] ?c ?w = Continues [(1, queued_reply)] ?c ?w'"
    by (simp add: client_command_def example_multi_def example_sys_def)
  moreover have "\<not> reaches_switch 1 ''PING'' cmd ?c ?w" for cmd
    by (simp add: reaches_switch_def example_multi_def tx_control_def)
  ultimately have "sys_step example_multi ?e (example_multi\<lparr>conns := (conns example_multi)(1 := ?c), shared := ?w'\<rparr>)"
    by (intro sys_step.command [where nm = "''PING''" and out = "[(1, queued_reply)]"])
      (simp_all add: example_multi_def example_sys_def)
  then obtain \<sigma>' where run: "run_of sys_step example_multi [?e] \<sigma>'" by (auto simp: run_of_Cons)
  have "\<not> tx_control (ev_name e)" if "e \<in> set [?e]" for e
    using that by (simp add: ev_name_def tx_control_def)
  from multi_queues_in_order [OF run q this] run show ?thesis by auto
qed

end
