(* ===== verification/Sessions.thy ===== *)
theory Sessions
  imports Client Rdb
begin

text \<open>
  Whole sessions: what the loop of a connection makes of everything its client sends, a replica that connects is attached and reads exactly the
  stream that follows, and what UNSUBSCRIBE does to a connection without a subscription.
\<close>

section \<open>The loop of a connection\<close>

lemma client_loop_ends: "\<exists>x. client_loop env i self r c w = Some x"
proof (induction "length r" arbitrary: i r c w rule: less_induct)
  case less
  show ?case
  proof (cases "ReadCommand r")
    case (Inl e)
    then show ?thesis by (simp add: client_loop.simps [of env i self r c w])
  next
    case (Inr p)
    obtain cmd r' where p: "p = (cmd, r')" by (cases p)
    then have "length r' < length r" using Inr ReadCommand_shorter by blast
    note IH = less.hyps [OF this]
    show ?thesis
    proof (cases "client_command (fst (env i)) (snd (env i)) self cmd c w")
      case (Continues out c' w')
      with IH [of "i + 1" c' w'] Inr p show ?thesis
        by (auto simp: client_loop.simps [of env i self r c w])
    qed (use Inr p in \<open>simp_all add: client_loop.simps [of env i self r c w]\<close>)
  qed
qed

text \<open>
  The commands of a session one after the other, each in the platform of its iteration, without the reader: what is
  written, the commands left over, and how it stopped, at the end of the list or in a command that blocks or panics.
\<close>

fun serve_commands :: "(nat \<Rightarrow> os \<times> host) \<Rightarrow> nat \<Rightarrow> connid \<Rightarrow> bytes list list \<Rightarrow> conn \<Rightarrow> world
    \<Rightarrow> wire \<times> bytes list list \<times> client_result" where
  "serve_commands env i self [] c w = ([], [], Continues [] c w)"
| "serve_commands env i self (cmd # cmds) c w =
     (case client_command (fst (env i)) (snd (env i)) self cmd c w of
        Continues out c' w' \<Rightarrow>
          (case serve_commands env (i + 1) self cmds c' w' of (out', rest, res) \<Rightarrow> (out @ out', rest, res))
      | res \<Rightarrow> ([], cmds, res))"

text \<open>The session of a client that sends these commands and then bytes that are no command.\<close>

definition session_result :: "connid \<Rightarrow> read_err \<Rightarrow> bytes \<Rightarrow> wire \<times> bytes list list \<times> client_result \<Rightarrow> session" where
  "session_result self e tail served =
     (case served of (out, rest, res) \<Rightarrow>
        (case res of
           Continues _ c w \<Rightarrow>
             Ended (out @ (case e of ProtocolError msg \<Rightarrow> [(self, ''-ERR '' @ ProtocolError_Error msg @ crlf)] | _ \<Rightarrow> []))
               (w\<lparr>srv := (srv w)\<lparr>srv_replicas := remove_replica self (srv_replicas (srv w))\<rparr>\<rparr>)
         | Blocks out' b c w \<Rightarrow> Waiting (out @ out') b (concat (map encodeCommand rest) @ tail) c w
         | Panics \<Rightarrow> Crashed out))"

lemma after_wire_result: "after_wire out (session_result self e tail (out', rest, res)) = session_result self e tail (out @ out', rest, res)"
  by (cases res) (simp_all add: session_result_def)

lemma client_loop_commands:
  assumes "ReadCommand tail = Inl e"
  shows "list_all command_in_limits cmds \<Longrightarrow>
     client_loop env i self (concat (map encodeCommand cmds) @ tail) c w =
     Some (session_result self e tail (serve_commands env i self cmds c w))"
proof (induction cmds arbitrary: i c w)
  case Nil
  show ?case
    using assms by (simp add: client_loop.simps [of env i self tail c w] client_end_def session_result_def)
next
  case (Cons cmd cmds)
  let ?r = "concat (map encodeCommand cmds) @ tail"
  have rd: "ReadCommand (concat (map encodeCommand (cmd # cmds)) @ tail) = Inr (cmd, ?r)"
    using resp.dec_enc [of cmd] Cons.prems by simp
  note loop = client_loop.simps [of env i self "concat (map encodeCommand (cmd # cmds)) @ tail" c w, unfolded rd]
  show ?case
  proof (cases "client_command (fst (env i)) (snd (env i)) self cmd c w")
    case (Continues out c' w')
    obtain out' rest res where s: "serve_commands env (i + 1) self cmds c' w' = (out', rest, res)" by (metis prod_cases3)
    from Cons.IH [of "i + 1" c' w'] Cons.prems s
    have "client_loop env (i + 1) self ?r c' w' = Some (session_result self e tail (out', rest, res))" by simp
    with Continues s show ?thesis unfolding loop by (simp add: after_wire_result)
  qed (unfold loop, simp_all add: session_result_def)
qed

section \<open>The handshake\<close>

text \<open>Several commands of one connection, none of which blocks or panics: what is written, and the state.\<close>

fun converse :: "os \<Rightarrow> host \<Rightarrow> connid \<Rightarrow> bytes list list \<Rightarrow> conn \<Rightarrow> world \<Rightarrow> (wire \<times> conn \<times> world) option" where
  "converse os h self [] c w = Some ([], c, w)"
| "converse os h self (cmd # cmds) c w =
     (case client_command os h self cmd c w of
        Continues out c' w' \<Rightarrow>
          (case converse os h self cmds c' w' of None \<Rightarrow> None | Some (out', c'', w'') \<Rightarrow> Some (out @ out', c'', w''))
      | _ \<Rightarrow> None)"

definition handshake_cmds :: "config \<Rightarrow> bytes list list" where
  "handshake_cmds cfg = [[''PING''], [''REPLCONF'', ''listening-port'', FormatInt (port cfg)],
     [''REPLCONF'', ''capa'', ''psync2''], [''PSYNC'', ''?'', ''-1'']]"

lemma handshake_messages_cmds: "handshake_messages cfg = map encodeCommand (handshake_cmds cfg)"
  by (simp add: handshake_messages_def handshake_cmds_def)

text \<open>The records of the RDB file that PSYNC sends: five auxiliary fields and no key.\<close>

definition empty_records :: "rdb_record list" where
  "empty_records = [Aux (Raw ''redis-ver'') (Raw ''7.2.0''), Aux (Raw ''redis-bits'') (Int8 64),
     Aux (Raw ''ctime'') (Int32 1706821741), Aux (Raw ''used-mem'') (Int32 1098928), Aux (Raw ''aof-base'') (Int8 0)]"

definition empty_checksum :: bytes where
  "empty_checksum = map char_of [0xF0, 0x6E, 0x3B, 0xFE, 0xC0, 0xFF, 0x5A, 0xA2 :: nat]"

definition emptyRDB :: bytes where "emptyRDB = rdb_file empty_records empty_checksum"

lemma hex_vals:
  "hex_val (CHR ''0'') = Some 0" "hex_val (CHR ''1'') = Some 1" "hex_val (CHR ''2'') = Some 2" "hex_val (CHR ''3'') = Some 3"
  "hex_val (CHR ''4'') = Some 4" "hex_val (CHR ''5'') = Some 5" "hex_val (CHR ''6'') = Some 6" "hex_val (CHR ''7'') = Some 7"
  "hex_val (CHR ''8'') = Some 8" "hex_val (CHR ''9'') = Some 9" "hex_val (CHR ''a'') = Some 10" "hex_val (CHR ''b'') = Some 11"
  "hex_val (CHR ''c'') = Some 12" "hex_val (CHR ''d'') = Some 13" "hex_val (CHR ''e'') = Some 14" "hex_val (CHR ''f'') = Some 15"
  by (simp_all add: hex_val_def)

lemma chars_eq: "map (of_char :: char \<Rightarrow> nat) xs = map of_char ys \<Longrightarrow> xs = ys"
  by (rule map_injective [of "of_char :: char \<Rightarrow> nat"]) (simp_all add: inj_def of_char_eq_iff)

lemma le_bytes_lits:
  "le_bytes (Suc 0) n = [char_of (n mod 256)]"
  "le_bytes 4 n = [char_of (n mod 256), char_of (n div 256 mod 256), char_of (n div 256 div 256 mod 256), char_of (n div 256 div 256 div 256 mod 256)]"
proof -
  have "4 = Suc (Suc (Suc (Suc 0)))" by simp
  then show "le_bytes 4 n = [char_of (n mod 256), char_of (n div 256 mod 256), char_of (n div 256 div 256 mod 256), char_of (n div 256 div 256 div 256 mod 256)]"
    by (simp only: le_bytes.simps)
qed simp

lemma emptyRDB_bytes:
  "map_option (map (of_char :: char \<Rightarrow> nat)) (hex_DecodeString emptyRDBHex) = Some (map of_char emptyRDB)"
  by (simp add: emptyRDBHex_def hex_vals emptyRDB_def empty_records_def empty_checksum_def rdb_file_def rdb_size_def le_bytes_lits)

lemma emptyRDB_decodes: "hex_DecodeString emptyRDBHex = Some emptyRDB"
  using emptyRDB_bytes chars_eq by (cases "hex_DecodeString emptyRDBHex") auto

lemma emptyRDB_length: "length emptyRDB = 88"
  by (simp add: emptyRDB_def empty_records_def empty_checksum_def rdb_file_def rdb_size_def le_bytes_lits)

lemma emptyRDB_loads: "Load put emptyRDB s = (None, s)"
proof -
  have "list_all record_ok empty_records" by (simp add: empty_records_def)
  then show ?thesis
    unfolding emptyRDB_def rdb_file_def Load_header load_loop_records load_loop_ends
    by (simp add: load_loop_records load_loop_ends) (simp add: empty_records_def)
qed

lemma upper_replication: "ToUpper uni ''REPLCONF'' = ''REPLCONF''" "ToUpper uni ''PSYNC'' = ''PSYNC''"
proof -
  have "is_ascii ''REPLCONF''" "is_ascii ''PSYNC''" "map upper_char ''REPLCONF'' = ''REPLCONF''" "map upper_char ''PSYNC'' = ''PSYNC''"
    by code_simp+
  then show "ToUpper uni ''REPLCONF'' = ''REPLCONF''" "ToUpper uni ''PSYNC'' = ''PSYNC''" by (simp_all only: ToUpper_ascii)
qed

lemma not_ACK: "\<not> EqualFold uni ''listening-port'' ''ACK''" "\<not> EqualFold uni ''capa'' ''ACK''"
proof -
  have a: "is_ascii ''listening-port''" "is_ascii ''capa''" "is_ascii ''ACK''" by code_simp+
  have "map upper_char ''listening-port'' \<noteq> map upper_char ''ACK''" "map upper_char ''capa'' \<noteq> map upper_char ''ACK''"
    by code_simp+
  with a show "\<not> EqualFold uni ''listening-port'' ''ACK''" "\<not> EqualFold uni ''capa'' ''ACK''"
    by (simp_all only: EqualFold_def simp_thms if_True)
qed

definition plain_client :: "connid \<Rightarrow> conn \<Rightarrow> world \<Rightarrow> bool" where
  "plain_client self c w \<longleftrightarrow> currentUser c \<noteq> None \<and> subscribed c = {} \<and> \<not> tx_active (txs (db w) self)"

lemma plain_client_command:
  assumes "plain_client self c w" and "cmd \<noteq> []" and "nm = ToUpper (uni_upper h) (cmd ! 0)"
  shows "client_command os h self cmd c w = client_switch os h self nm cmd c w"
proof -
  from assms(1) obtain u where "currentUser c = Some u" "subscribed c = {}" "\<not> tx_active (txs (db w) self)"
    by (auto simp: plain_client_def)
  then show ?thesis using assms(2) by (simp add: client_command_def Let_def assms(3))
qed

text \<open>What the master answers.\<close>

definition handshake_answers :: "world \<Rightarrow> bytes list" where
  "handshake_answers w = [''+PONG'' @ crlf, ok_reply, ok_reply,
     ''+FULLRESYNC '' @ replicationID (srv w) @ '' 0'' @ crlf, ''$88'' @ crlf, emptyRDB]"

lemma PING_run: "run_data h [''PING''] w = (Answer (''+PONG'' @ crlf) (db w), w)"
  by (simp add: run_data_def outcome_store_def handleCommands_def Let_def command_table_def)

lemma Itoa_lits: "Itoa 0 = ''0''" "Itoa 88 = ''88''"
  by code_simp+

lemma handshake_master:
  assumes "plain_client self c w"
  shows "converse os h self (handshake_cmds cfg) c w = Some (map (\<lambda>m. (self, m)) (handshake_answers w), c,
    w\<lparr>srv := (srv w)\<lparr>srv_replicas := add_replica self (srv_replicas (srv w))\<rparr>\<rparr>)"
proof -
  have ping: "client_command os h self [''PING''] c w = Continues [(self, ''+PONG'' @ crlf)] c w"
    unfolding plain_client_command [OF assms list.distinct(2) refl]
    by (simp add: client_switch_def client_default_def PING_run after_command_def writeCommands_def)
  have rc: "client_command os h self [''REPLCONF'', x, y] c w = Continues [(self, ok_reply)] c w"
    if "\<not> EqualFold (uni_fold h) x ''ACK''" for x y
    unfolding plain_client_command [OF assms list.distinct(2) refl]
    using that by (simp add: upper_replication client_switch_def client_REPLCONF_def)
  have ps: "client_command os h self [''PSYNC'', ''?'', ''-1''] c w = Continues
      [(self, ''+FULLRESYNC '' @ replicationID (srv w) @ '' 0'' @ crlf), (self, ''$88'' @ crlf), (self, emptyRDB)] c
      (w\<lparr>srv := (srv w)\<lparr>srv_replicas := add_replica self (srv_replicas (srv w))\<rparr>\<rparr>)"
    unfolding plain_client_command [OF assms list.distinct(2) refl]
    by (simp add: upper_replication client_switch_def client_PSYNC_def emptyRDB_decodes emptyRDB_length Itoa_lits)
  show ?thesis
    by (simp add: handshake_cmds_def ping rc ps not_ACK handshake_answers_def)
qed

lemma ReadBytes_line: "LF \<notin> set xs \<Longrightarrow> ReadBytes LF (xs @ crlf @ r) = Some (xs @ crlf, r)"
  using ReadBytes_delim [of LF "xs @ [CR]" r] by (simp add: crlf_def)

lemma handshake_line:
  "LF \<notin> set xs \<Longrightarrow> handshake (m # ms) (xs @ crlf @ r) = (case handshake ms r of (out, res) \<Rightarrow> (m # out, res))"
  by (simp add: ReadBytes_line)

lemma rdb_length_line: "Atoi (TrimSpace (''88'' @ crlf)) = (88, NoErr)"
proof -
  have "TrimSpace (''88'' @ crlf) = ''88''"
    by (simp add: TrimSpace_def crlf_def CR_def LF_def byte_in_def)
  moreover have "FormatInt 88 = ''88''"
    by (rule chars_eq) (simp add: FormatInt_def FormatNat.simps digit_char_def)
  moreover have "ParseInt (FormatInt 88) = (88, NoErr)"
    by (rule ParseInt_FormatInt) (simp add: is_int64_def max_int64_def min_int64_def)
  ultimately show ?thesis by simp
qed

lemma handshake_replica:
  assumes "LF \<notin> set (replicationID (srv w))"
  shows "startReplication uni handle cfg (concat (handshake_answers w) @ rest) s =
    go_bind (repl_loop uni handle rest 0 s) (\<lambda>(acks, o', s'). Ret (handshake_messages cfg @ acks, s'))"
proof -
  let ?r4 = "(''$88'' @ crlf) @ emptyRDB @ rest"
  let ?full = "''+FULLRESYNC '' @ replicationID (srv w) @ '' 0''"
  have noLF: "LF \<notin> set ''+PONG''" "LF \<notin> set ''+OK''" "LF \<notin> set ?full" "LF \<notin> set ''$88''"
    using assms by (auto simp: LF_def)
  have r: "concat (handshake_answers w) @ rest =
      ''+PONG'' @ crlf @ ''+OK'' @ crlf @ ''+OK'' @ crlf @ ?full @ crlf @ ?r4"
    by (simp add: handshake_answers_def ok_reply_def)
  obtain m1 m2 m3 m4 where m: "handshake_messages cfg = [m1, m2, m3, m4]" by (simp add: handshake_messages_def)
  have "handshake [m1, m2, m3, m4] (concat (handshake_answers w) @ rest) = ([m1, m2, m3, m4], Some ?r4)"
    by (simp only: r handshake_line [OF noLF(1)] handshake_line [OF noLF(2)] handshake_line [OF noLF(3)]
        handshake.simps(1) prod.case)
  moreover have "ReadBytes LF ?r4 = Some (''$88'' @ crlf, emptyRDB @ rest)"
    using ReadBytes_line [OF noLF(4), of "emptyRDB @ rest"] by simp
  moreover have "Atoi (TrimSpace (drop 1 (''$88'' @ crlf))) = (88, NoErr)" using rdb_length_line by simp
  ultimately show ?thesis
    unfolding startReplication_def m by (simp only: prod.case option.case emptyRDB_length)
      (simp add: emptyRDB_length maxAlloc_def)
qed

section \<open>Properties\<close>

text \<open>C18. A session, from the bytes to the replies. On every finite input the loop of a connection comes to a result; it
  does not spin. When the input is the encoding of commands within the limits, followed by bytes that are no command (the
  end of the input, a torn or a malformed frame), the commands are served in order, each once, in the platform of
  its iteration. If each of them is answered, the session ends: it has written the replies in order, then an error line
  if the bytes were malformed, and the connection is no longer among the replicas. If one of them blocks, the session waits in it,
  for ever when nothing wakes it, with the commands after it unread; if one panics, the process ends after the replies before it.\<close>

theorem session_ends:
  assumes "list_all command_in_limits cmds" and "ReadCommand tail = Inl e"
    and "served = serve_commands env 0 self cmds (open_conn w) (on_tx self (\<lambda>_. zero_transaction) w)"
  shows "(\<exists>x. handleClient env self r w = Some x) \<and>
    handleClient env self (concat (map encodeCommand cmds) @ tail) w = Some (session_result self e tail served)"
  unfolding handleClient_def assms(3) using client_loop_ends client_loop_commands [OF assms(2,1)] by blast

text \<open>A client that pings and then sends a bad frame, and one that blocks before its second command.\<close>

theorem session_ends_witness:
  "\<exists>w' b w''.
     handleClient (\<lambda>i. (plain_os, host_example)) 7 (encodeCommand [''PING''] @ ''*x'' @ crlf)
       \<lparr>db = newStore, srv = newServer zero_config, aof = None\<rparr> =
       Some (Ended [(7, ''+PONG'' @ crlf), (7, ''-ERR Protocol error: invalid multibulk length'' @ crlf)] w') \<and>
     handleClient (\<lambda>i. (plain_os, host_example)) 7 (encodeCommand [''BLPOP'', ''k'', ''0''] @ encodeCommand [''PING''])
       \<lparr>db = newStore, srv = newServer zero_config, aof = None\<rparr> =
       Some (Waiting [] b (encodeCommand [''PING'']) (open_conn \<lparr>db = newStore, srv = newServer zero_config, aof = None\<rparr>) w'')"
proof -
  let ?w = "\<lparr>db = newStore, srv = newServer zero_config, aof = None\<rparr>" and ?env = "\<lambda>i :: nat. (plain_os, host_example)"
  let ?v = "on_tx 7 (\<lambda>_. zero_transaction) ?w"
  have p: "plain_client 7 (open_conn ?w) ?v"
    by (simp add: plain_client_def on_tx_def open_conn_def newServer_def newAcl_def defaultIfNoPass_def zero_transaction_def)
  have up: "ToUpper (uni_upper host_example) ''BLPOP'' = ''BLPOP''" by code_simp
  have lt: "\<not> f64_lt f64_one f64_zero" by code_simp
  have ping: "client_command plain_os host_example 7 [''PING''] (open_conn ?w) ?v = Continues [(7, ''+PONG'' @ crlf)] (open_conn ?w) ?v"
    unfolding plain_client_command [OF p list.distinct(2) refl]
    by (simp add: client_switch_def client_default_def PING_run after_command_def writeCommands_def)
  have pf: "parse_float host_example x = (f64_one, False)" for x by (simp add: host_example_def)
  have "e_list (entry_at (db ?v) ''k'') = []" by (simp add: on_tx_def newStore_def entry_at_def zero_entry_def)
  then obtain ch s' where "BLpop_enter [''k''] (db ?v) = Parked ch s'" by (simp add: BLpop_enter_def Let_def)
  then have "cmd_BLPOP host_example [''BLPOP'', ''k'', ''0''] (db ?v) = ParkPop [''k''] ch (blpop_timeout host_example f64_one) s'"
    by (simp add: cmd_BLPOP_def pf lt)
  then obtain w1 where run: "run_data host_example [''BLPOP'', ''k'', ''0''] ?v =
      (ParkPop [''k''] ch (blpop_timeout host_example f64_one) s', w1)"
    by (simp add: run_data_def handleCommands_def up command_table_def)
  obtain b w'' where pop: "client_command plain_os host_example 7 [''BLPOP'', ''k'', ''0''] (open_conn ?w) ?v =
      Blocks [] b (open_conn ?w) w''"
    unfolding plain_client_command [OF p list.distinct(2) refl]
    by (simp add: up client_switch_def client_default_def run)
  have bad: "ReadCommand (''*x'' @ crlf) = Inl (ProtocolError ''invalid multibulk length'')" by code_simp
  have eof: "ReadCommand [] = Inl EOF" by code_simp
  have lim: "list_all command_in_limits [[''PING'']]" "list_all command_in_limits [[''BLPOP'', ''k'', ''0''], [''PING'']]"
    by (simp_all add: command_in_limits_def maxArrayLen_def maxBulkLength_def)
  show ?thesis
    using session_ends [OF lim(1) bad refl, where env = ?env and self = 7 and w = ?w]
      session_ends [OF lim(2) eof refl, where env = ?env and self = 7 and w = ?w] ping pop
    by (simp add: session_result_def ProtocolError_Error_def)
qed

text \<open>C19. The handshake of a replica: a master that accepts its commands answers PING, REPLCONF, REPLCONF and
  PSYNC so that the replica gets through its handshake, skips exactly the RDB payload, and applies the
  stream that follows from its first byte; the master has attached the connection at the end of its replicas
  with nothing acknowledged. The payload is a valid RDB file without any key.\<close>

theorem handshake_attaches:
  assumes "plain_client self c w" and "LF \<notin> set (replicationID (srv w))"
  shows "\<exists>out w'. converse os h self (handshake_cmds cfg) c w = Some (out, c, w') \<and>
    replicas (srv_replicas (srv w')) = replicas (srv_replicas (srv w)) @ [\<lparr>r_conn = self, accOffset = 0\<rparr>] \<and>
    handshake_messages cfg = map encodeCommand (handshake_cmds cfg) \<and>
    startReplication uni handle cfg (stream_to self out @ rest) s =
      go_bind (repl_loop uni handle rest 0 s) (\<lambda>(acks, o', s'). Ret (handshake_messages cfg @ acks, s')) \<and>
    Load put emptyRDB s = (None, s)"
proof -
  have "stream_to self (map (\<lambda>m. (self, m)) (handshake_answers w)) = concat (handshake_answers w)"
    by (simp add: stream_to_def handshake_answers_def)
  then show ?thesis
    using handshake_master [OF assms(1), of os h cfg] handshake_replica [OF assms(2), of uni handle cfg rest s]
    by (simp add: handshake_messages_cmds emptyRDB_loads add_replica_def)
qed

theorem handshake_attaches_witness:
  "startReplication (\<lambda>_ _. False) (\<lambda>cmd n. Ret (Suc n)) zero_config
     (concat (handshake_answers \<lparr>db = newStore, srv = newServer zero_config, aof = None\<rparr>)) 0 =
   Ret (handshake_messages zero_config, 0)"
proof -
  let ?w = "\<lparr>db = newStore, srv = newServer zero_config, aof = None\<rparr>" and ?h = "\<lambda>cmd n. Ret (Suc n)"
  have p: "plain_client 7 (open_conn ?w) ?w"
    by (simp add: plain_client_def open_conn_def newServer_def newAcl_def defaultIfNoPass_def newStore_def zero_transaction_def)
  have l: "LF \<notin> set (replicationID (srv ?w))" by (simp add: newServer_def LF_def)
  have end': "repl_loop (\<lambda>_ _. False) ?h [] 0 0 = Ret ([], 0, 0)"
    by (simp add: repl_loop.simps [of _ _ "[]"])
  from handshake_attaches [OF p l, of plain_os host_example zero_config "\<lambda>_ _. False" ?h "[]" 0 "\<lambda>_ _ _ n. n"]
  obtain out w' where c: "converse plain_os host_example 7 (handshake_cmds zero_config) (open_conn ?w) ?w = Some (out, open_conn ?w, w')"
    and s: "startReplication (\<lambda>_ _. False) ?h zero_config (stream_to 7 out) 0 = Ret (handshake_messages zero_config, 0)"
    by (auto simp: end')
  have "out = map (\<lambda>m. (7, m)) (handshake_answers ?w)"
    using c handshake_master [OF p, of plain_os host_example zero_config] by simp
  then have "stream_to 7 out = concat (handshake_answers ?w)" by (simp add: stream_to_def handshake_answers_def)
  with s show ?thesis by simp
qed

text \<open>Defect: UNSUBSCRIBE on a connection that never subscribed writes through a nil pointer, so any client
  that is let in can end the process.\<close>

theorem unsubscribe_panics:
  assumes "plain_client self c w" and "\<not> sub c"
  shows "client_command os h self [''UNSUBSCRIBE'', ch] c w = Panics"
proof -
  have nm: "ToUpper uni ''UNSUBSCRIBE'' = ''UNSUBSCRIBE''" for uni
  proof -
    have "is_ascii ''UNSUBSCRIBE''" "map upper_char ''UNSUBSCRIBE'' = ''UNSUBSCRIBE''" by code_simp+
    then show ?thesis by (simp only: ToUpper_ascii)
  qed
  show ?thesis
    unfolding plain_client_command [OF assms(1) list.distinct(2) refl]
    using assms(2) by (simp add: nm client_switch_def client_UNSUBSCRIBE_def)
qed

theorem unsubscribe_panics_witness:
  "client_command plain_os host_example 1 [''UNSUBSCRIBE'', ''x'']
     \<lparr>sub = False, subscribed = {}, currentUser = Some \<lparr>u_name = ''default'', u_flags = [''nopass''], u_passwords = []\<rparr>\<rparr>
     \<lparr>db = newStore, srv = newServer zero_config, aof = None\<rparr> = Panics"
  by (rule unsubscribe_panics) (simp_all add: plain_client_def newStore_def zero_transaction_def)

end
