(* ===== verification/Transactions.thy ===== *)
theory Transactions
  imports ClientProps Sessions
begin

text \<open>
  EXEC: it runs the queue as the commands would have run one by one, aborts when a watched key was
  written, and where the two steps of its check leave a window.
\<close>

section \<open>EXEC runs the queue\<close>

text \<open>
  The specification: the same commands sent one by one, outside a transaction, each through the checks and the
  switch of the loop. Two states agree when a data command cannot tell them apart: everything but the replicas and the
  append-only file.
\<close>

fun direct :: "os \<Rightarrow> host \<Rightarrow> connid \<Rightarrow> bytes list list \<Rightarrow> conn \<Rightarrow> world \<Rightarrow> (bytes list \<times> world) option" where
  "direct os h self [] c w = Some ([], w)"
| "direct os h self (cmd # cmds) c w =
     (case client_command os h self cmd c w of
        Continues ((b, r) # sent) c' w' \<Rightarrow>
          (case direct os h self cmds c' w' of None \<Rightarrow> None | Some (rs, w'') \<Rightarrow> Some (r # rs, w''))
      | _ \<Rightarrow> None)"

definition same_data :: "world \<Rightarrow> world \<Rightarrow> bool" where
  "same_data w v \<longleftrightarrow> db w = db v \<and> srv_acl (srv w) = srv_acl (srv v) \<and> srv_cfg (srv w) = srv_cfg (srv v) \<and>
     replicationID (srv w) = replicationID (srv v) \<and> srv_pubsub (srv w) = srv_pubsub (srv v)"

lemma same_data_run:
  assumes "same_data w v" and "run_data h cmd v = (out, v')"
  obtains w' where "run_data h cmd w = (out, w')" and "same_data w' v'" and "aof w' = aof w"
    and "srv_replicas (srv w') = srv_replicas (srv w)"
proof -
  obtain w' where w': "run_data h cmd w = (out, w')" "same_data w' v'"
    using assms by (auto simp: run_data_def same_data_def split: prod.splits)
  then show ?thesis using run_data_steps(2,3) that by metis
qed

lemma after_command_same: "after_command os nm cmd v = (sent, v') \<Longrightarrow> same_data w v \<Longrightarrow> same_data w v'"
  by (auto simp: after_command_def same_data_def split: if_splits prod.splits)

lemma client_default_Continues:
  assumes "client_default os h self nm cmd c v = Continues out c' v'"
  obtains r s v1 sent where "run_data h cmd v = (Answer r s, v1)" and "after_command os nm cmd v1 = (sent, v')"
    and "out = (self, r) # sent" and "c' = c"
  using assms by (auto simp: client_default_def split: prod.splits outcome.splits)

text \<open>A queue of commands that the switch leaves to \<open>handleCommands\<close>.\<close>

definition data_queue :: "host \<Rightarrow> bytes list list \<Rightarrow> bool" where
  "data_queue h cmds \<longleftrightarrow> list_all (\<lambda>cmd. cmd \<noteq> [] \<and> is_data (ToUpper (uni_upper h) (cmd ! 0))) cmds"

lemma data_command_default:
  assumes "cmd \<noteq> []" and "is_data (ToUpper (uni_upper h) (cmd ! 0))" and "plain_client self c w"
  shows "client_command os h self cmd c w = client_default os h self (ToUpper (uni_upper h) (cmd ! 0)) cmd c w"
  unfolding plain_client_command [OF assms(3,1) refl] using assms(2) by (simp add: client_switch_def is_data_def)

lemma exec_queued_direct:
  assumes "same_data w v" and "data_queue h cmds" and "plain_client self c v" and "direct os h self cmds c v = Some (rs, v')"
  shows "\<exists>w'. exec_queued h self cmds w = Ret (map (\<lambda>r. (self, r)) rs, None, w') \<and> same_data w' v' \<and>
    aof w' = aof w \<and> srv_replicas (srv w') = srv_replicas (srv w)"
  using assms
proof (induction cmds arbitrary: w v rs)
  case (Cons cmd cmds)
  let ?nm = "ToUpper (uni_upper h) (cmd ! 0)"
  have q: "cmd \<noteq> []" "is_data ?nm" "data_queue h cmds" using Cons.prems(2) by (simp_all add: data_queue_def)
  from Cons.prems(4) data_command_default [OF q(1,2) Cons.prems(3)] obtain b r sent c1 v1 rs1 where
    d: "client_default os h self ?nm cmd c v = Continues ((b, r) # sent) c1 v1"
    and rest: "direct os h self cmds c1 v1 = Some (rs1, v')" and rs: "rs = r # rs1"
    by (auto split: client_result.splits list.splits option.splits prod.splits)
  from client_default_Continues [OF d] obtain r' s v0 sent' where
    v0: "run_data h cmd v = (Answer r' s, v0)" and a: "after_command os ?nm cmd v0 = (sent', v1)"
    and o: "(b, r) # sent = (self, r') # sent'" and c1: "c1 = c" by metis
  have "db v1 = db v0" using a by (auto simp: after_command_def split: if_splits prod.splits)
  with keyspace_step_frame [OF run_data_steps(1) [OF v0]] Cons.prems(3) have plain: "plain_client self c v1"
    by (simp add: plain_client_def tx_frame_def)
  from same_data_run [OF Cons.prems(1) v0] obtain w0 where
    w0: "run_data h cmd w = (Answer r' s, w0)" "same_data w0 v0" "aof w0 = aof w" "srv_replicas (srv w0) = srv_replicas (srv w)"
    by metis
  from Cons.IH [OF after_command_same [OF a w0(2)] q(3) plain] rest c1 obtain w' where
    "exec_queued h self cmds w0 = Ret (map (\<lambda>r. (self, r)) rs1, None, w')" "same_data w' v'"
    "aof w' = aof w0" "srv_replicas (srv w') = srv_replicas (srv w0)" by metis
  then show ?case using w0 o by (simp add: rs)
qed simp

text \<open>A command that the switch handles itself is unknown to the loop of EXEC.\<close>

lemma exec_control_unknown:
  assumes "cmd \<noteq> []" and "\<not> is_data (ToUpper (uni_upper h) (cmd ! 0))"
  shows "exec_queued h self [cmd] w = Ret ([(self, unknown_command (cmd ! 0))], None, w)"
proof -
  let ?nm = "ToUpper (uni_upper h) (cmd ! 0)"
  let ?control = "[''MULTI'', ''EXEC'', ''DISCARD'', ''WATCH'', ''UNWATCH'', ''PSYNC'', ''REPLCONF'', ''WAIT'',
      ''SUBSCRIBE'', ''PUBLISH'', ''UNSUBSCRIBE'', ''AUTH'']"
  have mem: "?nm \<in> set ?control" using assms(2) unfolding is_data_def by (simp only: not_not set_simps)
  have "map_of (command_table h cfg replid) ?nm = None \<and> ?nm \<noteq> ''ACL''" for cfg replid
  proof -
    have "list_all (\<lambda>nm. map_of (command_table h cfg replid) nm = None \<and> nm \<noteq> ''ACL'') ?control"
      by (simp add: command_table_def)
    then show ?thesis unfolding list_all_iff by (rule bspec [OF _ mem])
  qed
  then have "run_data h cmd w = (Answer (unknown_command (cmd ! 0)) (db w), w)"
    using assms(1) by (simp add: run_data_def handleCommands_def outcome_store_def)
  then show ?thesis by simp
qed

lemma tx_queued_Unwatch: "tx_queued (txs (Unwatch a s) a) = tx_queued (txs s a)"
  by (simp add: Unwatch_def unwatch_fold_txs)

lemma direct_length: "direct os h a cmds c w = Some (rs, v) \<Longrightarrow> length rs = length cmds"
  by (induction cmds arbitrary: c w rs)
    (auto split: client_result.splits list.splits option.splits prod.splits)

lemma same_data_refl: "same_data w w"
  by (simp add: same_data_def)

section \<open>EXEC aborts\<close>

lemma client_EXEC_dirty:
  assumes "tx_active (txs (db w) a)" and "tx_dirty (txs (db w) a)"
  shows "\<exists>w'. client_EXEC h a c w = Continues [(a, null_array)] c w' \<and> data (db w') = data (db w)"
  using assms by (simp add: client_EXEC_def CheckDirty_def Let_def)

lemma dirty_run:
  assumes "run_of sys_step \<sigma> es \<sigma>'" and "\<And>e. e \<in> set es \<Longrightarrow> ev_conn e \<noteq> a"
    and "tx_dirty (txs (db (shared \<sigma>)) a)" and "tx_active (txs (db (shared \<sigma>)) a)"
  shows "tx_dirty (txs (db (shared \<sigma>')) a) \<and> tx_active (txs (db (shared \<sigma>')) a)"
  using assms
proof (induction rule: run_of.induct)
  case (run_cons \<sigma> e \<sigma>1 es \<sigma>2)
  have "ev_conn e \<noteq> a" using run_cons.prems(1) by simp
  from sys_step_other [OF run_cons.hyps(1) this] run_cons.prems show ?case
    by (intro run_cons.IH) (auto simp: tx_kept_def)
qed simp

text \<open>A SET without options, run by a connection that may run it.\<close>

lemma SET_step:
  assumes "sys_step \<sigma> (Event b os h [''SET'', k, v]) \<sigma>'" and "pcs \<sigma> b = Idle"
    and "reaches_switch b ''SET'' [''SET'', k, v] (conns \<sigma> b) (shared \<sigma>)"
  shows "db (shared \<sigma>') = Set k v zero_time (db (shared \<sigma>)) \<and> conns \<sigma>' = conns \<sigma> \<and> pcs \<sigma>' = (pcs \<sigma>)(b := Propagating [''SET'', k, v])"
  using assms(1)
proof (cases rule: sys_step.cases)
  case command
  then show ?thesis using assms(3) by (simp add: is_data_def)
next
  case data_command
  then obtain r s w where "run_data h [''SET'', k, v] (shared \<sigma>) = (Answer r s, w)"
    and s': "\<sigma>' = \<sigma>\<lparr>pcs := (pcs \<sigma>)(b := if writeCommands ''SET'' then Propagating [''SET'', k, v] else Idle), shared := w\<rparr>"
    by auto
  then have "db w = Set k v zero_time (db (shared \<sigma>))" by (auto simp: SET_run)
  moreover have "writeCommands ''SET''" by (simp add: writeCommands_def)
  ultimately show ?thesis by (simp add: s')
next
  case exec_check
  then show ?thesis by simp
next
  case exec_refused
  then show ?thesis by simp
next
  case wait_parks
  then show ?thesis using assms(3) by (simp add: is_data_def)
next
  case (data_parks nm res w)
  then show ?thesis by (auto simp: SET_run)
qed (use assms(2) in auto)

lemma Set_marks:
  "a \<in> set (slice_at (watchers s) k) \<Longrightarrow> tx_dirty (txs (Set k v t s) a)"
  "tx_active (txs (Set k v t s) a) = tx_active (txs s a)" "watchers (Set k v t s) = watchers s"
  by (simp_all add: Set_def Let_def)

lemma SET_stepI:
  assumes "pcs \<sigma> b = Idle" and "reaches_switch b ''SET'' [''SET'', k, v] (conns \<sigma> b) (shared \<sigma>)"
  shows "sys_step \<sigma> (Event b os h [''SET'', k, v]) (\<sigma>\<lparr>pcs := (pcs \<sigma>)(b := Propagating [''SET'', k, v]),
      shared := (shared \<sigma>)\<lparr>db := Set k v zero_time (db (shared \<sigma>))\<rparr>\<rparr>)"
proof -
  have "sys_step \<sigma> (Event b os h [''SET'', k, v])
      (\<sigma>\<lparr>pcs := (pcs \<sigma>)(b := if writeCommands ''SET'' then Propagating [''SET'', k, v] else Idle),
         shared := (shared \<sigma>)\<lparr>db := Set k v zero_time (db (shared \<sigma>))\<rparr>\<rparr>)"
    by (rule sys_step.data_command [where nm = "''SET''", OF assms(1) _ _ assms(2) _ SET_run])
      (simp_all add: is_data_def)
  then show ?thesis by (simp add: writeCommands_def)
qed

section \<open>Properties\<close>

text \<open>C3. EXEC refines direct execution of data commands. A connection that is let in and has no subscription has queued
  commands that the switch of the loop leaves to \<open>handleCommands\<close>, and no watched key was written. If sending these
  commands one by one outside a transaction would give the replies \<open>rs\<close>, then EXEC writes one array with exactly those replies
  and leaves the same keyspace and the same users. It does not send anything to the replicas and does not touch
  the append-only file, which direct execution would. The commands that the switch handles itself (PUBLISH, SUBSCRIBE,
  UNSUBSCRIBE, UNWATCH, AUTH, WAIT, REPLCONF, PSYNC) are queued too but not covered: EXEC does not know them
  (\<open>exec_control_unknown\<close>).\<close>

theorem exec_refines_direct:
  assumes "tx_active (txs (db w) a)" and "\<not> CheckDirty a (db w)" and "currentUser c \<noteq> None" and "subscribed c = {}"
    and "data_queue h (tx_queued (txs (db w) a))"
    and "direct os h a (tx_queued (txs (db w) a)) c
           (on_tx a (\<lambda>_. zero_transaction) (w\<lparr>db := Unwatch a (db w)\<rparr>)) = Some (rs, v)"
  shows "\<exists>w'. client_EXEC h a c w = Continues ((a, array_header (length rs)) # map (\<lambda>r. (a, r)) rs) c w' \<and>
    db w' = db v \<and> srv_acl (srv w') = srv_acl (srv v) \<and>
    srv_replicas (srv w') = srv_replicas (srv w) \<and> aof w' = aof w"
proof -
  let ?w = "on_tx a (\<lambda>_. zero_transaction) (w\<lparr>db := Unwatch a (db w)\<rparr>)"
  have "plain_client a c ?w" using assms(3,4) by (simp add: plain_client_def zero_transaction_def)
  from exec_queued_direct [OF same_data_refl assms(5) this assms(6)] obtain w' where
    run: "exec_queued h a (tx_queued (txs (db w) a)) ?w = Ret (map (\<lambda>r. (a, r)) rs, None, w')"
    and w': "same_data w' v" "aof w' = aof w" "srv_replicas (srv w') = srv_replicas (srv w)" by auto
  have "length rs = length (tx_queued (txs (db w) a))"
    using direct_length [OF assms(6)] .
  with run w' assms(1,2) show ?thesis
    by (simp add: client_EXEC_def Let_def tx_queued_Unwatch same_data_def)
qed

text \<open>A transaction of connection 3 with one SET in its queue.\<close>

definition example_exec :: world where
  "example_exec = on_tx 3 (\<lambda>tx. tx\<lparr>tx_active := True, tx_queued := [[''SET'', ''k'', ''v'']]\<rparr>) example_world"

theorem exec_refines_direct_witness:
  "\<exists>w'. client_EXEC host_example 3 (conns example_sys 3) example_exec =
      Continues [(3, array_header 1), (3, ok_reply)] (conns example_sys 3) w' \<and>
    Get 0 ''k'' (db w') = (''v'', True) \<and> aof w' = aof example_exec"
proof -
  let ?c = "conns example_sys 3"
  let ?w = "on_tx 3 (\<lambda>_. zero_transaction) (example_exec\<lparr>db := Unwatch 3 (db example_exec)\<rparr>)"
  have q: "tx_queued (txs (db example_exec) 3) = [[''SET'', ''k'', ''v'']]" "tx_active (txs (db example_exec) 3)"
    "\<not> CheckDirty 3 (db example_exec)"
    by (simp_all add: example_exec_def example_world_def CheckDirty_def newStore_def zero_transaction_def)
  have c: "currentUser ?c \<noteq> None" "subscribed ?c = {}" by (simp_all add: example_sys_def)
  have dq: "data_queue host_example (tx_queued (txs (db example_exec) 3))" by (simp add: q data_queue_def is_data_def)
  have pl: "plain_client 3 ?c ?w" using c by (simp add: plain_client_def zero_transaction_def)
  have cd: "client_command example_os host_example 3 [''SET'', ''k'', ''v''] ?c ?w =
      client_default example_os host_example 3 ''SET'' [''SET'', ''k'', ''v''] ?c ?w"
    using data_command_default [OF _ _ pl, of "[''SET'', ''k'', ''v'']"] by (simp add: is_data_def)
  obtain v where d: "direct example_os host_example 3 (tx_queued (txs (db example_exec) 3)) ?c ?w = Some ([ok_reply], v)"
    and v: "db v = Set ''k'' ''v'' zero_time (db ?w)"
    by (simp add: q cd client_default_def SET_run after_command_def propagate_def Let_def writeCommands_def)
  from exec_refines_direct [OF q(2,3) c dq d] v show ?thesis
    by (auto simp: Get_def Set_def Let_def zero_entry_def IsZero_def)
qed

text \<open>C16. A write to a watched key aborts the transaction: when a connection in MULTI is registered for a
  key and another client's SET of that key runs, then whatever the other clients do afterwards, its EXEC answers
  with the null array and changes no data.\<close>

theorem watched_write_aborts:
  assumes "a \<in> set (slice_at (watchers (db (shared \<sigma>))) k)" and "tx_active (txs (db (shared \<sigma>)) a)"
    and "pcs \<sigma> b = Idle" and "reaches_switch b ''SET'' [''SET'', k, v] (conns \<sigma> b) (shared \<sigma>)"
    and "sys_step \<sigma> (Event b os h [''SET'', k, v]) \<sigma>1"
    and "run_of sys_step \<sigma>1 es \<sigma>2" and "\<And>e. e \<in> set es \<Longrightarrow> ev_conn e \<noteq> a"
  shows "\<exists>w'. client_EXEC h' a c (shared \<sigma>2) = Continues [(a, null_array)] c w' \<and>
    data (db w') = data (db (shared \<sigma>2))"
proof -
  have "db (shared \<sigma>1) = Set k v zero_time (db (shared \<sigma>))" using SET_step [OF assms(5,3,4)] by blast
  then have "tx_dirty (txs (db (shared \<sigma>1)) a)" "tx_active (txs (db (shared \<sigma>1)) a)"
    using assms(1,2) Set_marks by simp_all
  from dirty_run [OF assms(6,7) this] show ?thesis by (intro client_EXEC_dirty) simp_all
qed

text \<open>Connection 3 of the example watches \<open>k\<close> and is in MULTI.\<close>

definition example_watch :: sys where
  "example_watch = example_sys\<lparr>shared := on_tx 3 (\<lambda>tx. tx\<lparr>tx_active := True\<rparr>)
     (example_world\<lparr>db := Watch 3 [''k''] newStore\<rparr>)\<rparr>"

lemma example_watch_facts:
  "3 \<in> set (slice_at (watchers (db (shared example_watch))) ''k'')" "tx_active (txs (db (shared example_watch)) 3)"
  "\<not> CheckDirty 3 (db (shared example_watch))" "pcs example_watch a = Idle" "tx_queued (txs (db (shared example_watch)) 3) = []"
  "reaches_switch 4 ''SET'' cmd (conns example_watch 4) (shared example_watch)"
  "reaches_switch 3 ''EXEC'' cmd (conns example_watch 3) (shared example_watch)"
  by (simp_all add: example_watch_def example_sys_def Watch_watchers Watch_txs newStore_def zero_transaction_def
      CheckDirty_def reaches_switch_def tx_control_def)

theorem watched_write_aborts_witness:
  "\<exists>\<sigma>1 w'. sys_step example_watch (Event 4 example_os host_example [''SET'', ''k'', ''x'']) \<sigma>1 \<and>
     client_EXEC host_example 3 (conns example_sys 3) (shared \<sigma>1) = Continues [(3, null_array)] (conns example_sys 3) w'"
proof -
  note f = example_watch_facts
  obtain \<sigma>1 where step: "sys_step example_watch (Event 4 example_os host_example [''SET'', ''k'', ''x'']) \<sigma>1"
    using SET_stepI [OF f(4) f(6)] by blast
  have "run_of sys_step \<sigma>1 [] \<sigma>1" by simp
  from watched_write_aborts [OF f(1,2,4,6) step this, of host_example "conns example_sys 3"] step show ?thesis by auto
qed

text \<open>Defect: DISCARD forgets the transaction but leaves its WATCH registrations, so a later and
  unrelated transaction of the same connection aborts when one of those keys is written.\<close>

theorem discard_keeps_watching:
  assumes "a \<in> set (slice_at (watchers (db w)) k)" and "tx_active (txs (db w) a)"
  shows "\<exists>w1 w3 w4. client_DISCARD a c w = Continues [(a, ok_reply)] c w1 \<and>
    client_MULTI a c (w1\<lparr>db := Set k v t (db w1)\<rparr>) = Continues [(a, ok_reply)] c w3 \<and>
    client_EXEC h a c w3 = Continues [(a, null_array)] c w4"
proof -
  let ?w1 = "on_tx a (\<lambda>_. zero_transaction) w"
  let ?w2 = "?w1\<lparr>db := Set k v t (db ?w1)\<rparr>"
  let ?w3 = "on_tx a (\<lambda>tx. tx\<lparr>tx_active := True\<rparr>) ?w2"
  have dirty: "tx_dirty (txs (db ?w2) a)" "\<not> tx_active (txs (db ?w2) a)"
    using assms(1) by (simp_all add: Set_marks zero_transaction_def)
  have "client_DISCARD a c w = Continues [(a, ok_reply)] c ?w1" using assms(2) by (simp add: client_DISCARD_def)
  moreover have "client_MULTI a c ?w2 = Continues [(a, ok_reply)] c ?w3" using dirty(2) by (simp add: client_MULTI_def)
  moreover have "\<exists>w4. client_EXEC h a c ?w3 = Continues [(a, null_array)] c w4"
    using client_EXEC_dirty [of ?w3 a h c] dirty(1) by auto
  ultimately show ?thesis by blast
qed

theorem discard_keeps_watching_witness:
  "\<exists>w1 w3 w4. client_DISCARD 3 (conns example_sys 3) (shared example_watch) = Continues [(3, ok_reply)] (conns example_sys 3) w1 \<and>
    client_MULTI 3 (conns example_sys 3) (w1\<lparr>db := Set ''k'' ''x'' zero_time (db w1)\<rparr>) = Continues [(3, ok_reply)] (conns example_sys 3) w3 \<and>
    client_EXEC host_example 3 (conns example_sys 3) w3 = Continues [(3, null_array)] (conns example_sys 3) w4"
  by (rule discard_keeps_watching [OF example_watch_facts(1,2)])

text \<open>C37. Defect: EXEC checks the dirty flag and drops the registrations in two separate sections of the
  mutex, and only then takes the queue. A SET of a watched key that runs between the two is not noticed: the
  transaction goes on to execute its queue although the key has changed.\<close>

theorem exec_check_window:
  assumes "pcs \<sigma> a = Idle" and "reaches_switch a ''EXEC'' [''EXEC''] (conns \<sigma> a) (shared \<sigma>)"
    and "tx_active (txs (db (shared \<sigma>)) a)" and "\<not> CheckDirty a (db (shared \<sigma>))"
    and "a \<in> set (slice_at (watchers (db (shared \<sigma>))) k)"
    and "b \<noteq> a" and "pcs \<sigma> b = Idle" and "reaches_switch b ''SET'' [''SET'', k, v] (conns \<sigma> b) (shared \<sigma>)"
  shows "\<exists>\<sigma>'. run_of sys_step \<sigma>
      [Event a os h [''EXEC''], Event b os h [''SET'', k, v], Event a os h [''EXEC''], Event a os h [''EXEC'']] \<sigma>' \<and>
    pcs \<sigma>' a = Executing (tx_queued (txs (db (shared \<sigma>)) a)) \<and> fst (Get now k (db (shared \<sigma>'))) = v"
proof -
  let ?\<sigma>1 = "\<sigma>\<lparr>pcs := (pcs \<sigma>)(a := Checked (CheckDirty a (db (shared \<sigma>))))\<rparr>"
  let ?\<sigma>2 = "?\<sigma>1\<lparr>pcs := (pcs ?\<sigma>1)(b := Propagating [''SET'', k, v]),
    shared := (shared \<sigma>)\<lparr>db := Set k v zero_time (db (shared \<sigma>))\<rparr>\<rparr>"
  let ?\<sigma>3 = "?\<sigma>2\<lparr>pcs := (pcs ?\<sigma>2)(a := Unwatched False), shared := (shared ?\<sigma>2)\<lparr>db := Unwatch a (db (shared ?\<sigma>2))\<rparr>\<rparr>"
  let ?q = "tx_queued (txs (db (shared ?\<sigma>3)) a)"
  let ?\<sigma>4 = "?\<sigma>3\<lparr>pcs := (pcs ?\<sigma>3)(a := Executing ?q), shared := on_tx a (\<lambda>_. zero_transaction) (shared ?\<sigma>3)\<rparr>"
  have "sys_step \<sigma> (Event a os h [''EXEC'']) ?\<sigma>1"
    using sys_step.exec_check [of \<sigma> a "[''EXEC'']" h os] assms(1-3) by (simp add: upper_EXEC)
  moreover have "sys_step ?\<sigma>1 (Event b os h [''SET'', k, v]) ?\<sigma>2"
    using SET_stepI [of ?\<sigma>1 b k v os h] assms(6-8) by simp
  moreover have "sys_step ?\<sigma>2 (Event a os h [''EXEC'']) ?\<sigma>3"
    using sys_step.exec_unwatch [of ?\<sigma>2 a False os h "[''EXEC'']"] assms(4,6) by simp
  moreover have "sys_step ?\<sigma>3 (Event a os h [''EXEC'']) ?\<sigma>4"
    using sys_step.exec_take [of ?\<sigma>3 a False os h "[''EXEC'']"] by simp
  ultimately have "run_of sys_step \<sigma>
      [Event a os h [''EXEC''], Event b os h [''SET'', k, v], Event a os h [''EXEC''], Event a os h [''EXEC'']] ?\<sigma>4"
    unfolding run_of_Cons run_of_Nil by blast
  moreover have "?q = tx_queued (txs (db (shared \<sigma>)) a)"
    by (simp add: tx_queued_Unwatch Set_def Let_def)
  moreover have "fst (Get now k (db (shared ?\<sigma>4))) = v"
    by (simp add: Get_def Set_def Let_def zero_entry_def IsZero_def)
  ultimately show ?thesis by (intro exI [of _ ?\<sigma>4]) simp
qed

text \<open>From the example: connection 3 watches \<open>k\<close> and is in MULTI, and connection 4 sets \<open>k\<close>.\<close>

theorem exec_check_window_witness:
  "3 \<in> set (slice_at (watchers (db (shared example_watch))) ''k'') \<and> tx_active (txs (db (shared example_watch)) 3) \<and>
   (\<exists>\<sigma>'. run_of sys_step example_watch
       [Event 3 example_os host_example [''EXEC''], Event 4 example_os host_example [''SET'', ''k'', ''x''],
        Event 3 example_os host_example [''EXEC''], Event 3 example_os host_example [''EXEC'']] \<sigma>' \<and>
      pcs \<sigma>' 3 = Executing [] \<and> fst (Get 0 ''k'' (db (shared \<sigma>'))) = ''x'')"
proof -
  note f = example_watch_facts
  from exec_check_window [OF f(4) f(7) f(2) f(3) f(1) _ f(4) f(6), where v = "''x''" and now = 0 and os = example_os and h = host_example]
  show ?thesis using f(1,2,5) by simp
qed

section \<open>Two writes in flight\<close>

text \<open>A write is applied, propagated and appended in three separate steps, so two clients can be propagated and appended
  in the other order than they were applied.\<close>

lemma append_order_run:
  assumes "a \<noteq> b" and "pcs \<sigma> a = Idle" and "pcs \<sigma> b = Idle" and "aof (shared \<sigma>) = Some f"
    and "reaches_switch a ''SET'' [''SET'', k, x] (conns \<sigma> a) (shared \<sigma>)"
    and "reaches_switch b ''SET'' [''SET'', k, y] (conns \<sigma> b) (shared \<sigma>)"
    and "os_write os = WroteAll"
  shows "\<exists>\<sigma>'. run_of sys_step \<sigma> [Event a os h [''SET'', k, x], Event b os h [''SET'', k, y],
      Event b os h [''SET'', k, y], Event b os h [''SET'', k, y], Event a os h [''SET'', k, x], Event a os h [''SET'', k, x]] \<sigma>' \<and>
    Get now k (db (shared \<sigma>')) = (y, True) \<and>
    aof (shared \<sigma>') = Some (f\<lparr>aof_file := aof_file f @ EncodeRaw [''SET'', k, y] @ EncodeRaw [''SET'', k, x]\<rparr>)"
proof -
  let ?x = "[''SET'', k, x]" and ?y = "[''SET'', k, y]"
  let ?app = "\<lambda>w cmd. w\<lparr>aof := snd (Append (os_write os) (os_sync os) (EncodeRaw cmd) (aof w))\<rparr>"
  have sent: "sys_step \<tau> (Event c os h cmd) (\<tau>\<lparr>pcs := (pcs \<tau>)(c := Appending cmd), shared := (shared \<tau>)\<lparr>srv := (srv (shared \<tau>))\<lparr>
      srv_replicas := snd (propagate cmd (srv_replicas (srv (shared \<tau>))))\<rparr>\<rparr>\<rparr>)" if "pcs \<tau> c = Propagating cmd" for \<tau> c cmd
    using sys_step.propagates [OF that] by (metis prod.collapse)
  let ?\<sigma>1 = "\<sigma>\<lparr>pcs := (pcs \<sigma>)(a := Propagating ?x), shared := (shared \<sigma>)\<lparr>db := Set k x zero_time (db (shared \<sigma>))\<rparr>\<rparr>"
  let ?\<sigma>2 = "?\<sigma>1\<lparr>pcs := (pcs ?\<sigma>1)(b := Propagating ?y), shared := (shared ?\<sigma>1)\<lparr>db := Set k y zero_time (db (shared ?\<sigma>1))\<rparr>\<rparr>"
  let ?p = "\<lambda>\<tau> c cmd. \<tau>\<lparr>pcs := (pcs \<tau>)(c := Appending cmd), shared := (shared \<tau>)\<lparr>srv := (srv (shared \<tau>))\<lparr>
      srv_replicas := snd (propagate cmd (srv_replicas (srv (shared \<tau>))))\<rparr>\<rparr>\<rparr>"
  let ?q = "\<lambda>\<tau> c cmd. \<tau>\<lparr>pcs := (pcs \<tau>)(c := Idle), shared := ?app (shared \<tau>) cmd\<rparr>"
  let ?\<sigma>4 = "?q (?p ?\<sigma>2 b ?y) b ?y"
  let ?\<sigma>6 = "?q (?p ?\<sigma>4 a ?x) a ?x"
  have "reaches_switch b ''SET'' ?y (conns ?\<sigma>1 b) (shared ?\<sigma>1)"
    using assms(6) by (simp add: reaches_switch_def Set_marks)
  then have "sys_step ?\<sigma>1 (Event b os h ?y) ?\<sigma>2" using SET_stepI [of ?\<sigma>1 b k y os h] assms(1,3) by simp
  moreover have "sys_step \<sigma> (Event a os h ?x) ?\<sigma>1" using SET_stepI [OF assms(2,5)] .
  moreover have "sys_step ?\<sigma>2 (Event b os h ?y) (?p ?\<sigma>2 b ?y)" "sys_step ?\<sigma>4 (Event a os h ?x) (?p ?\<sigma>4 a ?x)"
    using assms(1) by (intro sent, simp)+
  moreover have "sys_step (?p ?\<sigma>2 b ?y) (Event b os h ?y) ?\<sigma>4" "sys_step (?p ?\<sigma>4 a ?x) (Event a os h ?x) ?\<sigma>6"
    by (intro sys_step.appends, simp)+
  ultimately have "run_of sys_step \<sigma> [Event a os h ?x, Event b os h ?y, Event b os h ?y, Event b os h ?y,
      Event a os h ?x, Event a os h ?x] ?\<sigma>6"
    unfolding run_of_Cons run_of_Nil by blast
  moreover have "Get now k (db (shared ?\<sigma>6)) = (y, True)"
    by (simp add: Get_def Set_def Let_def zero_entry_def IsZero_def)
  moreover have "aof (shared ?\<sigma>6) = Some (f\<lparr>aof_file := aof_file f @ EncodeRaw ?y @ EncodeRaw ?x\<rparr>)"
    using assms(4,7) by (simp add: Append_def)
  ultimately show ?thesis by (intro exI [of _ ?\<sigma>6]) simp
qed

end
