(* ===== verification/Boot.thy ===== *)
theory Boot
  imports Wakeup Rdb
begin

text \<open>
  The start of the server, \<open>main\<close> of \<^verbatim>\<open>src/app/main.go\<close> up to the point where it listens: the RDB file is
  loaded into a new store, then the append-only file is found through its manifest and replayed through
  \<open>handleCommands\<close>. What the file system answers is the record \<open>disk\<close>. Then recovery: a system
  whose every step is in the log can be stopped anywhere.
\<close>

section \<open>Replay through the command handlers\<close>

text \<open>
  The callback given to \<open>Replay\<close>. A command that blocks holds the start of the server there: the commands after
  it are not read, so the state only carries where it stopped.
\<close>

definition recover_cb :: "host \<Rightarrow> bytes list \<Rightarrow> world \<times> outcome option \<Rightarrow> (world \<times> outcome option) go" where
  "recover_cb h cmd st =
     (case st of
        (w, Some out) \<Rightarrow> Ret (w, Some out)
      | (w, None) \<Rightarrow>
          (case run_data h cmd w of (out, w') \<Rightarrow>
             (case out of Crash \<Rightarrow> Panic | Answer r s \<Rightarrow> Ret (w', None) | _ \<Rightarrow> Ret (w', Some out))))"

section \<open>The start\<close>

record disk =
  rdb_open :: open_result
  mkdir_ok :: bool
  manifest_file :: "manifest_err + bytes"
  manifest_writable :: bool
  open_incr :: "string \<Rightarrow> bytes option"
  reopen_ok :: bool

datatype boot_result = Ready world | Exits | BootBlocked world outcome | BootPanics

definition boot_rdb :: "config \<Rightarrow> disk \<Rightarrow> rdb_err option \<times> store" where
  "boot_rdb cfg d = (if dbFilename cfg \<noteq> [] then LoadRDBFile (rdb_open d) Set newStore else (None, newStore))"

definition boot :: "host \<Rightarrow> config \<Rightarrow> disk \<Rightarrow> boot_result" where
  "boot h cfg d =
     (case boot_rdb cfg d of
        (Some e, s) \<Rightarrow> Exits
      | (None, s) \<Rightarrow>
          if \<not> appendOnly cfg then Ready \<lparr>db = s, srv = newServer cfg, aof = None\<rparr>
          else if \<not> mkdir_ok d then Exits
          else
            (case aof_incr_name cfg (manifest_file d) of
               Inl e \<Rightarrow> Exits
             | Inr (incrName, created) \<Rightarrow>
                 if created \<noteq> None \<and> \<not> manifest_writable d then Exits
                 else
                   (case open_incr d incrName of
                      None \<Rightarrow> Exits
                    | Some content \<Rightarrow>
                        (let a = Some \<lparr>aof_file = content, aof_fsync = appendFsync cfg\<rparr>
                         in case Replay (reopen_ok d) (recover_cb h) a (\<lparr>db = s, srv = newServer cfg, aof = a\<rparr>, None) of
                              Panic \<Rightarrow> BootPanics
                            | Ret (Some e, st) \<Rightarrow> Exits
                            | Ret (None, (w, None)) \<Rightarrow> Ready w
                            | Ret (None, (w, Some out)) \<Rightarrow> BootBlocked w out))))"

section \<open>What replay does not need the clock for\<close>

text \<open>The commands that never change the store.\<close>

definition read_only :: "string \<Rightarrow> bool" where
  "read_only nm \<longleftrightarrow> nm \<in> set [''PING'', ''ECHO'', ''GET'', ''TYPE'', ''LLEN'', ''LRANGE'', ''XRANGE'', ''XREAD'', ''INFO'', ''KEYS'',
     ''CONFIG'', ''ZRANK'', ''ZRANGE'', ''ZCARD'', ''ZSCORE'', ''GETBIT'', ''STRLEN'', ''BITCOUNT'', ''GEOPOS'', ''GEODIST'', ''GEOSEARCH'']"

abbreviation keeps_store :: "store \<Rightarrow> outcome \<Rightarrow> bool" where
  "keeps_store s \<equiv> outcome_all (\<lambda>r. True) (\<lambda>s'. s' = s)"

lemma table_read_only:
  assumes "map_of (command_table h cfg replid) nm = Some run" and "read_only nm"
  shows "keeps_store s (run cmd s)"
proof -
  have a: "keeps_store s (cmd_ECHO cmd s)" "keeps_store s (cmd_GET h cmd s)" "keeps_store s (cmd_TYPE cmd s)"
    "keeps_store s (cmd_KEYS h cmd s)" "keeps_store s (cmd_INFO cfg replid s)" "keeps_store s (cmd_CONFIG h cfg cmd s)"
    "keeps_store s (cmd_LLEN cmd s)" "keeps_store s (cmd_LRANGE cmd s)"
    by (auto simp: cmd_ECHO_def cmd_GET_def cmd_TYPE_def cmd_KEYS_def cmd_INFO_def cmd_CONFIG_def cmd_LLEN_def cmd_LRANGE_def
        Let_def split: prod.splits)
  have b: "keeps_store s (cmd_XRANGE cmd s)" "keeps_store s (cmd_XREAD h cmd s)" "keeps_store s (cmd_ZRANK cmd s)"
    "keeps_store s (cmd_ZRANGE cmd s)" "keeps_store s (cmd_ZCARD cmd s)" "keeps_store s (cmd_ZSCORE h cmd s)"
    by (auto simp: cmd_XRANGE_def cmd_XREAD_def cmd_ZRANK_def cmd_ZRANGE_def cmd_ZCARD_def cmd_ZSCORE_def Let_def
        outcome_all_on_val intro!: outcome_all_on_ret split: sum.splits option.splits xread_state.splits)
  have c: "keeps_store s (cmd_GETBIT h cmd s)" "keeps_store s (cmd_STRLEN h cmd s)" "keeps_store s (cmd_BITCOUNT cmd s)"
    "keeps_store s (cmd_GEOPOS h cmd s)" "keeps_store s (cmd_GEODIST h cmd s)" "keeps_store s (cmd_GEOSEARCH h cmd s)"
    by (auto simp: cmd_GETBIT_def cmd_STRLEN_def cmd_BITCOUNT_def cmd_GEOPOS_def cmd_GEODIST_def cmd_GEOSEARCH_def Let_def
        outcome_all_on_val intro!: outcome_all_on_ret split: sum.splits prod.splits)
  have "list_all (\<lambda>(nm, run). read_only nm \<longrightarrow> keeps_store s (run cmd s)) (command_table h cfg replid)"
    by (simp add: command_table_def read_only_def a b c)
  with map_of_SomeD [OF assms(1)] assms(2) show ?thesis by (auto simp: list_all_iff)
qed

text \<open>A write whose effect does not depend on when it runs: no relative expiry and no generated stream ID.\<close>

definition clock_free :: "string \<Rightarrow> bytes list \<Rightarrow> bool" where
  "clock_free nm cmd \<longleftrightarrow> \<not> (nm = ''SET'' \<and> 3 < length cmd) \<and> \<not> (nm = ''XADD'' \<and> cmd ! 2 = ''*'')"

lemma XAdd_clock: "rawID \<noteq> ''*'' \<Longrightarrow> XAdd t k rawID fs s = XAdd t' k rawID fs s"
proof -
  assume "rawID \<noteq> ''*''"
  then have "xadd_id t rawID = xadd_id t' rawID" by (simp add: xadd_id_def fun_eq_iff)
  then show ?thesis by (simp only: XAdd_def)
qed

lemma write_clock_free:
  assumes "writeCommands nm" and "clock_free nm cmd"
  shows "map_option (\<lambda>run. run cmd s) (map_of (command_table (h\<lparr>clock := t\<rparr>) cfg replid) nm) =
    map_option (\<lambda>run. run cmd s) (map_of (command_table h cfg' replid') nm)"
proof -
  have set3: "length cmd \<le> 3 \<longrightarrow> cmd_SET (h\<lparr>clock := t\<rparr>) cmd s = cmd_SET h cmd s" by (simp add: cmd_SET_def)
  have xadd: "cmd ! 2 \<noteq> ''*'' \<longrightarrow> cmd_XADD (h\<lparr>clock := t\<rparr>) cmd s = cmd_XADD h cmd s"
    using XAdd_clock [of "cmd ! 2" t "cmd ! 1" "drop 3 cmd" s "clock h"] by (auto simp: cmd_XADD_def)
  have "cmd_BLPOP (h\<lparr>clock := t\<rparr>) cmd s = cmd_BLPOP h cmd s" "cmd_ZADD (h\<lparr>clock := t\<rparr>) cmd s = cmd_ZADD h cmd s"
    by (auto simp: cmd_BLPOP_def cmd_ZADD_def blpop_timeout_def Let_def split: prod.splits blpop_entry.splits)
  moreover have "list_all (\<lambda>nm. clock_free nm cmd \<longrightarrow>
      map_option (\<lambda>run. run cmd s) (map_of (command_table (h\<lparr>clock := t\<rparr>) cfg replid) nm) =
      map_option (\<lambda>run. run cmd s) (map_of (command_table h cfg' replid') nm))
      [''SET'', ''INCR'', ''RPUSH'', ''LPUSH'', ''LPOP'', ''BLPOP'', ''XADD'', ''ZADD'']"
    using set3 xadd calculation by (simp add: command_table_def clock_free_def)
  ultimately show ?thesis using assms by (simp only: list_all_iff writeCommands_def)
qed

section \<open>Live server and recovering server\<close>

text \<open>The keyspace of a server that applies the log, a replica or a restarted server, is that of the live one.\<close>

definition agree :: "world \<Rightarrow> world \<Rightarrow> bool" where
  "agree w v \<longleftrightarrow> db w = db v"

lemma agree_write:
  assumes "agree w v" and "cmd \<noteq> []" and "nm = ToUpper (uni_upper h) (cmd ! 0)" and "writeCommands nm" and "clock_free nm cmd"
    and "run_data (h\<lparr>clock := t\<rparr>) cmd w = (out, w')"
  obtains v' where "run_data h cmd v = (out, v')" and "agree w' v'"
proof -
  have "nm \<noteq> ''ACL''" using assms(4) by (auto simp: writeCommands_def)
  moreover obtain run where "map_of (command_table h (srv_cfg (srv v)) (replicationID (srv v))) nm = Some run"
    using assms(4) by (auto simp: writeCommands_def command_table_def)
  moreover from this obtain run' where "map_of (command_table (h\<lparr>clock := t\<rparr>) (srv_cfg (srv w)) (replicationID (srv w))) nm = Some run'"
    and "run' cmd (db w) = run cmd (db w)"
    using write_clock_free [OF assms(4,5), where s = "db w" and h = h and t = t and cfg = "srv_cfg (srv w)"
        and replid = "replicationID (srv w)" and cfg' = "srv_cfg (srv v)" and replid' = "replicationID (srv v)"] by auto
  ultimately show ?thesis
    using assms(1,2,6) that by (auto simp: run_data_def handleCommands_def Let_def agree_def assms(3))
qed

lemma agree_read:
  assumes "cmd \<noteq> []" and "nm = ToUpper (uni_upper h) (cmd ! 0)" and "read_only nm" and "run_data (h\<lparr>clock := t\<rparr>) cmd w = (Answer r s, w')"
  shows "db w' = db w \<and> srv_cfg (srv w') = srv_cfg (srv w) \<and> replicationID (srv w') = replicationID (srv w) \<and> aof w' = aof w"
proof -
  let ?tab = "command_table (h\<lparr>clock := t\<rparr>) (srv_cfg (srv w)) (replicationID (srv w))"
  have "nm \<noteq> ''ACL''" using assms(3) by (auto simp: read_only_def)
  moreover obtain run where tab: "map_of ?tab nm = Some run"
    using assms(3) by (auto simp: read_only_def command_table_def)
  ultimately show ?thesis
    using assms(1,4) table_read_only [OF tab assms(3), of "db w" cmd]
    by (auto simp: run_data_def handleCommands_def Let_def outcome_store_def assms(2) split: outcome.splits)
qed

text \<open>A write that a log may hold.\<close>

definition clean_write :: "host \<Rightarrow> bytes list \<Rightarrow> bool" where
  "clean_write h cmd \<longleftrightarrow> cmd \<noteq> [] \<and> command_in_limits cmd \<and>
     writeCommands (ToUpper (uni_upper h) (cmd ! 0)) \<and> clock_free (ToUpper (uni_upper h) (cmd ! 0)) cmd"

lemma clean_write_clock [simp]: "clean_write (h\<lparr>clock := t\<rparr>) = clean_write h"
  by (simp add: clean_write_def fun_eq_iff)

text \<open>From \<open>w\<close> to \<open>w'\<close> the file grew by a log that takes every keyspace like that of \<open>w\<close> to that of \<open>w'\<close>, at any time.\<close>

definition logs_as :: "host \<Rightarrow> world \<Rightarrow> AOF \<Rightarrow> world \<Rightarrow> bool" where
  "logs_as h w f w' \<longleftrightarrow>
     (\<exists>log. aof w' = Some (f\<lparr>aof_file := aof_file f @ concat (map EncodeRaw log)\<rparr>) \<and> list_all (clean_write h) log \<and>
        (\<forall>v t. agree w v \<longrightarrow> (\<exists>v'. go_fold (recover_cb (h\<lparr>clock := t\<rparr>)) log (v, None) = Ret (v', None) \<and> agree w' v')))"

lemma logs_as_same: "aof w = Some f \<Longrightarrow> db w' = db w \<Longrightarrow> aof w' = aof w \<Longrightarrow> logs_as h w f w'"
  unfolding logs_as_def by (intro exI [of _ "[]"]) (simp add: agree_def)

lemma logs_as_trans:
  assumes "logs_as h w f w1" and "\<And>f1. aof w1 = Some f1 \<Longrightarrow> logs_as h w1 f1 w2"
  shows "logs_as h w f w2"
proof -
  from assms(1) obtain log1 where
    l1: "aof w1 = Some (f\<lparr>aof_file := aof_file f @ concat (map EncodeRaw log1)\<rparr>)" "list_all (clean_write h) log1"
    and s1: "\<And>v t. agree w v \<Longrightarrow> \<exists>v1. go_fold (recover_cb (h\<lparr>clock := t\<rparr>)) log1 (v, None) = Ret (v1, None) \<and> agree w1 v1"
    unfolding logs_as_def by blast
  from assms(2) [OF l1(1)] obtain log2 where
    l2: "aof w2 = Some (f\<lparr>aof_file := (aof_file f @ concat (map EncodeRaw log1)) @ concat (map EncodeRaw log2)\<rparr>)"
    "list_all (clean_write h) log2"
    and s2: "\<And>v t. agree w1 v \<Longrightarrow> \<exists>v2. go_fold (recover_cb (h\<lparr>clock := t\<rparr>)) log2 (v, None) = Ret (v2, None) \<and> agree w2 v2"
    unfolding logs_as_def by auto
  have "\<exists>v2. go_fold (recover_cb (h\<lparr>clock := t\<rparr>)) (log1 @ log2) (v, None) = Ret (v2, None) \<and> agree w2 v2"
    if "agree w v" for v t
    using s1 [OF that, of t] s2 [where t = t] by (auto simp: go_fold_append)
  with l1 l2 show ?thesis unfolding logs_as_def by (intro exI [of _ "log1 @ log2"]) simp
qed

lemma recover_cb_run:
  "recover_cb h cmd (w, None) =
     (case run_data h cmd w of (out, w') \<Rightarrow>
        (case out of Crash \<Rightarrow> Panic | Answer r s \<Rightarrow> Ret (w', None) | _ \<Rightarrow> Ret (w', Some out)))"
  by (simp add: recover_cb_def)

section \<open>Recovery\<close>

text \<open>
  What a server leaves on the disk: the manifest, if it was written, and the file; and a disk whose append-only file
  holds whole records of writes that do not need the clock.
\<close>

definition left_behind :: "config \<Rightarrow> disk \<Rightarrow> AOF \<Rightarrow> disk" where
  "left_behind cfg d f =
     (case aof_incr_name cfg (manifest_file d) of
        Inl e \<Rightarrow> d
      | Inr (incr, created) \<Rightarrow>
          d\<lparr>manifest_file := (case created of None \<Rightarrow> manifest_file d | Some m \<Rightarrow> Inr m),
            open_incr := (open_incr d)(incr \<mapsto> aof_file f)\<rparr>)"

definition clean_disk :: "host \<Rightarrow> config \<Rightarrow> disk \<Rightarrow> bool" where
  "clean_disk h cfg d \<longleftrightarrow>
     (\<exists>incr created log. aof_incr_name cfg (manifest_file d) = Inr (incr, created) \<and>
        open_incr d incr = Some (concat (map EncodeRaw log)) \<and> list_all (clean_write h) log)"

lemma boot_Ready:
  assumes "appendOnly cfg" and "aof_incr_name cfg (manifest_file d) = Inr (incr, created)"
    and "open_incr d incr = Some content"
  shows "boot h cfg d = Ready w \<longleftrightarrow>
    (\<exists>s. boot_rdb cfg d = (None, s) \<and> mkdir_ok d \<and> (created \<noteq> None \<longrightarrow> manifest_writable d) \<and> reopen_ok d \<and>
       replay_loop (recover_cb h) content
         (\<lparr>db = s, srv = newServer cfg, aof = Some \<lparr>aof_file = content, aof_fsync = appendFsync cfg\<rparr>\<rparr>, None) =
       Ret (None, (w, None)))"
  using assms
  by (auto simp: boot_def Replay_def Let_def split: prod.splits option.splits if_splits go.splits)

lemma clean_limits: "list_all (clean_write h) log \<Longrightarrow> list_all command_in_limits log"
  by (auto simp: list_all_iff clean_write_def)

lemma recover_stopped: "go_fold (recover_cb h) log (w, Some out) = Ret (w, Some out)"
  by (induction log) (simp_all add: recover_cb_def)

text \<open>Replaying a clean log at another time.\<close>

lemma clean_replay:
  assumes "go_fold (recover_cb (h\<lparr>clock := t\<rparr>)) log (w, None) = Ret (w', None)" and "list_all (clean_write h) log"
    and "agree w v"
  shows "\<exists>v'. go_fold (recover_cb h) log (v, None) = Ret (v', None) \<and> agree w' v'"
  using assms
proof (induction log arbitrary: w v)
  case (Cons cmd log)
  obtain out w1 where run: "run_data (h\<lparr>clock := t\<rparr>) cmd w = (out, w1)" by fastforce
  obtain r s where out: "out = Answer r s"
    using Cons.prems(1) run by (cases out) (simp_all add: recover_cb_run recover_stopped)
  have "cmd \<noteq> []" "writeCommands (ToUpper (uni_upper h) (cmd ! 0))" "clock_free (ToUpper (uni_upper h) (cmd ! 0)) cmd"
    using Cons.prems(2) by (simp_all add: clean_write_def)
  from agree_write [OF Cons.prems(3) this(1) refl this(2,3) run] obtain v1 where
    v1: "run_data h cmd v = (out, v1)" "agree w1 v1" by metis
  have "go_fold (recover_cb (h\<lparr>clock := t\<rparr>)) log (w1, None) = Ret (w', None)"
    using Cons.prems(1) run by (simp add: recover_cb_run out)
  from Cons.IH [OF this _ v1(2)] Cons.prems(2) v1(1) show ?case by (simp add: recover_cb_run out)
qed simp

lemma replay_whole:
  fixes st :: "world \<times> outcome option"
  assumes "list_all command_in_limits log"
  shows "replay_loop cb (concat (map EncodeRaw log)) st = Ret (None, (w, None)) \<longleftrightarrow> go_fold cb log st = Ret (w, None)"
  using replay_loop_stream [OF assms, of cb "[]" st]
  by (cases "go_fold cb log st") (simp_all add: replay_loop.simps [of cb "[]"])

text \<open>The boot of a server whose file is a clean log.\<close>

lemma boot_clean:
  assumes "appendOnly cfg" and "aof_incr_name cfg (manifest_file d) = Inr (incr, created)"
    and "open_incr d incr = Some (concat (map EncodeRaw log))" and "list_all (clean_write h) log"
  shows "boot h' cfg d = Ready w \<longleftrightarrow>
    (\<exists>s. boot_rdb cfg d = (None, s) \<and> mkdir_ok d \<and> (created \<noteq> None \<longrightarrow> manifest_writable d) \<and> reopen_ok d \<and>
       go_fold (recover_cb h') log (\<lparr>db = s, srv = newServer cfg,
         aof = Some \<lparr>aof_file = concat (map EncodeRaw log), aof_fsync = appendFsync cfg\<rparr>\<rparr>, None) = Ret (w, None))"
  using boot_Ready [OF assms(1-3)] replay_whole [OF clean_limits [OF assms(4)]] by simp

text \<open>The next start on the disk that was left, as a fold over the log.\<close>

lemma left_behind_facts:
  assumes "plain_word (appendFilename cfg)" and "aof_incr_name cfg (manifest_file d) = Inr (incr, created)"
  shows "aof_incr_name cfg (manifest_file (left_behind cfg d f)) = Inr (incr, None)"
    and "open_incr (left_behind cfg d f) incr = Some (aof_file f)"
    and "boot_rdb cfg (left_behind cfg d f) = boot_rdb cfg d" and "mkdir_ok (left_behind cfg d f) = mkdir_ok d"
    and "reopen_ok (left_behind cfg d f) = reopen_ok d"
proof -
  show "aof_incr_name cfg (manifest_file (left_behind cfg d f)) = Inr (incr, None)"
    using assms(2) manifest_written_read [OF assms(1)]
    by (cases created) (auto simp: left_behind_def aof_incr_name_def split: sum.splits manifest_err.splits if_splits)
qed (simp_all add: left_behind_def assms(2) boot_rdb_def)

lemma boot_left_behind:
  assumes "appendOnly cfg" and "plain_word (appendFilename cfg)" and "aof_incr_name cfg (manifest_file d) = Inr (incr, created)"
    and "boot_rdb cfg d = (None, s)" and "mkdir_ok d" and "reopen_ok d"
    and "aof_file f = concat (map EncodeRaw log)" and "list_all (clean_write h) log"
  shows "boot h' cfg (left_behind cfg d f) =
    (case go_fold (recover_cb h') log (\<lparr>db = s, srv = newServer cfg, aof = Some \<lparr>aof_file = aof_file f, aof_fsync = appendFsync cfg\<rparr>\<rparr>, None) of
       Panic \<Rightarrow> BootPanics
     | Ret (w, None) \<Rightarrow> Ready w
     | Ret (w, Some out) \<Rightarrow> BootBlocked w out)"
proof -
  have "replay_loop cb (aof_file f) st = go_bind (go_fold cb log st) (\<lambda>st'. Ret (None, st'))"
    for cb and st :: "world \<times> outcome option"
    using replay_loop_stream [OF clean_limits [OF assms(8)], of cb "[]" st] by (simp add: assms(7) replay_loop.simps [of cb "[]"])
  with left_behind_facts [OF assms(2,3), of f] assms(1,4-6) show ?thesis
    by (simp add: boot_def Replay_def Let_def go_bind_def split: go.splits option.splits)
qed

lemma recover_keeps_aof: "go_fold (recover_cb h) log (w, st) = Ret (w', st') \<Longrightarrow> aof w' = aof w"
proof (induction log arbitrary: w st)
  case (Cons cmd log)
  obtain w1 st1 where "recover_cb h cmd (w, st) = Ret (w1, st1)" and rest: "go_fold (recover_cb h) log (w1, st1) = Ret (w', st')"
    using Cons.prems by (auto simp: go_bind_eq_Ret)
  then have "aof w1 = aof w"
    by (auto simp: recover_cb_def run_data_def split: option.splits prod.splits outcome.splits)
  then show ?case using Cons.IH [OF rest] by simp
qed simp

text \<open>
  A system around the state of a server, such that every step logs what it does to the keyspace. It can be stopped after
  any run: the next start recovers.
\<close>

locale logged_system =
  fixes h :: host and step :: "'s \<Rightarrow> 'e \<Rightarrow> 's \<Rightarrow> bool" and inv :: "'s \<Rightarrow> bool" and mem_of :: "'s \<Rightarrow> world"
  assumes inv_step: "step s e s' \<Longrightarrow> inv s \<Longrightarrow> inv s'"
    and step_logs: "step s e s' \<Longrightarrow> inv s \<Longrightarrow> aof (mem_of s) = Some f \<Longrightarrow> logs_as h (mem_of s) f (mem_of s')"
begin

lemma run_logs:
  assumes "run_of step s es s'" and "inv s" and "aof (mem_of s) = Some f"
  shows "logs_as h (mem_of s) f (mem_of s')"
  using assms
proof (induction arbitrary: f rule: run_of.induct)
  case (run_nil s)
  then show ?case by (intro logs_as_same) simp_all
next
  case (run_cons s e s1 es s2)
  show ?case
    by (rule logs_as_trans [OF step_logs [OF run_cons.hyps(1) run_cons.prems]])
      (rule run_cons.IH, use inv_step run_cons in blast)
qed

lemma recovers:
  assumes "appendOnly cfg" and "plain_word (appendFilename cfg)" and "clean_disk h cfg d"
    and "boot (h\<lparr>clock := t0\<rparr>) cfg d = Ready (mem_of s0)" and "inv s0" and "run_of step s0 es s"
  shows "\<exists>f w. aof (mem_of s) = Some f \<and> boot (h\<lparr>clock := t1\<rparr>) cfg (left_behind cfg d f) = Ready w \<and>
    db w = db (mem_of s) \<and> clean_disk h cfg (left_behind cfg d f)"
proof -
  let ?h = "h\<lparr>clock := t1\<rparr>"
  let ?w = "\<lambda>s log. \<lparr>db = s, srv = newServer cfg, aof = Some \<lparr>aof_file = concat (map EncodeRaw log), aof_fsync = appendFsync cfg\<rparr>\<rparr>"
  from assms(3) obtain incr created log where
    d: "aof_incr_name cfg (manifest_file d) = Inr (incr, created)" "open_incr d incr = Some (concat (map EncodeRaw log))"
    and log: "list_all (clean_write h) log" by (auto simp: clean_disk_def)
  from assms(4) boot_clean [OF assms(1) d log] obtain st where
    st: "boot_rdb cfg d = (None, st)" "mkdir_ok d" "reopen_ok d"
    and w0: "go_fold (recover_cb (h\<lparr>clock := t0\<rparr>)) log (?w st log, None) = Ret (mem_of s0, None)" by auto
  have a0: "aof (mem_of s0) = Some \<lparr>aof_file = concat (map EncodeRaw log), aof_fsync = appendFsync cfg\<rparr>"
    using recover_keeps_aof [OF w0] by simp
  from run_logs [OF assms(6,5) a0] obtain log' f where
    f: "aof (mem_of s) = Some f" "f = \<lparr>aof_file = concat (map EncodeRaw (log @ log')), aof_fsync = appendFsync cfg\<rparr>"
    and log': "list_all (clean_write h) log'"
    and new: "\<And>v. agree (mem_of s0) v \<Longrightarrow> \<exists>v'. go_fold (recover_cb ?h) log' (v, None) = Ret (v', None) \<and> agree (mem_of s) v'"
    unfolding logs_as_def by auto
  have clean: "list_all (clean_write h) (log @ log')" using log log' by simp
  have "go_fold (recover_cb (?h\<lparr>clock := t0\<rparr>)) log (?w st log, None) = Ret (mem_of s0, None)" "list_all (clean_write ?h) log"
    using w0 log by simp_all
  from clean_replay [OF this, of "?w st (log @ log')"] obtain v0 where
    v0: "go_fold (recover_cb ?h) log (?w st (log @ log'), None) = Ret (v0, None)" "agree (mem_of s0) v0"
    by (auto simp: agree_def)
  obtain v where v: "go_fold (recover_cb ?h) log' (v0, None) = Ret (v, None)" "agree (mem_of s) v"
    using new [OF v0(2)] by auto
  have "boot ?h cfg (left_behind cfg d f) = Ready v"
    using boot_left_behind [OF assms(1,2) d(1) st _ clean, of f ?h] v0(1) v(1) by (simp add: f go_fold_append)
  moreover have "clean_disk h cfg (left_behind cfg d f)"
    unfolding clean_disk_def using left_behind_facts [OF assms(2) d(1), of f] clean f(2) by (metis AOF.select_convs(1))
  ultimately show ?thesis using v(2) f(1) by (auto simp: agree_def)
qed

end

definition example_disk :: disk where
  "example_disk = \<lparr>rdb_open = Missing, mkdir_ok = True, manifest_file = Inr (''file a seq 1 type i'' @ [LF]),
     manifest_writable = True, open_incr = (\<lambda>_. Some []), reopen_ok = True\<rparr>"

definition aof_config :: config where
  "aof_config = zero_config\<lparr>appendOnly := True, appendFilename := ''a'', appendFsync := ''always''\<rparr>"

text \<open>BLPOP of one key on an empty list.\<close>

lemma BLPOP_upper: "ToUpper uni ''BLPOP'' = ''BLPOP''"
proof -
  have "is_ascii ''BLPOP''" "map upper_char ''BLPOP'' = ''BLPOP''" by code_simp+
  then show ?thesis by (simp only: ToUpper_ascii)
qed

lemma BLPOP_parks:
  assumes "e_list (entry_at (db w) k) = []" and "parse_float h secs = (x, False)" and "\<not> f64_lt x f64_zero"
  obtains s w' where "run_data h [''BLPOP'', k, secs] w = (ParkPop [k] (next_chan (db w)) (blpop_timeout h x) s, w')"
    and "db w' = s" and "aof w' = aof w" and "next_chan (db w) \<in> set (slice_at (waiters s) k)" and "chans s (next_chan (db w)) = []"
proof -
  obtain s where "BLpop_enter [k] (db w) = Parked (next_chan (db w)) s" "next_chan (db w) \<in> set (slice_at (waiters s) k)"
    "chans s (next_chan (db w)) = []"
    using assms(1) by (simp add: BLpop_enter_def Let_def register_waiter_def)
  with assms(2,3) that show ?thesis
    by (simp add: run_data_def handleCommands_def Let_def BLPOP_upper command_table_def cmd_BLPOP_def outcome_store_def)
qed

text \<open>C40. Defect: a BLPOP that times out, or that a shutdown ends, is answered with the null array, and yet it is
  appended to the file and sent to the replicas. The next start runs it again on the empty list and waits in it, before
  it listens: for the timeout of every such record, and for ever when the timeout is 0, since nothing can then wake it.\<close>

theorem ended_blpop_blocks_start:
  assumes "appendOnly cfg" and "plain_word (appendFilename cfg)" and "clean_disk h cfg d" and "boot h cfg d = Ready w0"
    and "e_list (entry_at (db w0) k) = []" and "parse_float h secs = (x, False)" and "\<not> f64_lt x f64_zero"
    and "wk = Cancelled \<or> wk = TimerFires \<and> 0 < blpop_timeout h x" and "os_write os = WroteAll" and "command_in_limits [''BLPOP'', k, secs]"
  shows "\<exists>b w1 sent w2 f v res. client_default os h a ''BLPOP'' [''BLPOP'', k, secs] c w0 = Blocks [] b c w1 \<and>
    client_resume os h wk a b c w1 = Some (Continues ((a, null_array) # sent) c w2) \<and> aof w2 = Some f \<and>
    boot h cfg (left_behind cfg d f) = BootBlocked v res \<and>
    (\<forall>wk' r s. outcome_wakes wk' res (db v) = Answers r s \<longrightarrow> wk' = Cancelled \<or> wk' = TimerFires \<and> 0 < blpop_timeout h x)"
proof -
  let ?cmd = "[''BLPOP'', k, secs]" and ?ch = "next_chan (db w0)"
  let ?w = "\<lambda>s file. \<lparr>db = s, srv = newServer cfg, aof = Some \<lparr>aof_file = file, aof_fsync = appendFsync cfg\<rparr>\<rparr>"
  from assms(3) obtain incr created log where
    d: "aof_incr_name cfg (manifest_file d) = Inr (incr, created)" "open_incr d incr = Some (concat (map EncodeRaw log))"
    and log: "list_all (clean_write h) log" by (auto simp: clean_disk_def)
  from assms(4) boot_clean [OF assms(1) d log] obtain s where s: "boot_rdb cfg d = (None, s)" "mkdir_ok d" "reopen_ok d"
    and w0: "go_fold (recover_cb h) log (?w s (concat (map EncodeRaw log)), None) = Ret (w0, None)" by auto
  have a0: "aof w0 = Some \<lparr>aof_file = concat (map EncodeRaw log), aof_fsync = appendFsync cfg\<rparr>"
    using recover_keeps_aof [OF w0] by simp
  from BLPOP_parks [OF assms(5-7)] obtain s1 w1 where
    run: "run_data h ?cmd w0 = (ParkPop [k] ?ch (blpop_timeout h x) s1, w1)" "db w1 = s1" "aof w1 = aof w0"
    and reg: "?ch \<in> set (slice_at (waiters s1) k)" by metis
  have "\<exists>s2. outcome_wakes wk (ParkPop [k] ?ch (blpop_timeout h x) s1) s1 = Answers null_array s2"
    using reg assms(8)
    by (auto simp: outcome_wakes_def pop_wakes_def pop_cancelled_def cancelWait_def removeWaiter_single blpop_reply_def)
  then obtain sent w2 where
    res: "client_resume os h wk a (InCommand (ParkPop [k] ?ch (blpop_timeout h x) s1) ''BLPOP'' ?cmd) c w1 =
      Some (Continues ((a, null_array) # sent) c w2)"
    and f: "aof w2 = Some \<lparr>aof_file = concat (map EncodeRaw (log @ [?cmd])), aof_fsync = appendFsync cfg\<rparr>"
    using run a0 assms(9) by (auto simp: after_command_def writeCommands_def Append_def propagate_def Let_def)
  have clean: "list_all (clean_write h) (log @ [?cmd])"
    using log assms(10) by (simp add: clean_write_def BLPOP_upper writeCommands_def clock_free_def)
  have "go_fold (recover_cb (h\<lparr>clock := clock h\<rparr>)) log (?w s (concat (map EncodeRaw log)), None) = Ret (w0, None)"
    using w0 by simp
  from clean_replay [OF this log, of "?w s (concat (map EncodeRaw (log @ [?cmd])))"] obtain v0 where
    v0: "go_fold (recover_cb h) log (?w s (concat (map EncodeRaw (log @ [?cmd]))), None) = Ret (v0, None)" "db v0 = db w0"
    by (auto simp: agree_def)
  from BLPOP_parks [of v0 k h secs x] v0(2) assms(5-7) obtain s2 v where
    v: "run_data h ?cmd v0 = (ParkPop [k] ?ch (blpop_timeout h x) s2, v)" "chans (db v) ?ch = []" by metis
  have wakes: "wk' = Cancelled \<or> wk' = TimerFires \<and> 0 < blpop_timeout h x"
    if "outcome_wakes wk' (ParkPop [k] ?ch (blpop_timeout h x) s2) (db v) = Answers r s" for wk' r s
    using that v(2) by (auto simp: outcome_wakes_def pop_wakes_def chan_recv_def split: wake.splits if_splits)
  from v(1) have "boot h cfg (left_behind cfg d \<lparr>aof_file = concat (map EncodeRaw (log @ [?cmd])), aof_fsync = appendFsync cfg\<rparr>) =
      BootBlocked v (ParkPop [k] ?ch (blpop_timeout h x) s2)"
    using boot_left_behind [OF assms(1,2) d(1) s _ clean] v0(1) by (simp add: go_fold_append recover_cb_run)
  moreover have "client_default os h a ''BLPOP'' ?cmd c w0 = Blocks [] (InCommand (ParkPop [k] ?ch (blpop_timeout h x) s1) ''BLPOP'' ?cmd) c w1"
    using run(1) by (simp add: client_default_def)
  ultimately show ?thesis using res f wakes by blast
qed

theorem ended_blpop_blocks_start_witness:
  "\<exists>f v res. boot host_example aof_config (left_behind aof_config example_disk f) = BootBlocked v res"
proof -
  have "\<not> f64_lt f64_one f64_zero" by code_simp
  moreover have "parse_float host_example ''1'' = (f64_one, False)" by (simp add: host_example_def)
  ultimately have t: "parse_float host_example ''1'' = (f64_one, False)" "\<not> f64_lt f64_one f64_zero"
    "Cancelled = Cancelled \<or> Cancelled = TimerFires \<and> 0 < blpop_timeout host_example f64_one"
    by blast+
  have incr: "aof_incr_name aof_config (manifest_file example_disk) = Inr (''a'', None)" by code_simp
  have d: "appendOnly aof_config" "plain_word (appendFilename aof_config)" "open_incr example_disk ''a'' = Some []"
    by (simp_all add: aof_config_def example_disk_def zero_config_def plain_word_def)
  have clean: "clean_disk host_example aof_config example_disk"
    unfolding clean_disk_def using incr d(3) by (intro exI [of _ "''a''"] exI [of _ None] exI [of _ "[]"]) simp
  obtain w0 where w0: "boot host_example aof_config example_disk = Ready w0" "db w0 = newStore"
    using incr d by (simp add: boot_def Let_def Replay_def replay_loop.simps [of _ "[]"] boot_rdb_def aof_config_def zero_config_def
        example_disk_def)
  have e: "e_list (entry_at (db w0) ''k'') = []" by (simp add: w0(2) newStore_def entry_at_def zero_entry_def)
  have o: "os_write plain_os = WroteAll" by (simp add: plain_os_def)
  have l: "command_in_limits [''BLPOP'', ''k'', ''1'']" by (simp add: command_in_limits_def maxArrayLen_def maxBulkLength_def)
  from ended_blpop_blocks_start [OF d(1,2) clean w0(1) e t o l] show ?thesis by blast
qed

end
