(* ===== verification/Convergence.thy ===== *)
theory Convergence
  imports Boot Sessions
begin

text \<open>
  Master and replica end to end: the handshake of \<open>startReplication\<close> against \<open>handleClient\<close>, then every command that
  the master serves to its clients, through the encoder, the connection and the reader into the keyspace of the
  replica.
\<close>

section \<open>Serving, with what is sent\<close>

text \<open>
  Commands of several connections, served one after another: each event is a connection that is let in, without a
  subscription and outside a transaction, with the platform and the time of its command.
\<close>

type_synonym served_event = "connid \<times> conn \<times> os \<times> time \<times> bytes list"

fun serve_all :: "host \<Rightarrow> served_event list \<Rightarrow> world \<Rightarrow> (wire \<times> world) option" where
  "serve_all h [] w = Some ([], w)"
| "serve_all h ((a, c, os, t, cmd) # es) w =
     (if \<not> plain_client a c w then None
      else (case client_command os (h\<lparr>clock := t\<rparr>) a cmd c w of
              Continues out c' w' \<Rightarrow>
                (case serve_all h es w' of None \<Rightarrow> None | Some (out', w'') \<Rightarrow> Some (out @ out', w''))
            | _ \<Rightarrow> None))"

text \<open>A command that a replica reproduces: it only reads, or it is a propagated write that does not need the clock.\<close>

definition replicable :: "(string \<Rightarrow> string \<Rightarrow> bool) \<Rightarrow> host \<Rightarrow> bytes list \<Rightarrow> bool" where
  "replicable uni h cmd \<longleftrightarrow>
     cmd \<noteq> [] \<and> command_in_limits cmd \<and> \<not> isGetAck uni cmd \<and>
     (read_only (ToUpper (uni_upper h) (cmd ! 0)) \<or>
      writeCommands (ToUpper (uni_upper h) (cmd ! 0)) \<and> clock_free (ToUpper (uni_upper h) (cmd ! 0)) cmd)"

text \<open>An event that a replica on connection \<open>r\<close> reproduces.\<close>

definition replicable_for :: "connid \<Rightarrow> (string \<Rightarrow> string \<Rightarrow> bool) \<Rightarrow> host \<Rightarrow> served_event \<Rightarrow> bool" where
  "replicable_for r uni h e \<longleftrightarrow> (case e of (a, c, os, t, cmd) \<Rightarrow> a \<noteq> r \<and> replicable uni h cmd)"

lemma data_switch:
  assumes "writeCommands nm \<or> read_only nm"
  shows "client_switch os h a nm cmd c w = client_default os h a nm cmd c w"
proof -
  have "list_all (\<lambda>nm. client_switch os h a nm cmd c w = client_default os h a nm cmd c w)
      ([''SET'', ''INCR'', ''RPUSH'', ''LPUSH'', ''LPOP'', ''BLPOP'', ''XADD'', ''ZADD''] @
       [''PING'', ''ECHO'', ''GET'', ''TYPE'', ''LLEN'', ''LRANGE'', ''XRANGE'', ''XREAD'', ''INFO'', ''KEYS'',
        ''CONFIG'', ''ZRANK'', ''ZRANGE'', ''ZCARD'', ''ZSCORE'', ''GETBIT'', ''STRLEN'', ''BITCOUNT'', ''GEOPOS'', ''GEODIST'', ''GEOSEARCH''])"
    by (simp add: client_switch_def)
  then show ?thesis using assms by (simp only: list_all_iff set_append writeCommands_def read_only_def) blast
qed

lemma propagate_replicas: "propagate cmd r = (out, r') \<Longrightarrow> replicas r' = replicas r"
  by (auto simp: propagate_def Let_def)

text \<open>One command: what the replica is sent, and that applying it keeps both keyspaces equal.\<close>

lemma served_reproduced:
  assumes "client_default os (h\<lparr>clock := t\<rparr>) a (ToUpper (uni_upper h) (cmd ! 0)) cmd c w = Continues out c' w'"
    and "replicable uni h cmd" and "agree w v" and "once r (srv_replicas (srv w))" and "r \<noteq> a"
  shows "\<exists>log v'. stream_to r out = concat (map encodeCommand log) \<and> list_all command_in_limits log \<and>
    list_all (\<lambda>cmd. \<not> isGetAck uni cmd) log \<and> go_fold (recover_cb h) log (v, None) = Ret (v', None) \<and> agree w' v' \<and>
    once r (srv_replicas (srv w'))"
proof -
  let ?nm = "ToUpper (uni_upper h) (cmd ! 0)"
  from assms(1) obtain x s w1 sent where run: "run_data (h\<lparr>clock := t\<rparr>) cmd w = (Answer x s, w1)"
    and after: "after_command os ?nm cmd w1 = (sent, w')" and out: "out = (a, x) # sent"
    by (auto simp: client_default_def split: prod.splits outcome.splits)
  have rs: "srv_replicas (srv w1) = srv_replicas (srv w)" using run by (auto simp: run_data_def split: prod.splits)
  have st: "stream_to r out = stream_to r sent" using assms(5) by (simp add: out stream_to_def)
  show ?thesis
  proof (cases "writeCommands ?nm")
    case True
    then have c: "clock_free ?nm cmd" "command_in_limits cmd" "\<not> isGetAck uni cmd" "cmd \<noteq> []"
      using assms(2) by (auto simp: replicable_def read_only_def writeCommands_def)
    from agree_write [OF assms(3) c(4) refl True c(1) run] obtain v' where
      v': "run_data h cmd v = (Answer x s, v')" "agree w1 v'" by metis
    obtain r1 where p: "propagate cmd (srv_replicas (srv w)) = (sent, r1)" and w': "srv_replicas (srv w') = r1" "db w' = db w1"
      using after True rs by (auto simp: after_command_def split: prod.splits)
    have "stream_to r out = encodeCommand cmd" using stream_to_propagate [OF assms(4), of cmd] p st by simp
    moreover have "once r (srv_replicas (srv w'))" using assms(4) propagate_replicas [OF p] by (simp add: once_def w')
    ultimately show ?thesis
      using v' w' c by (intro exI [of _ "[cmd]"] exI [of _ v']) (simp add: recover_cb_def agree_def)
  next
    case False
    then have "w' = w1" "sent = []" and "read_only ?nm" and "cmd \<noteq> []"
      using after assms(2) by (simp_all add: after_command_def replicable_def)
    with agree_read [OF _ refl _ run] assms(3,4) rs st show ?thesis
      by (intro exI [of _ "[]"] exI [of _ v]) (simp add: agree_def)
  qed
qed

lemma replicable_command:
  assumes "plain_client a c w" and "replicable uni h cmd"
  shows "client_command os (h\<lparr>clock := t\<rparr>) a cmd c w = client_default os (h\<lparr>clock := t\<rparr>) a (ToUpper (uni_upper h) (cmd ! 0)) cmd c w"
proof -
  have "cmd \<noteq> []" and n: "writeCommands (ToUpper (uni_upper h) (cmd ! 0)) \<or> read_only (ToUpper (uni_upper h) (cmd ! 0))"
    using assms(2) by (auto simp: replicable_def)
  then show ?thesis
    using plain_client_command [OF assms(1), of cmd "ToUpper (uni_upper h) (cmd ! 0)" "h\<lparr>clock := t\<rparr>" os] data_switch [OF n] by simp
qed

lemma serve_all_reproduced:
  assumes "serve_all h es w = Some (out, w')" and "list_all (replicable_for r uni h) es" and "agree w v"
    and "once r (srv_replicas (srv w))"
  shows "\<exists>log v'. stream_to r out = concat (map encodeCommand log) \<and> list_all command_in_limits log \<and>
    list_all (\<lambda>cmd. \<not> isGetAck uni cmd) log \<and> go_fold (recover_cb h) log (v, None) = Ret (v', None) \<and> agree w' v'"
  using assms
proof (induction es arbitrary: w v out)
  case Nil
  then show ?case by (intro exI [of _ "[]"] exI [of _ v]) simp
next
  case (Cons e es)
  obtain a c os t cmd where e: "e = (a, c, os, t, cmd)" by (cases e) auto
  have rep: "replicable uni h cmd" "r \<noteq> a" "list_all (replicable_for r uni h) es"
    using Cons.prems(2) replicable_for_def [of r uni h "(a, c, os, t, cmd)"] by (auto simp: e)
  from Cons.prems(1) have plain: "plain_client a c w" by (simp add: e split: if_splits)
  from Cons.prems(1) plain obtain out1 c1 w1 out2 where
    step: "client_default os (h\<lparr>clock := t\<rparr>) a (ToUpper (uni_upper h) (cmd ! 0)) cmd c w = Continues out1 c1 w1"
    and rest: "serve_all h es w1 = Some (out2, w')" and out: "out = out1 @ out2"
    by (auto simp: e replicable_command [OF plain rep(1)] split: client_result.splits option.splits)
  from served_reproduced [OF step rep(1) Cons.prems(3,4) rep(2)] obtain log1 v1 where
    l1: "stream_to r out1 = concat (map encodeCommand log1)" "list_all command_in_limits log1"
    "list_all (\<lambda>cmd. \<not> isGetAck uni cmd) log1" "go_fold (recover_cb h) log1 (v, None) = Ret (v1, None)" "agree w1 v1"
    "once r (srv_replicas (srv w1))" by blast
  from Cons.IH [OF rest rep(3) l1(5,6)] obtain log2 v2 where
    "stream_to r out2 = concat (map encodeCommand log2)" "list_all command_in_limits log2"
    "list_all (\<lambda>cmd. \<not> isGetAck uni cmd) log2" "go_fold (recover_cb h) log2 (v1, None) = Ret (v2, None)" "agree w' v2" by blast
  with l1 show ?case
    by (intro exI [of _ "log1 @ log2"] exI [of _ v2]) (simp add: out go_fold_append)
qed

section \<open>Properties\<close>

text \<open>C12. A replica converges, under conditions. It connects to a master that lets it in and whose keyspace it shares (both may be
  empty), and goes through the handshake. Afterwards the master serves commands of any connections other than that of the replica, let in,
  without a subscription and outside a transaction, one after another, so that no write overtakes another between its execution and its
  propagation. Each command only reads, or is one of the propagated writes (SET, INCR, RPUSH, LPUSH, LPOP, BLPOP, XADD, ZADD) in a
  form that does not depend on the clock (no SET with options, no XADD with a generated ID), within the reader's limits and answered without
  blocking. Then \<open>startReplication\<close> over everything the master wrote to its connection sends exactly the handshake, does not
  fail or block, and ends with exactly the keyspace of the master. The two servers may have different configurations. Commands
  outside these conditions (SETBIT, BITOP, ZREM, GEOADD, EXEC, SET with PX, XADD with \<open>*\<close>) are not claimed to converge.\<close>

theorem replica_converges:
  assumes "plain_client r c0 w" and "LF \<notin> set (replicationID (srv w))"
    and "list_all (\<lambda>rep. r_conn rep \<noteq> r) (replicas (srv_replicas (srv w)))"
    and "converse os h r (handshake_cmds rcfg) c0 w = Some (hs, c1, w1)"
    and "serve_all h evs w1 = Some (out, w2)" and "list_all (replicable_for r uni h) evs" and "db v = db w"
  shows "\<exists>v'. startReplication uni (recover_cb h) rcfg (stream_to r (hs @ out)) (v, None) =
      Ret (handshake_messages rcfg, (v', None)) \<and> db v' = db w2"
proof -
  have hs: "hs = map (\<lambda>m. (r, m)) (handshake_answers w)"
    and w1: "w1 = w\<lparr>srv := (srv w)\<lparr>srv_replicas := add_replica r (srv_replicas (srv w))\<rparr>\<rparr>"
    using assms(4) handshake_master [OF assms(1), of os h rcfg] by simp_all
  have "stream_to r hs = concat (handshake_answers w)" by (simp add: hs stream_to_def o_def)
  have on: "once r (srv_replicas (srv w1))"
    using assms(3) by (simp add: w1 once_def add_replica_def list_all_iff)
  have "agree w1 v" using assms(7) by (simp add: w1 agree_def)
  from serve_all_reproduced [OF assms(5,6) this on] obtain log v' where
    l: "stream_to r out = concat (map encodeCommand log)" "list_all command_in_limits log"
    "list_all (\<lambda>cmd. \<not> isGetAck uni cmd) log" "go_fold (recover_cb h) log (v, None) = Ret (v', None)" "agree w2 v'" by auto
  have z: "is_int64 0" by (simp add: is_int64_def min_int64_def max_int64_def)
  have "repl_loop uni (recover_cb h) (stream_to r out) 0 (v, None) = Ret ([], wrap64 (0 + stream_size log), (v', None))"
    using repl_loop_stream [OF l(2,3) z, of "recover_cb h" "[]" "(v, None)"] l(1,4)
    by (simp add: repl_loop.simps [of uni "recover_cb h" "[]"])
  with handshake_replica [OF assms(2), of uni "recover_cb h" rcfg "stream_to r out" "(v, None)"] l(5)
    \<open>stream_to r hs = concat (handshake_answers w)\<close>
  show ?thesis by (intro exI [of _ v']) (simp add: agree_def)
qed

text \<open>Two connections write after the handshake.\<close>

theorem replica_converges_witness:
  "\<exists>hs c1 w1 out w2 v'. converse plain_os host_example 7 (handshake_cmds zero_config)
      (open_conn \<lparr>db = newStore, srv = newServer zero_config, aof = None\<rparr>)
      \<lparr>db = newStore, srv = newServer zero_config, aof = None\<rparr> = Some (hs, c1, w1) \<and>
    serve_all host_example [(8, c1, plain_os, 5, [''SET'', ''k'', ''v'']), (9, c1, plain_os, 6, [''SET'', ''j'', ''u''])] w1 = Some (out, w2) \<and>
    startReplication (\<lambda>_ _. False) (recover_cb host_example) zero_config (stream_to 7 (hs @ out))
      (\<lparr>db = newStore, srv = newServer (zero_config\<lparr>isReplica := True\<rparr>), aof = None\<rparr>, None) =
      Ret (handshake_messages zero_config, (v', None)) \<and> Get 9 ''k'' (db v') = (''v'', True) \<and> Get 9 ''j'' (db v') = (''u'', True)"
proof -
  let ?w = "\<lparr>db = newStore, srv = newServer zero_config, aof = None\<rparr>"
  let ?v = "\<lparr>db = newStore, srv = newServer (zero_config\<lparr>isReplica := True\<rparr>), aof = None\<rparr>"
  let ?w1 = "?w\<lparr>srv := (srv ?w)\<lparr>srv_replicas := add_replica 7 (srv_replicas (srv ?w))\<rparr>\<rparr>"
  let ?c = "open_conn ?w"
  let ?evs = "[(8, ?c, plain_os, 5, [''SET'', ''k'', ''v'']), (9, ?c, plain_os, 6, [''SET'', ''j'', ''u''])] :: served_event list"
  have c: "currentUser ?c \<noteq> None" "subscribed ?c = {}"
    by (simp_all add: open_conn_def newServer_def newAcl_def defaultIfNoPass_def)
  have p: "plain_client 7 ?c ?w" using c by (simp add: plain_client_def newStore_def zero_transaction_def)
  have l: "LF \<notin> set (replicationID (srv ?w))" by (simp add: newServer_def LF_def)
  have n: "list_all (\<lambda>rep. r_conn rep \<noteq> 7) (replicas (srv_replicas (srv ?w)))" by (simp add: newServer_def newReplicaSet_def)
  note hs = handshake_master [OF p, of plain_os host_example zero_config]
  have rs: "replicable (\<lambda>_ _. False) host_example [''SET'', x, y]" if "length x < 5" "length y < 5" for x y
    using that by (simp add: replicable_def writeCommands_def clock_free_def command_in_limits_def maxArrayLen_def maxBulkLength_def
        isGetAck_def EqualFold_def is_ascii_def)
  then have rep: "list_all (replicable_for 7 (\<lambda>_ _. False) host_example) ?evs" by (simp add: replicable_for_def)
  have serves: "\<exists>out w'. client_command plain_os (host_example\<lparr>clock := t\<rparr>) a [''SET'', x, y] ?c w = Continues out ?c w' \<and>
      db w' = Set x y zero_time (db w)" if "plain_client a ?c w" "length x < 5" "length y < 5" for a w t x y
    using replicable_command [OF that(1) rs [OF that(2,3)], of plain_os t]
    by (simp add: client_default_def SET_run after_command_def writeCommands_def split: prod.splits)
  have p1: "plain_client 8 ?c ?w1" using c by (simp add: plain_client_def newStore_def zero_transaction_def)
  from serves [OF this, of "''k''" "''v''" 5] obtain out1 w2 where
    s1: "client_command plain_os (host_example\<lparr>clock := 5\<rparr>) 8 [''SET'', ''k'', ''v''] ?c ?w1 = Continues out1 ?c w2"
    and d1: "db w2 = Set ''k'' ''v'' zero_time newStore" by auto
  have p2: "plain_client 9 ?c w2" using c by (simp add: plain_client_def d1 Set_def Let_def newStore_def zero_transaction_def)
  from serves [OF this, of "''j''" "''u''" 6] obtain out2 w3 where
    s2: "client_command plain_os (host_example\<lparr>clock := 6\<rparr>) 9 [''SET'', ''j'', ''u''] ?c w2 = Continues out2 ?c w3"
    and d2: "db w3 = Set ''j'' ''u'' zero_time (Set ''k'' ''v'' zero_time newStore)" by (auto simp: d1)
  have serve: "serve_all host_example ?evs ?w1 = Some (out1 @ out2, w3)" using p1 p2 s1 s2 by simp
  from replica_converges [OF p l n hs serve rep, of ?v] obtain v' where
    "startReplication (\<lambda>_ _. False) (recover_cb host_example) zero_config
      (stream_to 7 (map (\<lambda>m. (7, m)) (handshake_answers ?w) @ out1 @ out2)) (?v, None) = Ret (handshake_messages zero_config, (v', None))"
    and v': "db v' = db w3" by auto
  moreover have "Get 9 ''k'' (db v') = (''v'', True)" "Get 9 ''j'' (db v') = (''u'', True)"
    by (simp_all add: v' d2 Get_def Set_def Let_def zero_entry_def IsZero_def)
  ultimately show ?thesis using hs serve by blast
qed

end
