(* ===== verification/Follower.thy ===== *)
theory Follower
  imports Boot
begin

text \<open>
  The goroutine of \<open>startReplication\<close> (\<^verbatim>\<open>src/app/replication.go\<close>) beside the other goroutines of the process: where it
  stands, what it has received from the master and not yet read, and one read of it at a time. \<open>startReplication\<close> of
  \<open>Replication\<close> is the same code on everything the master ever sends; \<open>follows_repl_loop\<close> relates the two.
\<close>

section \<open>State\<close>

text \<open>
  It dials; it reads the four lines that answer its handshake (\<open>Lines n\<close>: \<open>n\<close> are left), the line with the length of the RDB
  file and the file; then it reads commands, or is inside one that blocks. \<open>fo_open\<close> says that the master has not closed the
  connection.
\<close>

datatype follow_at = Dialing | Lines nat | Header | Payload int | Streaming | Inside outcome

record follower =
  fo_at :: follow_at
  fo_buf :: bytes
  fo_offset :: int
  fo_open :: bool

definition new_follower :: follower where
  "new_follower = \<lparr>fo_at = Dialing, fo_buf = [], fo_offset = 0, fo_open = True\<rparr>"

text \<open>A read finds too little in the buffer, goes on, or the function returns or panics.\<close>

datatype follow_result = Starved | Follows follower world | FollowEnds | FollowPanics

section \<open>One read\<close>

definition follow_command :: "host \<Rightarrow> bytes list \<Rightarrow> follower \<Rightarrow> world \<Rightarrow> follow_result" where
  "follow_command h cmd fo w =
     (let fo' = fo\<lparr>fo_offset := wrap64 (fo_offset fo + int (length (encodeCommand cmd)))\<rparr>
      in if isGetAck (uni_fold h) cmd then Follows fo' w
         else (case run_data h cmd w of (out, w') \<Rightarrow>
                 (case out of
                    Crash \<Rightarrow> FollowPanics
                  | Answer r s \<Rightarrow> Follows fo' w'
                  | _ \<Rightarrow> Follows (fo'\<lparr>fo_at := Inside out\<rparr>) w')))"

definition follow_read :: "host \<Rightarrow> follower \<Rightarrow> world \<Rightarrow> follow_result" where
  "follow_read h fo w =
     (case fo_at fo of
        Dialing \<Rightarrow> Starved
      | Lines n \<Rightarrow>
          (case ReadBytes LF (fo_buf fo) of
             None \<Rightarrow> Starved
           | Some (line, r) \<Rightarrow> Follows (fo\<lparr>fo_buf := r, fo_at := if n \<le> 1 then Header else Lines (n - 1)\<rparr>) w)
      | Header \<Rightarrow>
          (case ReadBytes LF (fo_buf fo) of
             None \<Rightarrow> Starved
           | Some (header, r) \<Rightarrow>
               (case Atoi (TrimSpace (drop 1 header)) of (n, e) \<Rightarrow>
                  if e \<noteq> NoErr then FollowEnds
                  else if n < 0 \<or> maxAlloc < n then FollowPanics
                  else Follows (fo\<lparr>fo_buf := r, fo_at := Payload n\<rparr>) w))
      | Payload n \<Rightarrow>
          if int (length (fo_buf fo)) < n then Starved
          else Follows (fo\<lparr>fo_buf := drop (nat n) (fo_buf fo), fo_at := Streaming\<rparr>) w
      | Streaming \<Rightarrow>
          (case ReadCommand (fo_buf fo) of
             Inl (ProtocolError m) \<Rightarrow> FollowEnds
           | Inl _ \<Rightarrow> Starved
           | Inr (cmd, r) \<Rightarrow> follow_command h cmd (fo\<lparr>fo_buf := r\<rparr>) w)
      | Inside out \<Rightarrow> Starved)"

text \<open>A command of the master that blocks waits in the same select statements as one of a client.\<close>

definition follow_wake :: "wake \<Rightarrow> follower \<Rightarrow> world \<Rightarrow> follow_result" where
  "follow_wake wk fo w =
     (case fo_at fo of
        Inside out \<Rightarrow>
          (case outcome_wakes wk out (db w) of
             Asleep \<Rightarrow> Starved
           | WakePanics \<Rightarrow> FollowPanics
           | WaitsAgain out' \<Rightarrow> Follows (fo\<lparr>fo_at := Inside out'\<rparr>) w
           | Answers r s \<Rightarrow> Follows (fo\<lparr>fo_at := Streaming\<rparr>) (w\<lparr>db := s\<rparr>))
      | _ \<Rightarrow> Starved)"

fun stuck_inside :: "follow_at \<Rightarrow> bool" where
  "stuck_inside (Inside (Stuck ch)) = True"
| "stuck_inside _ = False"

section \<open>Read by read, the same as all at once\<close>

inductive follows :: "host \<Rightarrow> follower \<Rightarrow> world \<Rightarrow> follower \<Rightarrow> world \<Rightarrow> bool" for h where
  here: "follows h fo w fo w"
| further: "follow_read h fo w = Follows fo1 w1 \<Longrightarrow> follows h fo1 w1 fo2 w2 \<Longrightarrow> follows h fo w fo2 w2"

lemma repl_loop_stopped:
  "repl_loop uni (recover_cb h) r off (w, Some out) = Ret (acks, o', st) \<Longrightarrow> st = (w, Some out)"
proof (induction "length r" arbitrary: r off acks rule: less_induct)
  case less
  show ?case
  proof (cases "ReadCommand r")
    case (Inl e)
    then show ?thesis using less.prems by (simp add: repl_loop.simps [of uni _ r])
  next
    case (Inr p)
    obtain cmd r' where p: "p = (cmd, r')" by (cases p)
    then have "length r' < length r" using Inr ReadCommand_shorter by blast
    from less.hyps [OF this] less.prems Inr p show ?thesis
      by (auto simp: repl_loop.simps [of uni _ r] recover_cb_def Let_def go_bind_eq_Ret split: if_splits)
  qed
qed

lemma follows_repl_loop:
  assumes "fo_at fo = Streaming"
    and "repl_loop (uni_fold h) (recover_cb h) (fo_buf fo) (fo_offset fo) (w, None) = Ret (acks, off, (w', None))"
  shows "\<exists>fo' e. follows h fo w fo' w' \<and> fo_at fo' = Streaming \<and> fo_offset fo' = off \<and> ReadCommand (fo_buf fo') = Inl e"
  using assms
proof (induction "length (fo_buf fo)" arbitrary: fo w acks rule: less_induct)
  case less
  note loop = less.prems(2) [unfolded repl_loop.simps [of _ _ "fo_buf fo"]]
  show ?case
  proof (cases "ReadCommand (fo_buf fo)")
    case (Inl e)
    then have "w' = w" "off = fo_offset fo" using loop by simp_all
    then show ?thesis using Inl less.prems(1) follows.here by blast
  next
    case (Inr p)
    obtain cmd r where p: "p = (cmd, r)" by (cases p)
    let ?off = "wrap64 (fo_offset fo + int (length (encodeCommand cmd)))"
    let ?fo = "fo\<lparr>fo_buf := r, fo_offset := ?off\<rparr>"
    have shorter: "length (fo_buf ?fo) < length (fo_buf fo)" using Inr p ReadCommand_shorter by simp
    obtain w1 acks1 where rd: "follow_read h fo w = Follows ?fo w1"
      and rest: "repl_loop (uni_fold h) (recover_cb h) r ?off (w1, None) = Ret (acks1, off, (w', None))"
    proof (cases "isGetAck (uni_fold h) cmd")
      case True
      then show ?thesis
        using that [of w] loop less.prems(1) Inr p by (auto simp: follow_read_def follow_command_def Let_def go_bind_eq_Ret)
    next
      case False
      obtain out w1 where run: "run_data h cmd w = (out, w1)" by fastforce
      have "\<exists>r s. out = Answer r s"
        using loop Inr p False run
        by (cases out) (auto simp: recover_cb_run Let_def go_bind_eq_Ret dest!: repl_loop_stopped)
      then show ?thesis
        using that [of w1] loop less.prems(1) Inr p False run
        by (auto simp: follow_read_def follow_command_def recover_cb_run Let_def go_bind_eq_Ret)
    qed
    from less.hyps [OF shorter, of w1 acks1] rest less.prems(1) rd show ?thesis
      by (auto intro: follows.further)
  qed
qed

end
