(* ===== verification/Shutdown.thy ===== *)
theory Shutdown
  imports ClientProps Follower
begin

text \<open>
  The life of the process after it has started: the accept loop, the signal handler and the end of \<open>main\<close>
  (\<^verbatim>\<open>src/app/main.go\<close>), the sweeper goroutine (\<open>startSweeper\<close> of \<^verbatim>\<open>src/app/store.go\<close>), the goroutine that watches the
  context of a connection (\<^verbatim>\<open>src/app/client.go\<close>) and the goroutine of \<open>startReplication\<close> (\<open>Follower\<close>). A write of a client is
  three steps, as in the code: \<open>handleCommands\<close>, the propagation to the replicas and the append to the file. Every other
  command of a connection, EXEC with its whole queue included, is one step.
\<close>

section \<open>The sections of an iteration\<close>

text \<open>
  The first section of an iteration of \<open>handleClient\<close>, and of the rest of one after a wake-up: what it does, and the write that is
  still to be propagated and appended.
\<close>

definition client_first :: "os \<Rightarrow> host \<Rightarrow> connid \<Rightarrow> bytes list \<Rightarrow> conn \<Rightarrow> world \<Rightarrow> client_result \<times> bytes list option" where
  "client_first os h self cmd c w =
     (let nm = ToUpper (uni_upper h) (cmd ! 0)
      in if cmd \<noteq> [] \<and> reaches_switch self nm cmd c w \<and> is_data nm
         then (case run_data h cmd w of (out, w1) \<Rightarrow>
                 (case out of
                    Crash \<Rightarrow> (Panics, None)
                  | Answer r s \<Rightarrow> (Continues [(self, r)] c w1, if writeCommands nm then Some cmd else None)
                  | _ \<Rightarrow> (Blocks [] (InCommand out nm cmd) c w1, None)))
         else (client_command os h self cmd c w, None))"

definition client_woken :: "os \<Rightarrow> host \<Rightarrow> wake \<Rightarrow> connid \<Rightarrow> blocked \<Rightarrow> conn \<Rightarrow> world
    \<Rightarrow> (client_result \<times> bytes list option) option" where
  "client_woken os h wk self b c w =
     (case b of
        InCommand out nm cmd \<Rightarrow>
          (case outcome_wakes wk out (db w) of
             Answers r s \<Rightarrow> Some (Continues [(self, r)] c (w\<lparr>db := s\<rparr>), if writeCommands nm then Some cmd else None)
           | _ \<Rightarrow> map_option (\<lambda>res. (res, None)) (client_resume os h wk self b c w))
      | _ \<Rightarrow> map_option (\<lambda>res. (res, None)) (client_resume os h wk self b c w))"

text \<open>With the other two sections at once the iteration is that of \<open>client_command\<close> and \<open>client_resume\<close>.\<close>

fun finish_write :: "os \<Rightarrow> client_result \<times> bytes list option \<Rightarrow> client_result" where
  "finish_write os (Continues out c w, Some cmd) =
     (case propagate cmd (srv_replicas (srv w)) of (sent, r) \<Rightarrow>
        Continues (out @ sent) c (w\<lparr>srv := (srv w)\<lparr>srv_replicas := r\<rparr>,
          aof := snd (Append (os_write os) (os_sync os) (EncodeRaw cmd) (aof w))\<rparr>))"
| "finish_write os (res, p) = res"

lemma finish_write_None [simp]: "finish_write os (res, None) = res"
  by (cases res) simp_all

lemma client_first_sections: "client_command os h self cmd c w = finish_write os (client_first os h self cmd c w)"
proof (cases "cmd \<noteq> [] \<and> reaches_switch self (ToUpper (uni_upper h) (cmd ! 0)) cmd c w \<and> is_data (ToUpper (uni_upper h) (cmd ! 0))")
  case True
  let ?nm = "ToUpper (uni_upper h) (cmd ! 0)"
  have "client_command os h self cmd c w = client_switch os h self ?nm cmd c w"
    using True client_command_eq [OF _ refl, of cmd os h self c w] by (auto simp: reaches_switch_def)
  also have "\<dots> = client_default os h self ?nm cmd c w" using True by (simp add: client_switch_def is_data_def)
  finally have cmd: "client_command os h self cmd c w = client_default os h self ?nm cmd c w" .
  obtain out w1 where run: "run_data h cmd w = (out, w1)" by fastforce
  show ?thesis
    using True by (cases out) (auto simp: cmd client_first_def client_default_def run after_command_def split: prod.splits)
qed (auto simp: client_first_def)

lemma client_woken_sections:
  "client_resume os h wk self b c w = map_option (finish_write os) (client_woken os h wk self b c w)"
proof (cases b)
  case (InCommand out nm cmd)
  show ?thesis
    by (cases "outcome_wakes wk out (db w)") (auto simp: InCommand client_woken_def after_command_def split: prod.splits)
qed (simp_all add: client_woken_def option.map_comp comp_def option.map_ident)

section \<open>State\<close>

text \<open>
  A connection: what its buffered reader has taken from the socket and not yet parsed, whether the watcher has
  set the read deadline, the variables of \<open>handleClient\<close>, and where it stands: at the read, within a command that blocks, or
  with a write that is applied and not yet propagated or not yet appended.
\<close>

datatype stage = Reading | Within blocked | ToPropagate "bytes list" | ToAppend "bytes list"

record client =
  cl_buf :: bytes
  cl_deadline :: bool
  cl_conn :: conn
  cl_stage :: stage

text \<open>\<open>main\<close> accepts, waits for the wait group, has returned, or the process has panicked.\<close>

datatype main_at = Accepting | Draining | Exited | Died

record proc =
  ctx_done :: bool
  listening :: bool
  main_pc :: main_at
  sweeper :: bool
  replicator :: "follower option"
  clients :: "connid \<rightharpoonup> client"
  opened :: "connid set"
  mem :: world

datatype proc_event =
  Signal | CloseListener | Accept connid | AcceptFails | StopAccepting | ReturnMain
| Tick host | StopSweeper
| DialFails | MasterAccepts | MasterSends bytes | MasterCloses | HandshakeFails | Follow host | FollowWakes wake | FollowFails
| Receive connid bytes | Serve connid os host | Propagate connid | AppendLog connid os | Hangup connid | SetDeadline connid
| ReadFails connid | Wake connid wake os host

definition alive :: "proc \<Rightarrow> bool" where
  "alive \<sigma> \<longleftrightarrow> main_pc \<sigma> = Accepting \<or> main_pc \<sigma> = Draining"

text \<open>
  A push that is stuck holds the mutex of the store for ever. No other command runs after it; those few that do not
  need the mutex are held up with the rest.
\<close>

fun holds_mutex :: "blocked \<Rightarrow> bool" where
  "holds_mutex (InCommand (Stuck ch) nm cmd) = True"
| "holds_mutex (InExec (Stuck ch) cmds) = True"
| "holds_mutex _ = False"

definition blocked_in :: "proc \<Rightarrow> connid \<Rightarrow> blocked \<Rightarrow> bool" where
  "blocked_in \<sigma> a b \<longleftrightarrow> (\<exists>cl. clients \<sigma> a = Some cl \<and> cl_stage cl = Within b)"

definition store_free :: "proc \<Rightarrow> bool" where
  "store_free \<sigma> \<longleftrightarrow> (\<forall>a b. blocked_in \<sigma> a b \<longrightarrow> \<not> holds_mutex b) \<and>
     (case replicator \<sigma> of None \<Rightarrow> True | Some fo \<Rightarrow> \<not> stuck_inside (fo_at fo))"

section \<open>Steps\<close>

text \<open>One round of the loop of \<open>startSweeper\<close>: the ticker fires, or the context ends.\<close>

definition sweep :: "host \<Rightarrow> proc \<Rightarrow> proc" where
  "sweep h \<sigma> = \<sigma>\<lparr>mem := (mem \<sigma>)\<lparr>db := evictExpired (map_order h) (clock h) (db (mem \<sigma>))\<rparr>\<rparr>"

text \<open>
  \<open>Accept\<close> has failed. The handler of the signal cancels the context before it closes the listener, so the loop ends when the
  listener is closed; any other failure ends it only when the context is done.
\<close>

definition accept_error :: "proc \<Rightarrow> proc" where
  "accept_error \<sigma> = (if ctx_done \<sigma> then \<sigma>\<lparr>main_pc := Draining\<rparr> else \<sigma>)"

definition new_client :: "world \<Rightarrow> client" where
  "new_client w = \<lparr>cl_buf = [], cl_deadline = False, cl_conn = open_conn w, cl_stage = Reading\<rparr>"

text \<open>The goroutine of a connection returns; the deferred call takes it out of the replicas.\<close>

definition leave :: "connid \<Rightarrow> proc \<Rightarrow> proc" where
  "leave a \<sigma> = \<sigma>\<lparr>clients := (clients \<sigma>)(a := None),
     mem := (mem \<sigma>)\<lparr>srv := (srv (mem \<sigma>))\<lparr>srv_replicas := remove_replica a (srv_replicas (srv (mem \<sigma>)))\<rparr>\<rparr>\<rparr>"

text \<open>What the first section of an iteration, or of the rest of one, does to the process.\<close>

fun iterate :: "connid \<Rightarrow> client \<Rightarrow> client_result \<times> bytes list option \<Rightarrow> proc \<Rightarrow> proc" where
  "iterate a cl (Continues out c w, p) \<sigma> = \<sigma>\<lparr>clients := (clients \<sigma>)(a \<mapsto> cl\<lparr>cl_conn := c,
     cl_stage := case p of None \<Rightarrow> Reading | Some cmd \<Rightarrow> ToPropagate cmd\<rparr>), mem := w\<rparr>"
| "iterate a cl (Blocks out b c w, p) \<sigma> = \<sigma>\<lparr>clients := (clients \<sigma>)(a \<mapsto> cl\<lparr>cl_conn := c, cl_stage := Within b\<rparr>), mem := w\<rparr>"
| "iterate a cl (Panics, p) \<sigma> = \<sigma>\<lparr>main_pc := Died\<rparr>"

text \<open>What a read of the replication goroutine does to it.\<close>

fun followed :: "follow_result \<Rightarrow> proc \<Rightarrow> proc" where
  "followed Starved \<sigma> = \<sigma>"
| "followed (Follows fo w) \<sigma> = \<sigma>\<lparr>replicator := Some fo, mem := w\<rparr>"
| "followed FollowEnds \<sigma> = \<sigma>\<lparr>replicator := None\<rparr>"
| "followed FollowPanics \<sigma> = \<sigma>\<lparr>main_pc := Died\<rparr>"

inductive proc_step :: "proc \<Rightarrow> proc_event \<Rightarrow> proc \<Rightarrow> bool" where
  signal: "alive \<sigma> \<Longrightarrow> \<not> ctx_done \<sigma> \<Longrightarrow> proc_step \<sigma> Signal (\<sigma>\<lparr>ctx_done := True\<rparr>)"
| close_listener: "alive \<sigma> \<Longrightarrow> ctx_done \<sigma> \<Longrightarrow> listening \<sigma> \<Longrightarrow> proc_step \<sigma> CloseListener (\<sigma>\<lparr>listening := False\<rparr>)"
| accept: "main_pc \<sigma> = Accepting \<Longrightarrow> listening \<sigma> \<Longrightarrow> a \<notin> opened \<sigma> \<Longrightarrow>
    proc_step \<sigma> (Accept a) (\<sigma>\<lparr>clients := (clients \<sigma>)(a \<mapsto> new_client (mem \<sigma>)), opened := insert a (opened \<sigma>),
      mem := on_tx a (\<lambda>_. zero_transaction) (mem \<sigma>)\<rparr>)"
| accept_fails: "main_pc \<sigma> = Accepting \<Longrightarrow> listening \<sigma> \<Longrightarrow> proc_step \<sigma> AcceptFails (accept_error \<sigma>)"
| stop_accepting: "main_pc \<sigma> = Accepting \<Longrightarrow> \<not> listening \<sigma> \<Longrightarrow> proc_step \<sigma> StopAccepting (accept_error \<sigma>)"
| return_main: "main_pc \<sigma> = Draining \<Longrightarrow> \<not> sweeper \<sigma> \<Longrightarrow> replicator \<sigma> = None \<Longrightarrow> clients \<sigma> = Map.empty \<Longrightarrow>
    proc_step \<sigma> ReturnMain (\<sigma>\<lparr>main_pc := Exited\<rparr>)"
| tick: "alive \<sigma> \<Longrightarrow> sweeper \<sigma> \<Longrightarrow> store_free \<sigma> \<Longrightarrow> proc_step \<sigma> (Tick h) (sweep h \<sigma>)"
| stop_sweeper: "alive \<sigma> \<Longrightarrow> sweeper \<sigma> \<Longrightarrow> ctx_done \<sigma> \<Longrightarrow> proc_step \<sigma> StopSweeper (\<sigma>\<lparr>sweeper := False\<rparr>)"
| dial_fails: "alive \<sigma> \<Longrightarrow> replicator \<sigma> = Some fo \<Longrightarrow> fo_at fo = Dialing \<Longrightarrow> proc_step \<sigma> DialFails (\<sigma>\<lparr>replicator := None\<rparr>)"
| master_accepts: "alive \<sigma> \<Longrightarrow> replicator \<sigma> = Some fo \<Longrightarrow> fo_at fo = Dialing \<Longrightarrow>
    proc_step \<sigma> MasterAccepts (\<sigma>\<lparr>replicator := Some (fo\<lparr>fo_at := Lines 4\<rparr>)\<rparr>)"
| master_sends: "alive \<sigma> \<Longrightarrow> replicator \<sigma> = Some fo \<Longrightarrow> fo_at fo \<noteq> Dialing \<Longrightarrow> fo_open fo \<Longrightarrow>
    proc_step \<sigma> (MasterSends bs) (\<sigma>\<lparr>replicator := Some (fo\<lparr>fo_buf := fo_buf fo @ bs\<rparr>)\<rparr>)"
| master_closes: "alive \<sigma> \<Longrightarrow> replicator \<sigma> = Some fo \<Longrightarrow> fo_at fo \<noteq> Dialing \<Longrightarrow>
    proc_step \<sigma> MasterCloses (\<sigma>\<lparr>replicator := Some (fo\<lparr>fo_open := False\<rparr>)\<rparr>)"
| handshake_fails: "alive \<sigma> \<Longrightarrow> replicator \<sigma> = Some fo \<Longrightarrow> fo_at fo = Lines n \<Longrightarrow>
    proc_step \<sigma> HandshakeFails (\<sigma>\<lparr>replicator := None\<rparr>)"
| follow: "alive \<sigma> \<Longrightarrow> store_free \<sigma> \<Longrightarrow> replicator \<sigma> = Some fo \<Longrightarrow> proc_step \<sigma> (Follow h) (followed (follow_read h fo (mem \<sigma>)) \<sigma>)"
| follow_wakes: "alive \<sigma> \<Longrightarrow> store_free \<sigma> \<Longrightarrow> replicator \<sigma> = Some fo \<Longrightarrow> wk = Cancelled \<longrightarrow> ctx_done \<sigma> \<Longrightarrow>
    proc_step \<sigma> (FollowWakes wk) (followed (follow_wake wk fo (mem \<sigma>)) \<sigma>)"
| follow_fails: "alive \<sigma> \<Longrightarrow> replicator \<sigma> = Some fo \<Longrightarrow> \<not> fo_open fo \<Longrightarrow> (\<And>out. fo_at fo \<noteq> Inside out) \<Longrightarrow>
    follow_read h fo (mem \<sigma>) = Starved \<Longrightarrow> proc_step \<sigma> FollowFails (\<sigma>\<lparr>replicator := None\<rparr>)"
| receive: "alive \<sigma> \<Longrightarrow> clients \<sigma> a = Some cl \<Longrightarrow> \<not> cl_deadline cl \<Longrightarrow>
    proc_step \<sigma> (Receive a bs) (\<sigma>\<lparr>clients := (clients \<sigma>)(a \<mapsto> cl\<lparr>cl_buf := cl_buf cl @ bs\<rparr>)\<rparr>)"
| serve: "alive \<sigma> \<Longrightarrow> store_free \<sigma> \<Longrightarrow> clients \<sigma> a = Some cl \<Longrightarrow> cl_stage cl = Reading \<Longrightarrow> ReadCommand (cl_buf cl) = Inr (cmd, rest) \<Longrightarrow>
    proc_step \<sigma> (Serve a os h)
      (iterate a (cl\<lparr>cl_buf := rest\<rparr>) (client_first os h a cmd (cl_conn cl) (mem \<sigma>)) \<sigma>)"
| propagate_write: "alive \<sigma> \<Longrightarrow> clients \<sigma> a = Some cl \<Longrightarrow> cl_stage cl = ToPropagate cmd \<Longrightarrow>
    propagate cmd (srv_replicas (srv (mem \<sigma>))) = (sent, r) \<Longrightarrow>
    proc_step \<sigma> (Propagate a) (\<sigma>\<lparr>clients := (clients \<sigma>)(a \<mapsto> cl\<lparr>cl_stage := ToAppend cmd\<rparr>),
      mem := (mem \<sigma>)\<lparr>srv := (srv (mem \<sigma>))\<lparr>srv_replicas := r\<rparr>\<rparr>\<rparr>)"
| append_write: "alive \<sigma> \<Longrightarrow> clients \<sigma> a = Some cl \<Longrightarrow> cl_stage cl = ToAppend cmd \<Longrightarrow>
    proc_step \<sigma> (AppendLog a os) (\<sigma>\<lparr>clients := (clients \<sigma>)(a \<mapsto> cl\<lparr>cl_stage := Reading\<rparr>),
      mem := (mem \<sigma>)\<lparr>aof := snd (Append (os_write os) (os_sync os) (EncodeRaw cmd) (aof (mem \<sigma>)))\<rparr>\<rparr>)"
| hangup: "alive \<sigma> \<Longrightarrow> clients \<sigma> a = Some cl \<Longrightarrow> cl_stage cl = Reading \<Longrightarrow> ReadCommand (cl_buf cl) = Inl e \<Longrightarrow>
    proc_step \<sigma> (Hangup a) (leave a \<sigma>)"
| set_deadline: "alive \<sigma> \<Longrightarrow> ctx_done \<sigma> \<Longrightarrow> clients \<sigma> a = Some cl \<Longrightarrow>
    proc_step \<sigma> (SetDeadline a) (\<sigma>\<lparr>clients := (clients \<sigma>)(a \<mapsto> cl\<lparr>cl_deadline := True\<rparr>)\<rparr>)"
| read_fails: "alive \<sigma> \<Longrightarrow> clients \<sigma> a = Some cl \<Longrightarrow> cl_stage cl = Reading \<Longrightarrow> cl_deadline cl \<Longrightarrow>
    ReadCommand (cl_buf cl) = Inl e \<Longrightarrow> proc_step \<sigma> (ReadFails a) (leave a \<sigma>)"
| wake: "alive \<sigma> \<Longrightarrow> store_free \<sigma> \<Longrightarrow> clients \<sigma> a = Some cl \<Longrightarrow> cl_stage cl = Within b \<Longrightarrow> wk = Cancelled \<longrightarrow> ctx_done \<sigma> \<Longrightarrow>
    client_woken os h wk a b (cl_conn cl) (mem \<sigma>) = Some res \<Longrightarrow>
    proc_step \<sigma> (Wake a wk os h) (iterate a cl res \<sigma>)"

text \<open>The process when it begins to listen.\<close>

definition started :: "config \<Rightarrow> world \<Rightarrow> proc" where
  "started cfg w = \<lparr>ctx_done = False, listening = True, main_pc = Accepting, sweeper = True, replicator = (if isReplica cfg then Some new_follower else None), clients = Map.empty, opened = {}, mem = w\<rparr>"

section \<open>Invariants\<close>

text \<open>What holds from the start: finitely many connections, a replicator only on a replica, and nothing left after the end.\<close>

definition proc_inv :: "config \<Rightarrow> proc \<Rightarrow> bool" where
  "proc_inv cfg \<sigma> \<longleftrightarrow> finite (dom (clients \<sigma>)) \<and> (replicator \<sigma> \<noteq> None \<longrightarrow> isReplica cfg) \<and> (main_pc \<sigma> = Draining \<longrightarrow> ctx_done \<sigma>) \<and>
     (\<not> listening \<sigma> \<longrightarrow> ctx_done \<sigma>) \<and> (main_pc \<sigma> = Exited \<longrightarrow> ctx_done \<sigma> \<and> clients \<sigma> = Map.empty \<and> \<not> sweeper \<sigma> \<and> replicator \<sigma> = None)"

lemma iterate_frame:
  "dom (clients (iterate a cl res \<sigma>)) \<subseteq> insert a (dom (clients \<sigma>))" "ctx_done (iterate a cl res \<sigma>) = ctx_done \<sigma>"
  "replicator (iterate a cl res \<sigma>) = replicator \<sigma>" "sweeper (iterate a cl res \<sigma>) = sweeper \<sigma>"
  "main_pc (iterate a cl res \<sigma>) = (if fst res = Panics then Died else main_pc \<sigma>)" "listening (iterate a cl res \<sigma>) = listening \<sigma>"
  "c \<noteq> a \<Longrightarrow> clients (iterate a cl res \<sigma>) c = clients \<sigma> c"
  by (induction a cl res \<sigma> rule: iterate.induct) auto

lemma followed_frame:
  "clients (followed res \<sigma>) = clients \<sigma>" "ctx_done (followed res \<sigma>) = ctx_done \<sigma>" "sweeper (followed res \<sigma>) = sweeper \<sigma>"
  "listening (followed res \<sigma>) = listening \<sigma>" "main_pc (followed res \<sigma>) = (if res = FollowPanics then Died else main_pc \<sigma>)"
  by (cases res; simp)+

lemma finite_iterate: "finite (dom (clients \<sigma>)) \<Longrightarrow> finite (dom (clients (iterate a cl res \<sigma>)))"
  using iterate_frame(1) by (metis finite.insertI rev_finite_subset)

interpretation process: step_invariant "\<lambda>\<sigma>. \<exists>w. \<sigma> = started cfg w" proc_step "proc_inv cfg" for cfg
proof unfold_locales
  show "proc_inv cfg \<sigma>" if "\<exists>w. \<sigma> = started cfg w" for \<sigma>
    using that by (auto simp: proc_inv_def started_def split: if_splits)
  show "proc_inv cfg \<sigma>'" if "proc_inv cfg \<sigma>" "proc_step \<sigma> e \<sigma>'" for \<sigma> e \<sigma>'
    using that(2,1)
    by (induction rule: proc_step.induct) (auto simp: proc_inv_def alive_def leave_def sweep_def accept_error_def finite_iterate iterate_frame(2-6) followed_frame)
qed

section \<open>Draining\<close>

text \<open>What the server does of its own: no new connection, no bytes from a client or the master, no push that wakes a reader.\<close>

fun of_its_own :: "proc_event \<Rightarrow> bool" where
  "of_its_own (Serve a os h) = True"
| "of_its_own (Propagate a) = True"
| "of_its_own (AppendLog a os) = True"
| "of_its_own (SetDeadline a) = True"
| "of_its_own (ReadFails a) = True"
| "of_its_own (Wake a wk os h) = (wk \<noteq> Message)"
| "of_its_own e = (e \<in> {CloseListener, StopAccepting, StopSweeper, ReturnMain})"

text \<open>Something that the end of the context does not interrupt.\<close>

definition held_up :: "proc \<Rightarrow> bool" where
  "held_up \<sigma> \<longleftrightarrow> (\<exists>a b. blocked_in \<sigma> a b \<and> \<not> interruptible b (db (mem \<sigma>)))"

lemma held_up_free: "\<not> held_up \<sigma> \<Longrightarrow> replicator \<sigma> = None \<Longrightarrow> store_free \<sigma>"
proof -
  have "holds_mutex b \<Longrightarrow> \<not> interruptible b s" for b s
    by (induction b rule: holds_mutex.induct) (simp_all add: outcome_wakes_def)
  then show "\<not> held_up \<sigma> \<Longrightarrow> replicator \<sigma> = None \<Longrightarrow> store_free \<sigma>" by (auto simp: held_up_def store_free_def)
qed

lemma exec_queued_shorter: "exec_queued h a cmds w = Ret (rs, Some (out, rest), w') \<Longrightarrow> length rest < length cmds"
proof (induction cmds arbitrary: w rs)
  case (Cons cmd cmds)
  obtain res w1 where run: "run_data h cmd w = (res, w1)" by fastforce
  show ?case
  proof (cases res)
    case (Answer r s)
    then obtain rs1 where "exec_queued h a cmds w1 = Ret (rs1, Some (out, rest), w')"
      using Cons.prems run by (auto simp: go_bind_eq_Ret)
    from Cons.IH [OF this] show ?thesis by simp
  qed (use Cons.prems run in auto)
qed simp

fun left_in_exec :: "blocked \<Rightarrow> nat" where
  "left_in_exec (InExec out cmds) = Suc (length cmds)"
| "left_in_exec _ = 0"

lemma ending_progress:
  assumes "client_resume os h (ending b) a b c w = Some (Blocks out b' c' w')"
  shows "left_in_exec b' < left_in_exec b"
proof (cases b)
  case (InExec res cmds)
  then obtain r s where "outcome_wakes Cancelled res (db w) = Answers r s"
    and "before_result [(a, r)] (exec_rest h a cmds c (w\<lparr>db := s\<rparr>)) = Blocks out b' c' w'"
    using assms cancelled_not_again [of res "db w"] by (auto split: wakeup.splits)
  then obtain rs out' rest where "exec_queued h a cmds (w\<lparr>db := s\<rparr>) = Ret (rs, Some (out', rest), w')" "b' = InExec out' rest"
    by (auto simp: exec_rest_def split: go.splits option.splits prod.splits)
  with exec_queued_shorter InExec show ?thesis by fastforce
next
  case (InCommand res nm cmd)
  then show ?thesis using assms cancelled_not_again [of res "db w"] by (auto split: wakeup.splits prod.splits)
qed (use assms in \<open>auto simp: wait_wakes_def split: if_splits\<close>)

lemma woken_progress:
  assumes "client_woken os h (ending b) a b c w = Some (Blocks out b' c' w', p)"
  shows "left_in_exec b' < left_in_exec b"
  using assms by (intro ending_progress [of os h b a c w out b' c' w']) (simp add: client_woken_sections)

lemma interruptible_woken: "interruptible b (db w) \<Longrightarrow> \<exists>res. client_woken os h (ending b) self b c w = Some res"
  using interruptible_resumes [of b w os h self c] by (auto simp: client_woken_sections)

text \<open>The process is stopping, and only connection \<open>a\<close> has changed.\<close>

definition stopping :: "proc \<Rightarrow> bool" where
  "stopping \<sigma> \<longleftrightarrow> alive \<sigma> \<and> ctx_done \<sigma> \<and> replicator \<sigma> = None"

definition same_but :: "connid \<Rightarrow> proc \<Rightarrow> proc \<Rightarrow> bool" where
  "same_but a \<sigma> \<sigma>' \<longleftrightarrow> stopping \<sigma>' \<and> sweeper \<sigma>' = sweeper \<sigma> \<and>
     (\<forall>c. c \<noteq> a \<longrightarrow> clients \<sigma>' c = clients \<sigma> c)"

lemma same_but_refl: "stopping \<sigma> \<Longrightarrow> same_but a \<sigma> \<sigma>"
  by (simp add: same_but_def)

lemma same_but_trans: "same_but a \<sigma> \<tau> \<Longrightarrow> same_but a \<tau> \<upsilon> \<Longrightarrow> same_but a \<sigma> \<upsilon>"
  by (simp add: same_but_def)

lemma same_but_iterate: "stopping \<sigma> \<Longrightarrow> fst res \<noteq> Panics \<Longrightarrow> same_but a \<sigma> (iterate a cl res \<sigma>)"
  by (simp add: same_but_def stopping_def alive_def iterate_frame)

lemma same_but_clients: "stopping \<sigma> \<Longrightarrow> same_but a \<sigma> (\<sigma>\<lparr>clients := (clients \<sigma>)(a := x)\<rparr>)"
  by (simp add: same_but_def stopping_def alive_def)

lemma same_but_leave: "stopping \<sigma> \<Longrightarrow> same_but a \<sigma> (leave a \<sigma>)"
  by (simp add: same_but_def stopping_def alive_def leave_def)

definition can_reach :: "proc \<Rightarrow> (proc \<Rightarrow> bool) \<Rightarrow> bool" where
  "can_reach \<sigma> P \<longleftrightarrow> (\<exists>es \<sigma>'. run_of proc_step \<sigma> es \<sigma>' \<and> list_all of_its_own es \<and> P \<sigma>')"

abbreviation given_up :: "proc \<Rightarrow> bool" where "given_up \<sigma> \<equiv> main_pc \<sigma> = Died \<or> held_up \<sigma>"

lemma can_reach_now: "P \<sigma> \<Longrightarrow> can_reach \<sigma> P"
  unfolding can_reach_def by (intro exI [of _ "[]"] exI [of _ \<sigma>]) simp

lemma can_reach_step: "proc_step \<sigma> e \<sigma>1 \<Longrightarrow> can_reach \<sigma>1 P \<Longrightarrow> of_its_own e \<Longrightarrow> can_reach \<sigma> P"
  unfolding can_reach_def using run_of.run_cons by (metis list.pred_inject(2))

lemma run_of_append: "run_of step s es t \<Longrightarrow> run_of step t fs u \<Longrightarrow> run_of step s (es @ fs) u"
  by (induction rule: run_of.induct) (auto intro: run_of.run_cons)

lemma can_reach_trans: "can_reach \<sigma> P \<Longrightarrow> (\<And>\<sigma>'. P \<sigma>' \<Longrightarrow> can_reach \<sigma>' Q) \<Longrightarrow> can_reach \<sigma> Q"
  unfolding can_reach_def using run_of_append by (metis list_all_append)

text \<open>Goals of the form: given up, or only \<open>a\<close> has changed and its connection is as \<open>C\<close> says.\<close>

definition brings :: "connid \<Rightarrow> proc \<Rightarrow> (client option \<Rightarrow> bool) \<Rightarrow> proc \<Rightarrow> bool" where
  "brings a \<sigma> C \<sigma>' \<longleftrightarrow> given_up \<sigma>' \<or> same_but a \<sigma> \<sigma>' \<and> C (clients \<sigma>' a)"

lemma brings_from:
  assumes "can_reach \<tau> (brings a \<tau> C)" and "same_but a \<sigma> \<tau>"
  shows "can_reach \<tau> (brings a \<sigma> C)"
  using assms(1)
proof (rule can_reach_trans)
  show "can_reach \<upsilon> (brings a \<sigma> C)" if "brings a \<tau> C \<upsilon>" for \<upsilon>
    using that same_but_trans [OF assms(2)] by (intro can_reach_now) (auto simp: brings_def)
qed

lemma given_up_brings: "given_up \<sigma>' \<Longrightarrow> can_reach \<sigma>' (brings a \<sigma> C)"
  by (intro can_reach_now) (simp add: brings_def)

text \<open>An iteration that ends, blocks or panics.\<close>

definition idle_with :: "bytes \<Rightarrow> client option \<Rightarrow> bool" where
  "idle_with buf x \<longleftrightarrow> (\<exists>cl. x = Some cl \<and> cl_stage cl = Reading \<and> cl_buf cl = buf)"

text \<open>A write in flight is propagated and appended.\<close>

lemma settle_append:
  assumes "stopping \<sigma>" and "clients \<sigma> a = Some cl" and "cl_stage cl = ToAppend cmd"
  shows "can_reach \<sigma> (brings a \<sigma> (idle_with (cl_buf cl)))"
proof -
  let ?\<tau> = "\<sigma>\<lparr>clients := (clients \<sigma>)(a \<mapsto> cl\<lparr>cl_stage := Reading\<rparr>),
      mem := (mem \<sigma>)\<lparr>aof := snd (Append (os_write plain_os) (os_sync plain_os) (EncodeRaw cmd) (aof (mem \<sigma>)))\<rparr>\<rparr>"
  have "proc_step \<sigma> (AppendLog a plain_os) ?\<tau>" using assms by (intro proc_step.append_write) (simp_all add: stopping_def)
  moreover have "can_reach ?\<tau> (brings a \<sigma> (idle_with (cl_buf cl)))"
    using assms(1) by (intro can_reach_now) (simp add: brings_def same_but_def stopping_def alive_def idle_with_def)
  ultimately show ?thesis by (rule can_reach_step) simp
qed

lemma settle_propagate:
  assumes "stopping \<sigma>" and "clients \<sigma> a = Some cl" and "cl_stage cl = ToPropagate cmd"
  shows "can_reach \<sigma> (brings a \<sigma> (idle_with (cl_buf cl)))"
proof -
  obtain sent r where p: "propagate cmd (srv_replicas (srv (mem \<sigma>))) = (sent, r)" by fastforce
  let ?cl = "cl\<lparr>cl_stage := ToAppend cmd\<rparr>"
  let ?\<tau> = "\<sigma>\<lparr>clients := (clients \<sigma>)(a \<mapsto> ?cl), mem := (mem \<sigma>)\<lparr>srv := (srv (mem \<sigma>))\<lparr>srv_replicas := r\<rparr>\<rparr>\<rparr>"
  have "proc_step \<sigma> (Propagate a) ?\<tau>" using assms p by (intro proc_step.propagate_write) (simp_all add: stopping_def)
  moreover have s: "same_but a \<sigma> ?\<tau>" using assms(1) by (simp add: same_but_def stopping_def alive_def)
  then have "can_reach ?\<tau> (brings a ?\<tau> (idle_with (cl_buf ?cl)))"
    by (intro settle_append [of _ _ ?cl cmd]) (simp_all add: same_but_def)
  then have "can_reach ?\<tau> (brings a ?\<tau> (idle_with (cl_buf cl)))" by simp
  ultimately show ?thesis using can_reach_step brings_from [OF _ s] of_its_own.simps(2) by blast
qed

lemma iterate_idle:
  assumes "stopping \<sigma>"
    and blocks: "\<And>out b c w p. res = (Blocks out b c w, p) \<Longrightarrow>
      can_reach (iterate a cl res \<sigma>) (brings a (iterate a cl res \<sigma>) (idle_with (cl_buf cl)))"
  shows "can_reach (iterate a cl res \<sigma>) (brings a \<sigma> (idle_with (cl_buf cl)))"
proof -
  obtain r p where res: "res = (r, p)" by fastforce
  show ?thesis
  proof (cases r)
    case (Continues out c w)
    have s: "same_but a \<sigma> (iterate a cl res \<sigma>)" by (rule same_but_iterate [OF assms(1)]) (simp add: res Continues)
    show ?thesis
    proof (cases p)
      case None
      then show ?thesis using s by (intro can_reach_now) (simp add: brings_def idle_with_def res Continues)
    next
      case (Some cmd)
      have "can_reach (iterate a cl res \<sigma>) (brings a (iterate a cl res \<sigma>) (idle_with (cl_buf (cl\<lparr>cl_conn := c, cl_stage := ToPropagate cmd\<rparr>))))"
        using s by (intro settle_propagate [of _ _ _ cmd]) (simp_all add: same_but_def res Continues Some)
      from brings_from [OF this s] show ?thesis by simp
    qed
  next
    case (Blocks out b c w)
    have s: "same_but a \<sigma> (iterate a cl res \<sigma>)" by (rule same_but_iterate [OF assms(1)]) (simp add: res Blocks)
    have "res = (Blocks out b c w, p)" by (simp add: res Blocks)
    from brings_from [OF blocks [OF this] s] show ?thesis .
  next
    case Panics
    then show ?thesis by (intro given_up_brings) (simp add: res)
  qed
qed

lemma unblock:
  assumes "stopping \<sigma>" and "clients \<sigma> a = Some cl" and "cl_stage cl = Within b"
  shows "can_reach \<sigma> (brings a \<sigma> (idle_with (cl_buf cl)))"
  using assms
proof (induction "left_in_exec b" arbitrary: \<sigma> cl b rule: less_induct)
  case less
  show ?case
  proof (cases "held_up \<sigma>")
    case False
    then have "interruptible b (db (mem \<sigma>))" using less.prems(2,3) by (auto simp: held_up_def blocked_in_def)
    then obtain res where res: "client_woken plain_os host_example (ending b) a b (cl_conn cl) (mem \<sigma>) = Some res"
      using interruptible_woken by blast
    have step: "proc_step \<sigma> (Wake a (ending b) plain_os host_example) (iterate a cl res \<sigma>)"
      using less.prems held_up_free [OF False] res by (intro proc_step.wake) (simp_all add: stopping_def)
    have "can_reach (iterate a cl res \<sigma>) (brings a \<sigma> (idle_with (cl_buf cl)))"
    proof (rule iterate_idle [OF less.prems(1)])
      fix out b' c w p
      assume blk: "res = (Blocks out b' c w, p)"
      have "left_in_exec b' < left_in_exec b" using woken_progress res blk by blast
      moreover have "stopping (iterate a cl res \<sigma>)"
        using same_but_iterate [OF less.prems(1), of res a cl] blk by (simp add: same_but_def)
      ultimately show "can_reach (iterate a cl res \<sigma>) (brings a (iterate a cl res \<sigma>) (idle_with (cl_buf cl)))"
        using less.hyps [of b' "iterate a cl res \<sigma>" "cl\<lparr>cl_conn := c, cl_stage := Within b'\<rparr>"]
        by (simp add: blk)
    qed
    with step show ?thesis by (rule can_reach_step) (cases b, simp_all)
  qed (intro given_up_brings, simp)
qed

text \<open>Whatever a connection is at, it comes back to its read.\<close>

lemma settle:
  assumes "stopping \<sigma>" and "clients \<sigma> a = Some cl"
  shows "can_reach \<sigma> (brings a \<sigma> (idle_with (cl_buf cl)))"
proof (cases "cl_stage cl")
  case Reading
  then show ?thesis using assms same_but_refl by (intro can_reach_now) (simp add: brings_def idle_with_def)
qed (use assms unblock settle_propagate settle_append in blast)+

text \<open>The commands a client has pipelined are served first; then the read fails at the deadline.\<close>

lemma serve_buffered:
  assumes "stopping \<sigma>" and "clients \<sigma> a = Some cl" and "cl_stage cl = Reading" and "ReadCommand (cl_buf cl) = Inr (cmd, rest)"
  shows "can_reach \<sigma> (brings a \<sigma> (idle_with rest))"
proof (cases "held_up \<sigma>")
  case False
  let ?cl = "cl\<lparr>cl_buf := rest\<rparr>"
  let ?res = "client_first plain_os host_example a cmd (cl_conn cl) (mem \<sigma>)"
  have step: "proc_step \<sigma> (Serve a plain_os host_example) (iterate a ?cl ?res \<sigma>)"
    using assms held_up_free [OF False] by (intro proc_step.serve) (simp_all add: stopping_def)
  have "can_reach (iterate a ?cl ?res \<sigma>) (brings a \<sigma> (idle_with (cl_buf ?cl)))"
  proof (rule iterate_idle [OF assms(1)])
    fix out b c w p
    assume blk: "?res = (Blocks out b c w, p)"
    have "stopping (iterate a ?cl ?res \<sigma>)"
      using same_but_iterate [OF assms(1), of ?res a ?cl] blk by (simp add: same_but_def)
    then show "can_reach (iterate a ?cl ?res \<sigma>) (brings a (iterate a ?cl ?res \<sigma>) (idle_with (cl_buf ?cl)))"
      using unblock [of "iterate a ?cl ?res \<sigma>" a "?cl\<lparr>cl_conn := c, cl_stage := Within b\<rparr>" b]
      by (simp add: blk)
  qed
  then have "can_reach (iterate a ?cl ?res \<sigma>) (brings a \<sigma> (idle_with rest))" by simp
  with step show ?thesis by (rule can_reach_step) simp
qed (intro given_up_brings, simp)

lemma drain_idle:
  assumes "stopping \<sigma>" and "clients \<sigma> a = Some cl" and "cl_stage cl = Reading"
  shows "can_reach \<sigma> (brings a \<sigma> (\<lambda>x. x = None))"
  using assms
proof (induction "length (cl_buf cl)" arbitrary: \<sigma> cl rule: less_induct)
  case less
  show ?case
  proof (cases "ReadCommand (cl_buf cl)")
    case (Inr r)
    obtain cmd rest where r: "r = (cmd, rest)" by fastforce
    from serve_buffered [OF less.prems, of cmd rest] Inr r
    have "can_reach \<sigma> (brings a \<sigma> (idle_with rest))" by simp
    then show ?thesis
    proof (rule can_reach_trans)
      fix \<tau>
      assume br: "brings a \<sigma> (idle_with rest) \<tau>"
      show "can_reach \<tau> (brings a \<sigma> (\<lambda>x. x = None))"
      proof (cases "given_up \<tau>")
        case False
        with br obtain cl' where cl': "same_but a \<sigma> \<tau>" "clients \<tau> a = Some cl'" "cl_stage cl' = Reading" "cl_buf cl' = rest"
          by (auto simp: brings_def idle_with_def)
        moreover have "length (cl_buf cl') < length (cl_buf cl)" using ReadCommand_shorter Inr r cl'(4) by blast
        ultimately have "can_reach \<tau> (brings a \<tau> (\<lambda>x. x = None))"
          using less.hyps [of cl' \<tau>] by (simp add: same_but_def)
        from brings_from [OF this cl'(1)] show ?thesis .
      qed (rule given_up_brings)
    qed
  next
    case (Inl e)
    let ?cl = "cl\<lparr>cl_deadline := True\<rparr>"
    let ?\<tau> = "\<sigma>\<lparr>clients := (clients \<sigma>)(a \<mapsto> ?cl)\<rparr>"
    have t: "same_but a \<sigma> ?\<tau>" using less.prems(1) by (rule same_but_clients)
    then have st: "stopping ?\<tau>" by (simp add: same_but_def)
    have dl: "proc_step \<sigma> (SetDeadline a) ?\<tau>"
      using less.prems by (intro proc_step.set_deadline) (simp_all add: stopping_def)
    have "proc_step ?\<tau> (ReadFails a) (leave a ?\<tau>)"
      by (rule proc_step.read_fails [of _ _ ?cl e]) (use st Inl less.prems in \<open>simp_all add: stopping_def\<close>)
    moreover have "can_reach (leave a ?\<tau>) (brings a \<sigma> (\<lambda>x. x = None))"
      using same_but_trans [OF t same_but_leave [OF st]] by (intro can_reach_now) (simp add: brings_def leave_def)
    ultimately have "can_reach ?\<tau> (brings a \<sigma> (\<lambda>x. x = None))" by (rule can_reach_step) simp
    with dl show ?thesis by (rule can_reach_step) simp
  qed
qed

lemma drain_client:
  assumes "stopping \<sigma>" and "clients \<sigma> a = Some cl"
  shows "can_reach \<sigma> (brings a \<sigma> (\<lambda>x. x = None))"
proof (rule can_reach_trans [OF settle [OF assms]])
  fix \<tau>
  assume br: "brings a \<sigma> (idle_with (cl_buf cl)) \<tau>"
  show "can_reach \<tau> (brings a \<sigma> (\<lambda>x. x = None))"
  proof (cases "given_up \<tau>")
    case False
    with br obtain cl' where cl': "same_but a \<sigma> \<tau>" "clients \<tau> a = Some cl'" "cl_stage cl' = Reading"
      by (auto simp: brings_def idle_with_def)
    then have "can_reach \<tau> (brings a \<tau> (\<lambda>x. x = None))" by (intro drain_idle) (simp_all add: same_but_def)
    from brings_from [OF this cl'(1)] show ?thesis .
  qed (rule given_up_brings)
qed

lemma drain_clients:
  assumes "stopping \<sigma>" and "finite (dom (clients \<sigma>))"
  shows "can_reach \<sigma> (\<lambda>\<sigma>'. given_up \<sigma>' \<or>
    stopping \<sigma>' \<and> clients \<sigma>' = Map.empty \<and> sweeper \<sigma>' = sweeper \<sigma>)"
  using assms
proof (induction "card (dom (clients \<sigma>))" arbitrary: \<sigma> rule: less_induct)
  case less
  let ?Q = "\<lambda>\<tau> \<sigma>'. given_up \<sigma>' \<or>
    stopping \<sigma>' \<and> clients \<sigma>' = Map.empty \<and> sweeper \<sigma>' = sweeper \<tau>"
  show ?case
  proof (cases "clients \<sigma> = Map.empty")
    case True
    then show ?thesis using less.prems(1) by (intro can_reach_now) simp
  next
    case False
    then obtain a cl where a: "clients \<sigma> a = Some cl" by (meson not_Some_eq ext)
    show ?thesis
    proof (rule can_reach_trans [OF drain_client [OF less.prems(1) a]])
      fix \<sigma>'
      assume "brings a \<sigma> (\<lambda>x. x = None) \<sigma>'"
      then have "given_up \<sigma>' \<or> same_but a \<sigma> \<sigma>' \<and> clients \<sigma>' a = None" by (simp only: brings_def)
      then show "can_reach \<sigma>' (?Q \<sigma>)"
      proof
        assume s: "same_but a \<sigma> \<sigma>' \<and> clients \<sigma>' a = None"
        then have "clients \<sigma>' = (clients \<sigma>)(a := None)" by (auto simp: same_but_def)
        then have d: "dom (clients \<sigma>') = dom (clients \<sigma>) - {a}" by simp
        then have "card (dom (clients \<sigma>')) < card (dom (clients \<sigma>))"
          unfolding d using less.prems(2) domI [of "clients \<sigma>" a cl] a by (intro card_Diff1_less) simp_all
        from less.hyps [OF this] s d less.prems(2) have "can_reach \<sigma>' (?Q \<sigma>')" by (simp add: same_but_def)
        moreover have "sweeper \<sigma>' = sweeper \<sigma>" using s by (simp add: same_but_def)
        ultimately show ?thesis by simp
      qed (intro can_reach_now, blast)
    qed
  qed
qed

lemma finish:
  assumes "stopping \<sigma>" and "clients \<sigma> = Map.empty"
  shows "can_reach \<sigma> (\<lambda>\<sigma>'. main_pc \<sigma>' = Exited)"
proof -
  let ?done = "\<lambda>\<sigma>'. main_pc \<sigma>' = Exited"
  define rest where "rest \<tau> \<longleftrightarrow> stopping \<tau> \<and> clients \<tau> = Map.empty" for \<tau>
  have ret: "can_reach \<tau> ?done" if "main_pc \<tau> = Draining" "\<not> sweeper \<tau>" "rest \<tau>" for \<tau>
    by (rule can_reach_step [OF proc_step.return_main]) (use that in \<open>simp_all add: rest_def stopping_def can_reach_now\<close>)
  have stop: "can_reach \<tau> ?done" if "\<not> listening \<tau>" "\<not> sweeper \<tau>" "rest \<tau>" for \<tau>
  proof (cases "main_pc \<tau> = Draining")
    case False
    with that have at: "main_pc \<tau> = Accepting" "ctx_done \<tau>" by (auto simp: rest_def stopping_def alive_def)
    show ?thesis
      by (rule can_reach_step [OF proc_step.stop_accepting])
        (use at that in \<open>simp_all add: ret accept_error_def rest_def stopping_def alive_def\<close>)
  qed (use that ret in blast)
  have close: "can_reach \<tau> ?done" if "\<not> sweeper \<tau>" "rest \<tau>" for \<tau>
  proof (cases "listening \<tau>")
    case True
    show ?thesis
      by (rule can_reach_step [OF proc_step.close_listener])
        (use that True in \<open>simp_all add: stop rest_def stopping_def alive_def\<close>)
  qed (use that stop in blast)
  have "rest \<sigma>" using assms by (simp add: rest_def)
  then show ?thesis
  proof (cases "sweeper \<sigma>")
    case True
    show ?thesis
      by (rule can_reach_step [OF proc_step.stop_sweeper])
        (use \<open>rest \<sigma>\<close> True in \<open>simp_all add: close rest_def stopping_def alive_def\<close>)
  qed (use close in blast)
qed

section \<open>A follower that is fed commands\<close>

text \<open>The bytes the master sends in a run.\<close>

definition master_bytes :: "proc_event list \<Rightarrow> bytes" where
  "master_bytes es = concat (map (\<lambda>e. case e of MasterSends bs \<Rightarrow> bs | _ \<Rightarrow> []) es)"

text \<open>In the loop over the stream, with an open connection and nothing unread but a prefix of encoded commands.\<close>

definition fed :: "follower \<Rightarrow> bytes \<Rightarrow> bool" where
  "fed fo later \<longleftrightarrow> fo_open fo \<and> (fo_at fo = Streaming \<or> (\<exists>out. fo_at fo = Inside out)) \<and>
     (\<exists>cmds. list_all command_in_limits cmds \<and> prefix (fo_buf fo @ later) (concat (map encodeCommand cmds)))"

lemma fed_stage: "fed fo later \<Longrightarrow> at = Streaming \<or> (\<exists>out. at = Inside out) \<Longrightarrow> fed (fo\<lparr>fo_at := at, fo_offset := off\<rparr>) later"
  by (simp add: fed_def)

lemma fed_read:
  assumes "list_all command_in_limits cmds" and "prefix (buf @ later) (concat (map encodeCommand cmds))"
  shows "ReadCommand buf \<noteq> Inl (ProtocolError m)"
    and "ReadCommand buf = Inr (cmd, r) \<Longrightarrow>
      \<exists>cmds'. list_all command_in_limits cmds' \<and> prefix (r @ later) (concat (map encodeCommand cmds'))"
proof -
  obtain t where t: "concat (map encodeCommand cmds) = buf @ later @ t" using assms(2) by (auto simp: prefix_def)
  have stream: "ReadCommand (buf @ later @ t) =
      (case cmds of [] \<Rightarrow> Inl EOF | c # cs \<Rightarrow> Inr (c, concat (map encodeCommand cs)))"
    unfolding t [symmetric] using resp.dec_enc assms(1) by (cases cmds) simp_all
  show "ReadCommand buf \<noteq> Inl (ProtocolError m)"
    using command.ext_err [of buf m "later @ t"] stream by (auto split: list.splits)
  show "\<exists>cmds'. list_all command_in_limits cmds' \<and> prefix (r @ later) (concat (map encodeCommand cmds'))"
    if "ReadCommand buf = Inr (cmd, r)"
  proof -
    from command.ext_ok [OF that, of "later @ t"] stream obtain cs where
      "cmds = cmd # cs" "concat (map encodeCommand cs) = r @ later @ t" by (auto split: list.splits)
    then show ?thesis using assms(1) by (intro exI [of _ cs]) simp
  qed
qed

lemma fed_follow:
  assumes "fed fo later"
  shows "follow_read h fo w \<noteq> FollowEnds" and "follow_read h fo w = Follows fo' w' \<Longrightarrow> fed fo' later"
proof -
  obtain cmds where c: "list_all command_in_limits cmds" "prefix (fo_buf fo @ later) (concat (map encodeCommand cmds))"
    using assms by (auto simp: fed_def)
  note rd = fed_read [OF c]
  have ends: "follow_command h cmd f v \<noteq> FollowEnds" for cmd f v
    by (auto simp: follow_command_def Let_def split: prod.splits outcome.splits)
  show "follow_read h fo w \<noteq> FollowEnds"
    using assms rd(1) ends by (auto simp: fed_def follow_read_def split: sum.splits read_err.splits)
  show "fed fo' later" if fr: "follow_read h fo w = Follows fo' w'"
  proof (cases "fo_at fo = Streaming")
    case True
    with fr obtain cmd r where r: "ReadCommand (fo_buf fo) = Inr (cmd, r)"
      and fc: "follow_command h cmd (fo\<lparr>fo_buf := r\<rparr>) w = Follows fo' w'"
      by (auto simp: follow_read_def split: sum.splits read_err.splits)
    have f: "fed (fo\<lparr>fo_buf := r\<rparr>) later" using rd(2) [OF r] assms by (auto simp: fed_def)
    have at: "fo_at (fo\<lparr>fo_buf := r\<rparr>) = Streaming" using True by simp
    show ?thesis
      using fc fed_stage [OF f] f at unfolding follow_command_def Let_def
      by (auto simp: fed_def split: if_splits prod.splits outcome.splits)
  qed (use assms fr in \<open>auto simp: fed_def follow_read_def\<close>)
qed

lemma fed_wake:
  assumes "fed fo later"
  shows "follow_wake wk fo w \<noteq> FollowEnds" and "follow_wake wk fo w = Follows fo' w' \<Longrightarrow> fed fo' later"
  using assms by (auto simp: fed_def follow_wake_def split: wakeup.splits follow_at.splits)

definition following :: "proc \<Rightarrow> bytes \<Rightarrow> bool" where
  "following \<sigma> later \<longleftrightarrow> main_pc \<sigma> \<noteq> Exited \<and> (alive \<sigma> \<longrightarrow> (\<exists>fo. replicator \<sigma> = Some fo \<and> fed fo later))"

lemma following_followed:
  assumes "replicator \<sigma> = Some fo" and "fed fo later" and "alive \<sigma>" and "res \<noteq> FollowEnds"
    and "\<And>fo' w'. res = Follows fo' w' \<Longrightarrow> fed fo' later"
  shows "following (followed res \<sigma>) later"
  using assms by (cases res) (auto simp: following_def alive_def)

lemma following_step:
  assumes "proc_step \<sigma> e \<sigma>'" and "e \<noteq> MasterCloses" and "following \<sigma> (master_bytes [e] @ later)"
  shows "following \<sigma>' later"
  using assms
proof (induction rule: proc_step.induct)
  case (master_sends \<sigma> fo bs)
  then show ?case by (auto simp: following_def master_bytes_def fed_def alive_def)
next
  case (follow \<sigma> fo h)
  then have "fed fo later" by (auto simp: following_def master_bytes_def)
  with follow fed_follow [OF this] show ?case by (intro following_followed) auto
next
  case (follow_wakes \<sigma> fo wk)
  then have "fed fo later" by (auto simp: following_def master_bytes_def)
  with follow_wakes fed_wake [OF this] show ?case by (intro following_followed) auto
qed (auto simp: following_def master_bytes_def alive_def leave_def sweep_def accept_error_def fed_def iterate_frame split: if_splits)

lemma following_run:
  assumes "run_of proc_step \<sigma> es \<sigma>'" and "MasterCloses \<notin> set es" and "following \<sigma> (master_bytes es @ later)"
  shows "following \<sigma>' later"
  using assms
proof (induction rule: run_of.induct)
  case (run_cons \<sigma> e \<sigma>1 es \<sigma>2)
  have "following \<sigma> (master_bytes [e] @ master_bytes es @ later)" using run_cons.prems(2) by (simp add: master_bytes_def)
  from following_step [OF run_cons.hyps(1) _ this] run_cons.prems(1) have "following \<sigma>1 (master_bytes es @ later)" by auto
  with run_cons show ?case by simp
qed (simp add: master_bytes_def)

section \<open>Properties\<close>

text \<open>C13. The server shuts down: after a signal, whatever the clients have done and whatever they are blocked in, \<open>main\<close> of a
  server that is no replica returns by steps the server takes of its own: it serves what was pipelined, propagates and appends the
  writes in flight, interrupts the blocked commands, lets every read fail and stops the sweeper and the accept loop. The only ways
  out of this are a connection held up in something the end of the context does not interrupt (WAIT without a timeout, a push that is
  stuck with the mutex, or a BLPOP whose channel is in none of its queues) and a panic. When \<open>main\<close> has returned, no connection
  and no goroutine is left.\<close>

theorem shutdown_completes:
  assumes "run_of proc_step (started cfg w) es \<sigma>" and "ctx_done \<sigma>" and "\<not> isReplica cfg"
  shows "(\<exists>es' \<sigma>'. run_of proc_step \<sigma> es' \<sigma>' \<and> list_all of_its_own es' \<and> (main_pc \<sigma>' = Exited \<or> main_pc \<sigma>' = Died \<or> held_up \<sigma>')) \<and>
    (main_pc \<sigma> = Exited \<longrightarrow> clients \<sigma> = Map.empty \<and> \<not> sweeper \<sigma> \<and> replicator \<sigma> = None)"
proof -
  have inv: "proc_inv cfg \<sigma>" using process.run_from_init [OF _ assms(1)] by blast
  let ?P = "\<lambda>\<sigma>'. main_pc \<sigma>' = Exited \<or> main_pc \<sigma>' = Died \<or> held_up \<sigma>'"
  have "can_reach \<sigma> ?P"
  proof (cases "alive \<sigma>")
    case True
    then have "stopping \<sigma>" "finite (dom (clients \<sigma>))"
      using assms(2,3) inv by (auto simp: stopping_def proc_inv_def)
    from drain_clients [OF this(1,2)] show ?thesis
    proof (rule can_reach_trans)
      fix \<sigma>'
      assume "given_up \<sigma>' \<or>
        stopping \<sigma>' \<and> clients \<sigma>' = Map.empty \<and> sweeper \<sigma>' = sweeper \<sigma>"
      then show "can_reach \<sigma>' ?P"
      proof
        assume "stopping \<sigma>' \<and> clients \<sigma>' = Map.empty \<and> sweeper \<sigma>' = sweeper \<sigma>"
        then have "can_reach \<sigma>' (\<lambda>\<sigma>'. main_pc \<sigma>' = Exited)" by (intro finish) simp_all
        then show ?thesis by (rule can_reach_trans) (rule can_reach_now, simp)
      qed (rule can_reach_now, blast)
    qed
  next
    case False
    then have "main_pc \<sigma> = Exited \<or> main_pc \<sigma> = Died" by (cases "main_pc \<sigma>") (simp_all add: alive_def)
    then show ?thesis by (intro can_reach_now) blast
  qed
  with inv show ?thesis by (simp add: proc_inv_def can_reach_def)
qed

text \<open>The process of the example, after one connection and a signal.\<close>

definition example_start :: world where "example_start = \<lparr>db = newStore, srv = newServer zero_config, aof = None\<rparr>"

lemma example_signal:
  "\<exists>\<sigma>. run_of proc_step (started cfg example_start) [Accept 7, Signal] \<sigma> \<and> ctx_done \<sigma> \<and> clients \<sigma> 7 \<noteq> None"
proof -
  let ?\<sigma>0 = "started cfg example_start"
  let ?\<sigma>1 = "?\<sigma>0\<lparr>clients := (clients ?\<sigma>0)(7 \<mapsto> new_client (mem ?\<sigma>0)), opened := insert 7 (opened ?\<sigma>0),
      mem := on_tx 7 (\<lambda>_. zero_transaction) (mem ?\<sigma>0)\<rparr>"
  have "proc_step ?\<sigma>0 (Accept 7) ?\<sigma>1" by (rule proc_step.accept) (simp_all add: started_def)
  moreover have "proc_step ?\<sigma>1 Signal (?\<sigma>1\<lparr>ctx_done := True\<rparr>)"
    by (rule proc_step.signal) (simp_all add: started_def alive_def)
  ultimately show ?thesis
    by (intro exI [of _ "?\<sigma>1\<lparr>ctx_done := True\<rparr>"]) (auto simp: run_of_Cons started_def)
qed

theorem shutdown_completes_witness:
  "\<exists>\<sigma> es' \<sigma>'. run_of proc_step (started zero_config example_start) [Accept 7, Signal] \<sigma> \<and> clients \<sigma> 7 \<noteq> None \<and>
     run_of proc_step \<sigma> es' \<sigma>' \<and> list_all of_its_own es' \<and> (main_pc \<sigma>' = Exited \<or> main_pc \<sigma>' = Died \<or> held_up \<sigma>')"
proof -
  obtain \<sigma> where r: "run_of proc_step (started zero_config example_start) [Accept 7, Signal] \<sigma>" "ctx_done \<sigma>" "clients \<sigma> 7 \<noteq> None"
    using example_signal [of zero_config] by blast
  have "\<not> isReplica zero_config" by (simp add: zero_config_def)
  from shutdown_completes [OF r(1,2) this] r show ?thesis by blast
qed

text \<open>C39. Defect: a replica in the loop over its master's stream does not shut down. The goroutine of \<open>startReplication\<close> is
  in the wait group of \<open>main\<close>, and its read from the master does not end with the context. As long as the master keeps
  the connection open and sends nothing but encoded commands within the limits, in pieces of any size or not at all, the
  goroutine does not return and \<open>main\<close> does not either, whatever else happens and however often the signal is sent; only a
  panic ends the process. (It does return when the dial or the handshake fails, when the header of the RDB file or the stream is malformed,
  and when the master closes the connection.)\<close>

theorem replica_does_not_shut_down:
  assumes "replicator \<sigma> = Some fo" and "fo_at fo = Streaming" and "fo_open fo" and "alive \<sigma>"
    and "list_all command_in_limits cmds" and "prefix (fo_buf fo @ master_bytes es) (concat (map encodeCommand cmds))"
    and "run_of proc_step \<sigma> es \<sigma>'" and "MasterCloses \<notin> set es"
  shows "main_pc \<sigma>' \<noteq> Exited \<and> (main_pc \<sigma>' \<noteq> Died \<longrightarrow> replicator \<sigma>' \<noteq> None)"
proof -
  have "main_pc \<sigma> \<noteq> Exited" using assms(4) by (auto simp: alive_def)
  then have "following \<sigma> (master_bytes es @ [])"
    using assms(1-6) by (auto simp: following_def fed_def)
  from following_run [OF assms(7,8) this] show ?thesis
    by (cases "main_pc \<sigma>'") (auto simp: following_def alive_def)
qed

text \<open>A replica gets through the handshake with a master that sends an empty RDB file, then the signal comes and the listener closes.\<close>

abbreviation example_handshake :: bytes where "example_handshake \<equiv> [LF, LF, LF, LF] @ ''$0'' @ [LF]"

lemma example_follow:
  assumes "follow_read host_example fo (mem \<sigma>) = Follows fo' (mem \<sigma>)" and "replicator \<sigma> = Some fo" and "alive \<sigma>"
    and "clients \<sigma> = Map.empty" and "\<not> stuck_inside (fo_at fo)"
  shows "proc_step \<sigma> (Follow host_example) (\<sigma>\<lparr>replicator := Some fo'\<rparr>)"
  using proc_step.follow [OF assms(3) _ assms(2), of host_example] assms
  by (simp add: store_free_def blocked_in_def)

lemma example_streaming:
  assumes "isReplica cfg"
  shows "\<exists>\<sigma> fo. run_of proc_step (started cfg example_start)
      ([MasterAccepts, MasterSends example_handshake] @ replicate 6 (Follow host_example) @ [Signal, CloseListener, StopAccepting]) \<sigma> \<and>
    replicator \<sigma> = Some fo \<and> fo_at fo = Streaming \<and> fo_open fo \<and> fo_buf fo = [] \<and> main_pc \<sigma> = Draining \<and>
    clients \<sigma> = Map.empty \<and> ctx_done \<sigma>"
proof -
  let ?s = "started cfg example_start"
  let ?f = "\<lambda>at buf. \<lparr>fo_at = at, fo_buf = buf, fo_offset = 0, fo_open = True\<rparr>"
  let ?at = "\<lambda>at buf. ?s\<lparr>replicator := Some (?f at buf)\<rparr>"
  have rd: "follow_read host_example (?f (Lines n) (LF # r)) w =
      Follows (?f (if n \<le> 1 then Header else Lines (n - 1)) r) w" for n r w
    by (simp add: follow_read_def)
  have "TrimSpace (''0'' @ [LF]) = ''0''" by (simp add: TrimSpace_def LF_def byte_in_def)
  moreover have "Atoi ''0'' = (0, NoErr)"
    by (simp add: ParseInt_def strip_sign_def ParseUint_def is_digit_def digit_val_def max_uint64_def)
  moreover have "ReadBytes LF (''$0'' @ [LF]) = Some (''$0'' @ [LF], [])" by (simp add: LF_def)
  ultimately have hd: "follow_read host_example (?f Header (''$0'' @ [LF])) w = Follows (?f (Payload 0) []) w" for w
    by (simp add: follow_read_def maxAlloc_def)
  have pl: "follow_read host_example (?f (Payload 0) []) w = Follows (?f Streaming []) w" for w by (simp add: follow_read_def)
  have up: "alive (?at x r)" "clients (?at x r) = Map.empty" "replicator (?at x r) = Some (?f x r)" for x r
    by (simp_all add: started_def alive_def)
  have step: "proc_step (?at x r) (Follow host_example) (?at x' r')"
    if "\<And>w. follow_read host_example (?f x r) w = Follows (?f x' r') w" "\<not> stuck_inside x" for x r x' r'
    using example_follow [of "?f x r" "?at x r" "?f x' r'"] that up [of x r] by simp
  let ?c = "(?at Streaming [])\<lparr>ctx_done := True\<rparr>"
  have 1: "proc_step ?s MasterAccepts (?at (Lines 4) [])"
    using proc_step.master_accepts [of ?s new_follower] assms by (simp add: started_def alive_def new_follower_def)
  have 2: "proc_step (?at (Lines 4) []) (MasterSends example_handshake) (?at (Lines 4) example_handshake)"
    using proc_step.master_sends [OF up(1) up(3), of "Lines 4" "[]" example_handshake] by simp
  have 3: "proc_step (?at (Lines 4) example_handshake) (Follow host_example) (?at (Lines 3) ([LF, LF, LF] @ ''$0'' @ [LF]))"
    by (intro step) (simp_all add: rd)
  have 4: "proc_step (?at (Lines 3) ([LF, LF, LF] @ ''$0'' @ [LF])) (Follow host_example) (?at (Lines 2) ([LF, LF] @ ''$0'' @ [LF]))"
    by (intro step) (simp_all add: rd)
  have 5: "proc_step (?at (Lines 2) ([LF, LF] @ ''$0'' @ [LF])) (Follow host_example) (?at (Lines 1) ([LF] @ ''$0'' @ [LF]))"
    by (intro step) (simp_all add: rd)
  have 6: "proc_step (?at (Lines 1) ([LF] @ ''$0'' @ [LF])) (Follow host_example) (?at Header (''$0'' @ [LF]))"
    by (intro step) (simp_all add: rd)
  have 7: "proc_step (?at Header (''$0'' @ [LF])) (Follow host_example) (?at (Payload 0) [])"
    by (rule step [OF hd]) simp
  have 8: "proc_step (?at (Payload 0) []) (Follow host_example) (?at Streaming [])"
    by (rule step [OF pl]) simp
  have 9: "proc_step (?at Streaming []) Signal ?c"
    by (rule proc_step.signal) (simp_all add: started_def alive_def)
  have 10: "proc_step ?c CloseListener (?c\<lparr>listening := False\<rparr>)"
    by (rule proc_step.close_listener) (simp_all add: started_def alive_def)
  have 11: "proc_step (?c\<lparr>listening := False\<rparr>) StopAccepting (accept_error (?c\<lparr>listening := False\<rparr>))"
    by (rule proc_step.stop_accepting) (simp_all add: started_def)
  note cons = run_of.run_cons [where step = proc_step]
  have run: "run_of proc_step ?s [MasterAccepts, MasterSends example_handshake, Follow host_example, Follow host_example,
      Follow host_example, Follow host_example, Follow host_example, Follow host_example, Signal, CloseListener, StopAccepting]
      (accept_error (?c\<lparr>listening := False\<rparr>))"
    by (rule cons [OF 1 cons [OF 2 cons [OF 3 cons [OF 4 cons [OF 5 cons [OF 6 cons [OF 7 cons [OF 8 cons [OF 9
          cons [OF 10 cons [OF 11 run_of.run_nil]]]]]]]]]]])
  have eq: "[MasterAccepts, MasterSends example_handshake] @ replicate 6 (Follow host_example) @ [Signal, CloseListener, StopAccepting] =
      [MasterAccepts, MasterSends example_handshake, Follow host_example, Follow host_example,
      Follow host_example, Follow host_example, Follow host_example, Follow host_example, Signal, CloseListener, StopAccepting]"
    by (simp add: numeral_eq_Suc)
  from run have "run_of proc_step ?s ([MasterAccepts, MasterSends example_handshake] @ replicate 6 (Follow host_example) @
      [Signal, CloseListener, StopAccepting]) (accept_error (?c\<lparr>listening := False\<rparr>))" by (simp only: eq)
  then show ?thesis
    by (intro exI [of _ "accept_error (?c\<lparr>listening := False\<rparr>)"] exI [of _ "?f Streaming []"])
      (simp add: started_def accept_error_def)
qed

theorem replica_does_not_shut_down_witness:
  "\<exists>\<sigma>. run_of proc_step (started (zero_config\<lparr>isReplica := True\<rparr>) example_start)
      ([MasterAccepts, MasterSends example_handshake] @ replicate 6 (Follow host_example) @ [Signal, CloseListener, StopAccepting]) \<sigma> \<and>
    main_pc \<sigma> = Draining \<and> clients \<sigma> = Map.empty \<and> ctx_done \<sigma> \<and>
    (\<forall>es \<sigma>'. run_of proc_step \<sigma> es \<sigma>' \<and> MasterCloses \<notin> set es \<and> master_bytes es = [] \<longrightarrow> main_pc \<sigma>' \<noteq> Exited)"
proof -
  have "isReplica (zero_config\<lparr>isReplica := True\<rparr>)" by simp
  from example_streaming [OF this] obtain \<sigma> fo where
    r: "run_of proc_step (started (zero_config\<lparr>isReplica := True\<rparr>) example_start)
      ([MasterAccepts, MasterSends example_handshake] @ replicate 6 (Follow host_example) @ [Signal, CloseListener, StopAccepting]) \<sigma>"
    "replicator \<sigma> = Some fo" "fo_at fo = Streaming" "fo_open fo" "fo_buf fo = []" "main_pc \<sigma> = Draining" "clients \<sigma> = Map.empty" "ctx_done \<sigma>"
    by blast
  have "main_pc \<sigma>' \<noteq> Exited" if "run_of proc_step \<sigma> es \<sigma>'" "MasterCloses \<notin> set es" "master_bytes es = []" for es \<sigma>'
    using replica_does_not_shut_down [OF r(2-4) _ _ _ that(1,2), of "[]"] r(5,6) that(3) by (simp add: alive_def)
  with r show ?thesis by blast
qed

end
