(* ===== verification/Lifecycle.thy ===== *)
theory Lifecycle
  imports Convergence Transactions Shutdown
begin

text \<open>
  The whole of \<open>main\<close>: flags, start, the running process and the next start. The process of \<open>Shutdown\<close>, with any number of
  connections, the sweeper, signals and panics, lags behind in its log by the one write that is between its execution and its
  append. With the keyspace the log stands for beside it, it is a \<open>logged_system\<close> of \<open>Boot\<close>, so that it can be stopped or
  killed at any moment and started again.
\<close>

section \<open>Starting\<close>

text \<open>\<open>main\<close> from the flags to the accept loop; \<open>bound\<close> is whether \<open>net.Listen\<close> succeeds.\<close>

datatype main_result = Up proc | Down | StillReplaying world outcome | DiedReplaying

definition main_start :: "(string \<Rightarrow> string \<Rightarrow> string) \<Rightarrow> host \<Rightarrow> flags \<Rightarrow> disk \<Rightarrow> bool \<Rightarrow> main_result" where
  "main_start join h fl d bound =
     (case parseFlags join fl of
        Inl e \<Rightarrow> Down
      | Inr cfg \<Rightarrow>
          (case boot h cfg d of
             Exits \<Rightarrow> Down
           | BootPanics \<Rightarrow> DiedReplaying
           | BootBlocked w out \<Rightarrow> StillReplaying w out
           | Ready w \<Rightarrow> if bound then Up (started cfg w) else Down))"

section \<open>Runs that are logged\<close>

text \<open>The control commands that touch neither the keyspace nor the transactions.\<close>

definition beside :: "string \<Rightarrow> bool" where
  "beside nm \<longleftrightarrow> nm \<in> set [''PSYNC'', ''REPLCONF'', ''WAIT'', ''SUBSCRIBE'', ''PUBLISH'', ''UNSUBSCRIBE'', ''AUTH'']"

definition logged_command :: "host \<Rightarrow> bytes list \<Rightarrow> bool" where
  "logged_command h cmd \<longleftrightarrow> clean_write h cmd \<or> read_only (ToUpper (uni_upper h) (cmd ! 0)) \<or> beside (ToUpper (uni_upper h) (cmd ! 0))"

definition answered :: "client_result \<Rightarrow> bool" where
  "answered res \<longleftrightarrow> (\<forall>out b c w. res \<noteq> Blocks out b c w)"

text \<open>The writes that are executed and not yet appended.\<close>

definition in_flight :: "proc \<Rightarrow> connid \<Rightarrow> bytes list \<Rightarrow> bool" where
  "in_flight \<sigma> a cmd \<longleftrightarrow> (\<exists>cl. clients \<sigma> a = Some cl \<and> (cl_stage cl = ToPropagate cmd \<or> cl_stage cl = ToAppend cmd))"

text \<open>
  Steps under which the file keeps up: a served command is one that a log can reproduce and does not block; a write is
  served only when no other is in flight; every append is whole; the sweeper finds nothing to remove. Everything else may happen:
  connections that come and go, bytes that arrive in pieces, failed authentication, signals, panics.
\<close>

definition keeps_up :: "host \<Rightarrow> proc \<Rightarrow> proc_event \<Rightarrow> bool" where
  "keeps_up h \<sigma> e \<longleftrightarrow>
     (case e of
        Serve a os h' \<Rightarrow> h' = h\<lparr>clock := clock h'\<rparr> \<and>
          (\<forall>cl cmd rest. clients \<sigma> a = Some cl \<longrightarrow> ReadCommand (cl_buf cl) = Inr (cmd, rest) \<longrightarrow>
             logged_command h cmd \<and> answered (fst (client_first os h' a cmd (cl_conn cl) (mem \<sigma>))) \<and>
             (clean_write h cmd \<longrightarrow> (\<forall>b cmd'. \<not> in_flight \<sigma> b cmd')))
      | AppendLog a os \<Rightarrow> os_write os = WroteAll
      | Tick h' \<Rightarrow> db (mem (sweep h' \<sigma>)) = db (mem \<sigma>)
      | _ \<Rightarrow> True)"

definition logged_step :: "host \<Rightarrow> proc \<Rightarrow> proc_event \<Rightarrow> proc \<Rightarrow> bool" where
  "logged_step h \<sigma> e \<sigma>' \<longleftrightarrow> proc_step \<sigma> e \<sigma>' \<and> keeps_up h \<sigma> e"

text \<open>No transaction and no watch anywhere; nobody blocks; no replicator.\<close>

definition quiet :: "store \<Rightarrow> bool" where
  "quiet s \<longleftrightarrow> watchers s = Map.empty \<and> txs s = (\<lambda>_. zero_transaction)"

definition quiet_proc :: "proc \<Rightarrow> bool" where
  "quiet_proc \<sigma> \<longleftrightarrow> quiet (db (mem \<sigma>)) \<and> replicator \<sigma> = None \<and> (\<forall>a b. \<not> blocked_in \<sigma> a b) \<and> dom (clients \<sigma>) \<subseteq> opened \<sigma>"

lemma quiet_step: "keyspace_step s s' \<Longrightarrow> quiet s \<Longrightarrow> quiet s'"
  using keyspace_step_frame by (auto simp: quiet_def tx_frame_def)

lemma quiet_run: "run_data h cmd w = (out, w') \<Longrightarrow> quiet (db w) \<Longrightarrow> quiet (db w')"
  using run_data_steps(1) quiet_step by blast

text \<open>What \<open>Set\<close> keeps, the RDB file keeps.\<close>

lemma load_keeps:
  assumes "\<And>k v t s. P s \<Longrightarrow> P (Set k v t s)" and "P s"
  shows "P (snd (load_loop Set t r s))"
  using assms(2)
proof (induction Set t r s rule: load_loop.induct)
  case (1 t r s)
  with assms(1) show ?case by (subst load_loop.simps) (auto split: sum.splits rdb_item.splits)
qed

lemma boot_rdb_keeps:
  assumes "\<And>k v t s. P s \<Longrightarrow> P (Set k v t s)" and "P newStore"
  shows "P (snd (boot_rdb cfg d))"
proof -
  have "P (snd (load_loop Set t r newStore))" for t r by (rule load_keeps) fact+
  then show ?thesis
    by (simp add: boot_rdb_def LoadRDBFile_def Load_def assms(2) split: open_result.split sum.split prod.split)
qed

lemma quiet_boot_rdb: "quiet (snd (boot_rdb cfg d))"
proof (rule boot_rdb_keeps)
  show "quiet (Set k v t s)" if "quiet s" for k v t s using keyspace_step.set_key that by (rule quiet_step)
qed (simp add: quiet_def newStore_def)

lemma quiet_replay: "go_fold (recover_cb h) log (w, st) = Ret (w', st') \<Longrightarrow> quiet (db w) \<Longrightarrow> quiet (db w')"
proof (induction log arbitrary: w st)
  case (Cons cmd log)
  obtain w1 st1 where r: "recover_cb h cmd (w, st) = Ret (w1, st1)" and rest: "go_fold (recover_cb h) log (w1, st1) = Ret (w', st')"
    using Cons.prems(1) by (auto simp: go_bind_eq_Ret)
  have "quiet (db w1)"
    using r Cons.prems(2) quiet_run [of h cmd w]
    by (auto simp: recover_cb_def split: option.splits prod.splits outcome.splits)
  then show ?case using Cons.IH [OF rest] by simp
qed simp

lemma quiet_boot:
  assumes "appendOnly cfg" and "clean_disk h cfg d" and "boot h' cfg d = Ready w"
  shows "quiet (db w)"
proof -
  from assms(2) obtain incr created log where
    d: "aof_incr_name cfg (manifest_file d) = Inr (incr, created)" "open_incr d incr = Some (concat (map EncodeRaw log))"
    and log: "list_all (clean_write h) log" by (auto simp: clean_disk_def)
  from assms(3) boot_clean [OF assms(1) d log] obtain s where s: "boot_rdb cfg d = (None, s)"
    and w: "go_fold (recover_cb h') log (\<lparr>db = s, srv = newServer cfg,
      aof = Some \<lparr>aof_file = concat (map EncodeRaw log), aof_fsync = appendFsync cfg\<rparr>\<rparr>, None) = Ret (w, None)" by auto
  show ?thesis using quiet_replay [OF w] quiet_boot_rdb [of cfg d] s by simp
qed

section \<open>One command\<close>

lemma beside_keeps:
  assumes "client_switch os h a nm cmd c w = Continues out c' w'" and "beside nm"
  shows "db w' = db w \<and> aof w' = aof w"
proof -
  have rep: "client_PSYNC a c w = Continues out c' w' \<longrightarrow> db w' = db w \<and> aof w' = aof w"
    "client_REPLCONF h a cmd c w = Continues out c' w' \<longrightarrow> db w' = db w \<and> aof w' = aof w"
    "client_PUBLISH os a cmd c w = Continues out c' w' \<longrightarrow> db w' = db w \<and> aof w' = aof w"
    by (auto simp: client_PSYNC_def client_REPLCONF_def client_PUBLISH_def split: if_splits prod.splits option.splits)
  have wait: "client_WAIT a cmd c w = Continues out c' w' \<longrightarrow> db w' = db w \<and> aof w' = aof w"
    by (cases "wait_begin (srv_replicas (srv w))")
      (auto simp: client_WAIT_def Let_def split: if_splits wait_state.splits)
  have subs: "client_SUBSCRIBE a cmd c w = Continues out c' w' \<longrightarrow> db w' = db w \<and> aof w' = aof w"
    "client_UNSUBSCRIBE a cmd c w = Continues out c' w' \<longrightarrow> db w' = db w \<and> aof w' = aof w"
    by (auto simp: client_SUBSCRIBE_def client_UNSUBSCRIBE_def sub_frame_def dest!: subscribe_loop_frame unsubscribe_loop_frame
        split: if_splits prod.splits go.splits)
  have "client_AUTH h a cmd c w = Continues out c' w' \<longrightarrow> db w' = db w \<and> aof w' = aof w" using client_AUTH_frame by blast
  then have "list_all (\<lambda>nm. client_switch os h a nm cmd c w = Continues out c' w' \<longrightarrow> db w' = db w \<and> aof w' = aof w)
      [''PSYNC'', ''REPLCONF'', ''WAIT'', ''SUBSCRIBE'', ''PUBLISH'', ''UNSUBSCRIBE'', ''AUTH'']"
    using rep wait subs by (simp add: client_switch_def)
  with assms show ?thesis by (simp only: list_all_iff beside_def)
qed

lemma logged_names:
  "writeCommands nm \<or> read_only nm \<Longrightarrow> is_data nm" "beside nm \<Longrightarrow> \<not> is_data nm" "writeCommands nm \<Longrightarrow> \<not> read_only nm"
proof -
  have "list_all is_data ([''SET'', ''INCR'', ''RPUSH'', ''LPUSH'', ''LPOP'', ''BLPOP'', ''XADD'', ''ZADD''] @
       [''PING'', ''ECHO'', ''GET'', ''TYPE'', ''LLEN'', ''LRANGE'', ''XRANGE'', ''XREAD'', ''INFO'', ''KEYS'',
        ''CONFIG'', ''ZRANK'', ''ZRANGE'', ''ZCARD'', ''ZSCORE'', ''GETBIT'', ''STRLEN'', ''BITCOUNT'', ''GEOPOS'', ''GEODIST'', ''GEOSEARCH''])"
    by (simp add: is_data_def)
  then show "writeCommands nm \<or> read_only nm \<Longrightarrow> is_data nm"
    by (simp only: list_all_iff set_append writeCommands_def read_only_def) blast
  have "list_all (\<lambda>nm. \<not> is_data nm) [''PSYNC'', ''REPLCONF'', ''WAIT'', ''SUBSCRIBE'', ''PUBLISH'', ''UNSUBSCRIBE'', ''AUTH'']"
    by (simp add: is_data_def)
  then show "beside nm \<Longrightarrow> \<not> is_data nm" unfolding list_all_iff beside_def by (rule bspec)
  have "list_all (\<lambda>nm. \<not> read_only nm) [''SET'', ''INCR'', ''RPUSH'', ''LPUSH'', ''LPOP'', ''BLPOP'', ''XADD'', ''ZADD'']"
    by (simp add: read_only_def)
  then show "writeCommands nm \<Longrightarrow> \<not> read_only nm" unfolding list_all_iff writeCommands_def by (rule bspec)
qed

text \<open>Running \<open>cmd\<close> on any keyspace like that of \<open>w\<close>, at any time, is answered and gives that of \<open>w'\<close>.\<close>

definition reproduces :: "host \<Rightarrow> bytes list \<Rightarrow> world \<Rightarrow> world \<Rightarrow> bool" where
  "reproduces h cmd w w' \<longleftrightarrow>
     (\<forall>u t. agree w u \<longrightarrow> (\<exists>r s u'. run_data (h\<lparr>clock := t\<rparr>) cmd u = (Answer r s, u') \<and> agree w' u'))"

text \<open>The first section of a command that a log can reproduce.\<close>

lemma first_logged:
  assumes "client_first os (h\<lparr>clock := t\<rparr>) a cmd c w = (Continues out c' w', p)" and "cmd \<noteq> []" and "logged_command h cmd"
    and "quiet (db w)"
  shows "aof w' = aof w \<and> quiet (db w') \<and>
    (case p of None \<Rightarrow> db w' = db w | Some cmd' \<Rightarrow> cmd' = cmd \<and> clean_write h cmd \<and> reproduces h cmd w w')"
proof -
  let ?h = "h\<lparr>clock := t\<rparr>" and ?nm = "ToUpper (uni_upper h) (cmd ! 0)"
  show ?thesis
  proof (cases "reaches_switch a ?nm cmd c w \<and> is_data ?nm")
    case True
    with assms(1,2) obtain r s where run: "run_data ?h cmd w = (Answer r s, w')"
      and p: "p = (if writeCommands ?nm then Some cmd else None)"
      by (auto simp: client_first_def Let_def split: prod.splits outcome.splits)
    have q: "aof w' = aof w" "quiet (db w')" using run_data_steps(2) [OF run] quiet_run [OF run assms(4)] by simp_all
    have k: "clean_write h cmd \<or> read_only ?nm" using assms(3) True logged_names(2) by (auto simp: logged_command_def)
    show ?thesis
    proof (cases "writeCommands ?nm")
      case w: True
      then have cw: "clean_write h cmd" "clock_free ?nm cmd" using k logged_names(3) by (auto simp: clean_write_def)
      have "reproduces h cmd w w'"
        unfolding reproduces_def
      proof (intro allI impI)
        fix u t'
        assume ag: "agree w u"
        have run': "run_data ((h\<lparr>clock := t'\<rparr>)\<lparr>clock := t\<rparr>) cmd w = (Answer r s, w')" using run by simp
        from agree_write [OF ag assms(2) _ w cw(2) run'] show
          "\<exists>r s u'. run_data (h\<lparr>clock := t'\<rparr>) cmd u = (Answer r s, u') \<and> agree w' u'" by fastforce
      qed
      with q cw p w show ?thesis by simp
    next
      case False
      then have "read_only ?nm" using k by (auto simp: clean_write_def)
      with agree_read [OF assms(2) refl this run] q p False show ?thesis by simp
    qed
  next
    case False
    then have cmd: "client_command os ?h a cmd c w = Continues out c' w'" and p: "p = None"
      using assms(1,2) by (auto simp: client_first_def Let_def)
    have nm: "?nm = ToUpper (uni_upper ?h) (cmd ! 0)" by simp
    have "db w' = db w \<and> aof w' = aof w"
      using assms(2) nm
    proof (cases rule: client_command_cases [where c = c and w = w and b = a and os = os])
      case switch
      then have "\<not> is_data ?nm" using False by simp
      then have "beside ?nm" using assms(3) logged_names(1) by (auto simp: logged_command_def clean_write_def)
      with beside_keeps [of os ?h a ?nm cmd c w out c' w'] switch cmd show ?thesis by simp
    qed (use cmd assms(4) in \<open>auto simp: quiet_def zero_transaction_def\<close>)
    then show ?thesis using p assms(4) by simp
  qed
qed

section \<open>The process logs what it does\<close>

lemma blocked_in_simps [simp]:
  "blocked_in (\<sigma>\<lparr>ctx_done := x\<rparr>) = blocked_in \<sigma>" "blocked_in (\<sigma>\<lparr>listening := x\<rparr>) = blocked_in \<sigma>"
  "blocked_in (\<sigma>\<lparr>main_pc := m\<rparr>) = blocked_in \<sigma>" "blocked_in (\<sigma>\<lparr>sweeper := x\<rparr>) = blocked_in \<sigma>"
  "blocked_in (\<sigma>\<lparr>replicator := y\<rparr>) = blocked_in \<sigma>" "blocked_in (\<sigma>\<lparr>opened := x'\<rparr>) = blocked_in \<sigma>"
  "blocked_in (\<sigma>\<lparr>mem := w\<rparr>) = blocked_in \<sigma>"
  by (simp_all add: blocked_in_def fun_eq_iff)

lemma in_flight_simps [simp]:
  "in_flight (\<sigma>\<lparr>ctx_done := x\<rparr>) = in_flight \<sigma>" "in_flight (\<sigma>\<lparr>listening := x\<rparr>) = in_flight \<sigma>"
  "in_flight (\<sigma>\<lparr>main_pc := m\<rparr>) = in_flight \<sigma>" "in_flight (\<sigma>\<lparr>sweeper := x\<rparr>) = in_flight \<sigma>"
  "in_flight (\<sigma>\<lparr>opened := x'\<rparr>) = in_flight \<sigma>" "in_flight (\<sigma>\<lparr>mem := w\<rparr>) = in_flight \<sigma>"
  by (simp_all add: in_flight_def fun_eq_iff)

text \<open>One connection changes its stage.\<close>

fun carries :: "stage \<Rightarrow> bytes list option" where
  "carries (ToPropagate cmd) = Some cmd"
| "carries (ToAppend cmd) = Some cmd"
| "carries _ = None"

lemma in_flight_carries: "in_flight \<sigma> a cmd \<longleftrightarrow> (\<exists>cl. clients \<sigma> a = Some cl \<and> carries (cl_stage cl) = Some cmd)"
  by (auto simp: in_flight_def elim!: carries.elims)

lemma nobody_blocked:
  assumes "\<forall>a b. \<not> blocked_in \<sigma> a b" and "\<And>cl b. x = Some cl \<Longrightarrow> cl_stage cl \<noteq> Within b"
  shows "\<not> blocked_in (\<sigma>\<lparr>clients := (clients \<sigma>)(a := x)\<rparr>) c b"
  using assms by (auto simp: blocked_in_def)

lemma in_flight_update:
  "in_flight (\<sigma>\<lparr>clients := (clients \<sigma>)(a := x)\<rparr>) b cmd \<longleftrightarrow>
     (if b = a then (\<exists>cl. x = Some cl \<and> carries (cl_stage cl) = Some cmd) else in_flight \<sigma> b cmd)"
  by (auto simp: in_flight_carries)

text \<open>A step leaves the keyspace, the file and the writes in flight, or it executes a write, or it appends one.\<close>

lemma logged_step_cases:
  assumes "logged_step h \<sigma> e \<sigma>'" and "quiet_proc \<sigma>"
  obtains (beside_it) "quiet_proc \<sigma>'" "db (mem \<sigma>') = db (mem \<sigma>)" "aof (mem \<sigma>') = aof (mem \<sigma>)" "in_flight \<sigma>' = in_flight \<sigma>"
  | (wrote) a cmd where "quiet_proc \<sigma>'" "aof (mem \<sigma>') = aof (mem \<sigma>)" "clean_write h cmd" "reproduces h cmd (mem \<sigma>) (mem \<sigma>')"
      "\<And>b cmd'. \<not> in_flight \<sigma> b cmd'" "\<And>b cmd'. in_flight \<sigma>' b cmd' \<longleftrightarrow> b = a \<and> cmd' = cmd"
  | (appended) a cmd where "quiet_proc \<sigma>'" "db (mem \<sigma>') = db (mem \<sigma>)" "in_flight \<sigma> a cmd"
      "\<And>f. aof (mem \<sigma>) = Some f \<Longrightarrow> aof (mem \<sigma>') = Some (f\<lparr>aof_file := aof_file f @ EncodeRaw cmd\<rparr>)"
      "\<And>b cmd'. in_flight \<sigma>' b cmd' \<longleftrightarrow> b \<noteq> a \<and> in_flight \<sigma> b cmd'"
proof -
  from assms(1) have step: "proc_step \<sigma> e \<sigma>'" and k: "keeps_up h \<sigma> e" by (simp_all add: logged_step_def)
  note q = assms(2) [unfolded quiet_proc_def]
  have same: "in_flight (\<sigma>\<lparr>clients := (clients \<sigma>)(a := x)\<rparr>) = in_flight \<sigma>"
    if "(case clients \<sigma> a of None \<Rightarrow> None | Some cl \<Rightarrow> carries (cl_stage cl)) = (case x of None \<Rightarrow> None | Some cl \<Rightarrow> carries (cl_stage cl))" for a x
    using that by (auto simp: fun_eq_iff in_flight_update in_flight_carries split: option.splits)
  have quiet': "quiet_proc (\<sigma>\<lparr>clients := (clients \<sigma>)(a := x), mem := w\<rparr>)"
    if "clients \<sigma> a \<noteq> None" "case x of None \<Rightarrow> True | Some cl \<Rightarrow> \<forall>b. cl_stage cl \<noteq> Within b" "quiet (db w)" for a x w
    using that q nobody_blocked [of \<sigma> x a] by (auto simp: quiet_proc_def split: option.splits)
  from step show ?thesis
  proof cases
    case (accept a)
    have "clients \<sigma> a = None" using accept(5) q by auto
    moreover have "db (mem \<sigma>') = db (mem \<sigma>)" using q accept by (simp add: on_tx_def quiet_def fun_upd_idem)
    moreover have "\<not> blocked_in \<sigma>' c b" for c b
      unfolding accept(2) using q by (auto simp: blocked_in_def new_client_def)
    then have "quiet_proc \<sigma>'" using q accept calculation by (auto simp: quiet_proc_def)
    ultimately show ?thesis
      using same [of a "Some (new_client (mem \<sigma>))"] accept by (intro beside_it) (simp_all add: new_client_def)
  next
    case (serve a cl cmd rest os h')
    let ?res = "client_first os h' a cmd (cl_conn cl) (mem \<sigma>)" and ?cl = "cl\<lparr>cl_buf := rest\<rparr>"
    have f: "h' = h\<lparr>clock := clock h'\<rparr>" "logged_command h cmd" "answered (fst ?res)"
      and alone: "clean_write h cmd \<Longrightarrow> \<not> in_flight \<sigma> b cmd'" for b cmd'
      using k serve by (auto simp: keeps_up_def)
    have ne: "cmd \<noteq> []" using serve(7) ReadCommand_result by (fastforce simp: command_in_limits_def)
    obtain r p where res: "?res = (r, p)" by fastforce
    show ?thesis
    proof (cases r)
      case (Continues out c w)
      then have "client_first os (h\<lparr>clock := clock h'\<rparr>) a cmd (cl_conn cl) (mem \<sigma>) = (Continues out c w, p)"
        using res f(1) by simp
      from first_logged [OF this ne f(2)] q have l: "aof w = aof (mem \<sigma>)" "quiet (db w)"
        "case p of None \<Rightarrow> db w = db (mem \<sigma>) | Some cmd' \<Rightarrow> cmd' = cmd \<and> clean_write h cmd \<and> reproduces h cmd (mem \<sigma>) w" by simp_all
      let ?st = "case p of None \<Rightarrow> Reading | Some cmd \<Rightarrow> ToPropagate cmd"
      let ?x = "Some (?cl\<lparr>cl_conn := c, cl_stage := ?st\<rparr>)"
      have \<sigma>': "\<sigma>' = \<sigma>\<lparr>clients := (clients \<sigma>)(a := ?x), mem := w\<rparr>" using serve(2) res Continues by simp
      have "quiet_proc \<sigma>'" unfolding \<sigma>' using serve l(2) by (intro quiet') (auto split: option.splits)
      show ?thesis
      proof (cases p)
        case None
        then have "in_flight \<sigma>' = in_flight \<sigma>" using same [of a ?x] serve(5,6) by (simp add: \<sigma>')
        with None \<open>quiet_proc \<sigma>'\<close> l show ?thesis by (intro beside_it) (simp_all add: \<sigma>')
      next
        case (Some cmd')
        then have w: "cmd' = cmd" "clean_write h cmd" "reproduces h cmd (mem \<sigma>) w" using l(3) by simp_all
        have "in_flight \<sigma>' b c' \<longleftrightarrow> b = a \<and> c' = cmd" for b c'
          using alone [OF w(2)] Some w(1) by (auto simp: \<sigma>' in_flight_update)
        with wrote [of cmd a] \<open>quiet_proc \<sigma>'\<close> l(1) w alone show ?thesis by (simp add: \<sigma>')
      qed
    next
      case Panics
      then show ?thesis using serve res q by (intro beside_it) (simp_all add: quiet_proc_def)
    qed (use f(3) res in \<open>simp add: answered_def\<close>)
  next
    case (propagate_write a cl cmd sent r)
    then show ?thesis
      using same [of a "Some (cl\<lparr>cl_stage := ToAppend cmd\<rparr>)"] quiet' [of a "Some (cl\<lparr>cl_stage := ToAppend cmd\<rparr>)"] q
      by (intro beside_it) simp_all
  next
    case (append_write a cl cmd os)
    have "os_write os = WroteAll" using k append_write by (simp add: keeps_up_def)
    then show ?thesis
      using append_write q quiet' [of a "Some (cl\<lparr>cl_stage := Reading\<rparr>)"]
      by (intro appended [of a cmd]) (auto simp: in_flight_update in_flight_def Append_def)
  next
    case (wake a cl b wk os h' res)
    then show ?thesis using q by (auto simp: blocked_in_def)
  next
    case (hangup a cl e)
    then show ?thesis using same [of a None] quiet' [of a None "mem \<sigma>'"] q
      by (intro beside_it) (simp_all add: leave_def)
  next
    case (read_fails a cl e)
    then show ?thesis using same [of a None] quiet' [of a None "mem \<sigma>'"] q
      by (intro beside_it) (simp_all add: leave_def)
  next
    case (receive a cl bs)
    then show ?thesis using same [of a "Some (cl\<lparr>cl_buf := cl_buf cl @ bs\<rparr>)"] quiet' [of a "Some (cl\<lparr>cl_buf := cl_buf cl @ bs\<rparr>)" "mem \<sigma>"] q
      by (intro beside_it) (auto simp: blocked_in_def)
  next
    case (set_deadline a cl)
    then show ?thesis using same [of a "Some (cl\<lparr>cl_deadline := True\<rparr>)"] quiet' [of a "Some (cl\<lparr>cl_deadline := True\<rparr>)" "mem \<sigma>"] q
      by (intro beside_it) (auto simp: blocked_in_def)
  qed (use q k in \<open>auto intro!: beside_it simp: quiet_proc_def accept_error_def keeps_up_def sweep_def split: if_splits\<close>)
qed

text \<open>
  The process beside the state its file stands for: the one before the write in flight, or its own.
\<close>

definition ghost_step :: "host \<Rightarrow> proc \<times> world \<Rightarrow> proc_event \<Rightarrow> proc \<times> world \<Rightarrow> bool" where
  "ghost_step h g e g' \<longleftrightarrow> logged_step h (fst g) e (fst g') \<and>
     snd g' = (if \<exists>a cmd. in_flight (fst g') a cmd then snd g else mem (fst g'))"

definition lagging :: "host \<Rightarrow> proc \<times> world \<Rightarrow> bool" where
  "lagging h g \<longleftrightarrow> quiet_proc (fst g) \<and> aof (snd g) = aof (mem (fst g)) \<and>
     (\<forall>a cmd. in_flight (fst g) a cmd \<longrightarrow> clean_write h cmd \<and> reproduces h cmd (snd g) (mem (fst g)) \<and>
        (\<forall>b cmd'. in_flight (fst g) b cmd' \<longrightarrow> b = a)) \<and>
     ((\<forall>a cmd. \<not> in_flight (fst g) a cmd) \<longrightarrow> snd g = mem (fst g))"

lemma reproduces_same: "db v = db w' \<Longrightarrow> reproduces h cmd w v \<longleftrightarrow> reproduces h cmd w w'"
  by (simp add: reproduces_def agree_def)

lemma reproduces_logs:
  assumes "reproduces h cmd v w" and "clean_write h cmd" and "aof v = Some f" and "db w' = db w"
    and "aof w' = Some (f\<lparr>aof_file := aof_file f @ EncodeRaw cmd\<rparr>)"
  shows "logs_as h v f w'"
proof -
  have "\<exists>u'. go_fold (recover_cb (h\<lparr>clock := t\<rparr>)) [cmd] (u, None) = Ret (u', None) \<and> agree w' u'" if "agree v u" for u t
  proof -
    from assms(1) that obtain r s u' where "run_data (h\<lparr>clock := t\<rparr>) cmd u = (Answer r s, u')" "agree w u'"
      unfolding reproduces_def by blast
    with assms(4) show ?thesis by (simp add: recover_cb_run agree_def)
  qed
  with assms(2,5) show ?thesis unfolding logs_as_def by (intro exI [of _ "[cmd]"]) simp
qed

lemma ghost_keeps:
  assumes "ghost_step h g e g'" and "lagging h g"
  shows "lagging h g' \<and> (\<forall>f. aof (snd g) = Some f \<longrightarrow> logs_as h (snd g) f (snd g'))"
proof -
  obtain \<sigma> v \<sigma>' v' where g: "g = (\<sigma>, v)" "g' = (\<sigma>', v')" by fastforce
  have step: "logged_step h \<sigma> e \<sigma>'" and v': "v' = (if \<exists>a cmd. in_flight \<sigma>' a cmd then v else mem \<sigma>')"
    using assms(1) unfolding ghost_step_def g fst_conv snd_conv by blast+
  note l = assms(2) [unfolded lagging_def g fst_conv snd_conv]
  from step l [THEN conjunct1] show ?thesis
  proof (cases rule: logged_step_cases)
    case beside_it
    show ?thesis
    proof (cases "\<exists>a cmd. in_flight \<sigma> a cmd")
      case True
      then have "v' = v" using v' beside_it(4) by simp
      with l True beside_it show ?thesis
        by (auto simp add: lagging_def g reproduces_same [OF beside_it(2)] logs_as_same)
    next
      case False
      then have "v' = mem \<sigma>'" "v = mem \<sigma>" using v' beside_it(4) l by simp_all
      with False beside_it show ?thesis by (simp add: lagging_def g logs_as_same)
    qed
  next
    case (wrote a cmd)
    then have "v' = v" "v = mem \<sigma>" using v' l by simp_all
    with wrote show ?thesis by (simp add: lagging_def g logs_as_same)
  next
    case (appended a cmd)
    have w: "clean_write h cmd" "reproduces h cmd v (mem \<sigma>)" "aof v = aof (mem \<sigma>)" using l appended(3) by simp_all
    have none: "\<not> in_flight \<sigma>' b cmd'" for b cmd' using l appended(3,5) by blast
    then have "v' = mem \<sigma>'" using v' by simp
    with appended w none reproduces_logs [OF w(2,1), of _ "mem \<sigma>'"] show ?thesis by (simp add: lagging_def g)
  qed
qed

interpretation serving: logged_system h "ghost_step h" "lagging h" snd for h
  by unfold_locales (use ghost_keeps in blast)+

text \<open>Every run can be watched in this way.\<close>

lemma ghost_run: "run_of (logged_step h) \<sigma> es \<sigma>' \<Longrightarrow> \<exists>v'. run_of (ghost_step h) (\<sigma>, v) es (\<sigma>', v')"
proof (induction arbitrary: v rule: run_of.induct)
  case (run_cons \<sigma> e \<sigma>1 es \<sigma>2)
  let ?v = "if \<exists>a cmd. in_flight \<sigma>1 a cmd then v else mem \<sigma>1"
  have "ghost_step h (\<sigma>, v) e (\<sigma>1, ?v)" using run_cons.hyps(1) unfolding ghost_step_def fst_conv snd_conv by blast
  with run_cons.IH [of ?v] show ?case using run_of.run_cons [of "ghost_step h"] by blast
qed (auto intro: run_of.run_nil)

lemma lagging_run: "run_of (ghost_step h) g es g' \<Longrightarrow> lagging h g \<Longrightarrow> lagging h g'"
  by (induction rule: run_of.induct) (use ghost_keeps in blast)+

section \<open>Properties\<close>

text \<open>C4. A restart recovers the data, except for the write that was not yet in the file. Start a master with any flags
  that ask for the append-only file, on a disk whose file is empty, missing or holds whole records of writes that do not need the clock.
  Let any number of clients connect, send commands in pieces, be refused, publish, subscribe, attach replicas, read and write;
  let signals come and goroutines panic, under these conditions: the commands served are reads, control commands other than
  those of transactions (no MULTI, EXEC, DISCARD, WATCH, UNWATCH), and propagated writes that do not need the clock; none of
  them blocks; a write is only begun when the one before it has been appended; every append is whole; and the
  sweeper removes nothing. Stop or kill the process anywhere, also between the three sections of a write, and start it
  again, at any time: the start succeeds, and the disk is again one that this holds for. When no write is between its
  execution and its append, the keyspace is exactly the one that was lost; otherwise it is the one before that write, which
  executed on it would give the one that was lost.\<close>

theorem crash_recovers:
  assumes "parseFlags join fl = Inr cfg" and "appendOnly cfg" and "\<not> isReplica cfg" and "plain_word (appendFilename cfg)"
    and "clean_disk h cfg d" and "main_start join (h\<lparr>clock := t0\<rparr>) fl d True = Up \<sigma>0"
    and "run_of (logged_step h) \<sigma>0 es \<sigma>"
  shows "\<exists>f \<sigma>1. aof (mem \<sigma>) = Some f \<and> main_start join (h\<lparr>clock := t1\<rparr>) fl (left_behind cfg d f) True = Up \<sigma>1 \<and>
    clean_disk h cfg (left_behind cfg d f) \<and>
    ((\<forall>a cmd. \<not> in_flight \<sigma> a cmd) \<longrightarrow> db (mem \<sigma>1) = db (mem \<sigma>)) \<and>
    (\<forall>a cmd. in_flight \<sigma> a cmd \<longrightarrow>
       (\<exists>r s w'. run_data (h\<lparr>clock := t2\<rparr>) cmd (mem \<sigma>1) = (Answer r s, w') \<and> db w' = db (mem \<sigma>)))"
proof -
  from assms(1,6) obtain w0 where b: "boot (h\<lparr>clock := t0\<rparr>) cfg d = Ready w0" and \<sigma>0: "\<sigma>0 = started cfg w0"
    by (auto simp: main_start_def split: boot_result.splits)
  have m: "mem \<sigma>0 = w0" "clients \<sigma>0 = Map.empty" by (simp_all add: \<sigma>0 started_def)
  have "quiet (db w0)" using quiet_boot [OF assms(2,5) b] .
  then have "quiet_proc \<sigma>0" using assms(3) by (simp add: quiet_proc_def m blocked_in_def) (simp add: \<sigma>0 started_def)
  then have l0: "lagging h (\<sigma>0, w0)" by (simp add: lagging_def in_flight_def m)
  from ghost_run [OF assms(7)] obtain v where run: "run_of (ghost_step h) (\<sigma>0, w0) es (\<sigma>, v)" by blast
  have "boot (h\<lparr>clock := t0\<rparr>) cfg d = Ready (snd (\<sigma>0, w0))" using b by simp
  from serving.recovers [OF assms(2,4,5) this l0 run, of t1] obtain f w where
    f: "aof v = Some f" and w: "boot (h\<lparr>clock := t1\<rparr>) cfg (left_behind cfg d f) = Ready w" "db w = db v"
    and clean: "clean_disk h cfg (left_behind cfg d f)" by auto
  have l: "lagging h (\<sigma>, v)" using lagging_run [OF run l0] .
  have up: "main_start join (h\<lparr>clock := t1\<rparr>) fl (left_behind cfg d f) True = Up (started cfg w)"
    using w(1) assms(1) by (simp add: main_start_def)
  have "\<exists>r s w'. run_data (h\<lparr>clock := t2\<rparr>) cmd w = (Answer r s, w') \<and> db w' = db (mem \<sigma>)" if "in_flight \<sigma> a cmd" for a cmd
    using l that w(2) unfolding lagging_def reproduces_def agree_def fst_conv snd_conv by metis
  with f up clean l w(2) show ?thesis
    by (intro exI [of _ f] exI [of _ "started cfg w"]) (simp add: lagging_def started_def)
qed

text \<open>A client connects, its SET arrives, and it is served.\<close>

definition aof_flags :: flags where
  "aof_flags = \<lparr>fl_port = 6379, fl_replicaof = [], fl_dir = [], fl_dbfilename = [], fl_appendonly = ''yes'', fl_appenddirname = [],
     fl_appendfilename = ''a'', fl_appendfsync = ''always''\<rparr>"

abbreviation example_set :: "bytes list" where "example_set \<equiv> [''SET'', ''k'', ''v'']"

lemma example_set_limits: "command_in_limits example_set"
  by (simp add: command_in_limits_def maxArrayLen_def maxBulkLength_def)

lemma example_set_served:
  assumes "db w = newStore" and "currentUser c \<noteq> None" and "subscribed c = {}"
  shows "client_first plain_os h a example_set c w =
    (Continues [(a, ok_reply)] c (w\<lparr>db := Set ''k'' ''v'' zero_time newStore\<rparr>), Some example_set)"
  using assms
  by (simp add: client_first_def reaches_switch_def is_data_def SET_run writeCommands_def Let_def newStore_def zero_transaction_def)

lemma example_session:
  assumes "db w = newStore" and "srv w = newServer cfg"
  obtains \<sigma>1 \<sigma>2 \<sigma>3 \<sigma>4 \<sigma>5 cl where "proc_step (started cfg w) (Accept 7) \<sigma>1" and "proc_step \<sigma>1 (Receive 7 (EncodeRaw example_set)) \<sigma>2"
    and "proc_step \<sigma>2 (Serve 7 plain_os (host_example\<lparr>clock := 5\<rparr>)) \<sigma>3" and "proc_step \<sigma>3 (Propagate 7) \<sigma>4"
    and "proc_step \<sigma>4 (AppendLog 7 plain_os) \<sigma>5"
    and "clients \<sigma>2 = [7 \<mapsto> cl]" and "cl_stage cl = Reading" and "ReadCommand (cl_buf cl) = Inr (example_set, [])"
    and "answered (fst (client_first plain_os (host_example\<lparr>clock := 5\<rparr>) 7 example_set (cl_conn cl) (mem \<sigma>2)))"
    and "in_flight \<sigma>3 7 example_set" and "\<forall>a cmd. \<not> in_flight \<sigma>5 a cmd"
    and "db (mem \<sigma>3) = Set ''k'' ''v'' zero_time newStore" and "db (mem \<sigma>5) = Set ''k'' ''v'' zero_time newStore"
proof -
  let ?\<sigma>0 = "started cfg w" and ?cl = "new_client w" and ?w = "on_tx 7 (\<lambda>_. zero_transaction) w" and ?h = "host_example\<lparr>clock := 5\<rparr>"
  let ?\<sigma>1 = "?\<sigma>0\<lparr>clients := (clients ?\<sigma>0)(7 \<mapsto> new_client (mem ?\<sigma>0)), opened := insert 7 (opened ?\<sigma>0),
      mem := on_tx 7 (\<lambda>_. zero_transaction) (mem ?\<sigma>0)\<rparr>"
  let ?cl' = "?cl\<lparr>cl_buf := cl_buf ?cl @ EncodeRaw example_set\<rparr>"
  let ?\<sigma>2 = "?\<sigma>1\<lparr>clients := (clients ?\<sigma>1)(7 \<mapsto> ?cl')\<rparr>"
  let ?cl3 = "?cl'\<lparr>cl_buf := [], cl_conn := open_conn w, cl_stage := ToPropagate example_set\<rparr>"
  let ?\<sigma>3 = "?\<sigma>2\<lparr>clients := (clients ?\<sigma>2)(7 \<mapsto> ?cl3), mem := ?w\<lparr>db := Set ''k'' ''v'' zero_time newStore\<rparr>\<rparr>"
  obtain sent r where sent: "propagate example_set (srv_replicas (srv (mem ?\<sigma>3))) = (sent, r)" by fastforce
  let ?cl4 = "?cl3\<lparr>cl_stage := ToAppend example_set\<rparr>"
  let ?\<sigma>4 = "?\<sigma>3\<lparr>clients := (clients ?\<sigma>3)(7 \<mapsto> ?cl4), mem := (mem ?\<sigma>3)\<lparr>srv := (srv (mem ?\<sigma>3))\<lparr>srv_replicas := r\<rparr>\<rparr>\<rparr>"
  let ?\<sigma>5 = "?\<sigma>4\<lparr>clients := (clients ?\<sigma>4)(7 \<mapsto> ?cl4\<lparr>cl_stage := Reading\<rparr>),
      mem := (mem ?\<sigma>4)\<lparr>aof := snd (Append (os_write plain_os) (os_sync plain_os) (EncodeRaw example_set) (aof (mem ?\<sigma>4)))\<rparr>\<rparr>"
  have cl: "cl_conn ?cl = open_conn w" "cl_buf ?cl' = EncodeRaw example_set" "cl_stage ?cl = Reading" "\<not> cl_deadline ?cl"
    by (simp_all add: new_client_def)
  have m: "mem ?\<sigma>0 = w" "clients ?\<sigma>0 = Map.empty" "alive ?\<sigma>0" "main_pc ?\<sigma>0 = Accepting" "listening ?\<sigma>0" "opened ?\<sigma>0 = {}"
    by (simp_all add: started_def alive_def)
  have "db ?w = newStore" "currentUser (open_conn w) \<noteq> None" "subscribed (open_conn w) = {}"
    using assms by (simp_all add: on_tx_def newStore_def open_conn_def newServer_def newAcl_def defaultIfNoPass_def fun_upd_idem)
  note run = example_set_served [OF this, of ?h 7]
  have read: "ReadCommand (EncodeRaw example_set) = Inr (example_set, [])"
    using resp_raw.dec_enc [OF example_set_limits, of "[]"] by simp
  have serve: "iterate 7 (?cl'\<lparr>cl_buf := []\<rparr>) (client_first plain_os ?h 7 example_set (cl_conn ?cl') (mem ?\<sigma>2)) ?\<sigma>2 = ?\<sigma>3"
    using run by (simp add: m cl)
  have al: "alive ?\<sigma>1" "alive ?\<sigma>2" "alive ?\<sigma>3" "alive ?\<sigma>4" using m(3) by (simp_all add: alive_def)
  have free: "store_free ?\<sigma>2" by (simp add: store_free_def blocked_in_def started_def new_follower_def new_client_def)
  show ?thesis
  proof (rule that [of ?\<sigma>1 ?\<sigma>2 ?\<sigma>3 ?\<sigma>4 ?\<sigma>5 ?cl'])
    show "proc_step ?\<sigma>0 (Accept 7) ?\<sigma>1" by (rule proc_step.accept) (simp_all add: m)
    show "proc_step ?\<sigma>1 (Receive 7 (EncodeRaw example_set)) ?\<sigma>2" by (rule proc_step.receive [OF al(1)]) (simp_all add: m cl)
    show "proc_step ?\<sigma>2 (Serve 7 plain_os ?h) ?\<sigma>3"
      by (subst serve [symmetric], rule proc_step.serve [OF al(2) free]) (simp_all add: cl read)
    show "proc_step ?\<sigma>3 (Propagate 7) ?\<sigma>4" by (rule proc_step.propagate_write [OF al(3) _ _ sent]) simp_all
    show "proc_step ?\<sigma>4 (AppendLog 7 plain_os) ?\<sigma>5" by (rule proc_step.append_write [OF al(4)]) simp_all
    show "answered (fst (client_first plain_os ?h 7 example_set (cl_conn ?cl') (mem ?\<sigma>2)))"
      using run by (simp add: answered_def m cl)
  qed (simp_all add: cl read m in_flight_def)
qed

lemma example_logged:
  assumes "db w = newStore" and "srv w = newServer cfg"
  shows "\<exists>\<sigma> \<sigma>'. run_of (logged_step host_example) (started cfg w)
      [Accept 7, Receive 7 (EncodeRaw example_set), Serve 7 plain_os (host_example\<lparr>clock := 5\<rparr>)] \<sigma> \<and>
    run_of (logged_step host_example) \<sigma> [Propagate 7, AppendLog 7 plain_os] \<sigma>' \<and>
    in_flight \<sigma> 7 example_set \<and> (\<forall>a cmd. \<not> in_flight \<sigma>' a cmd) \<and>
    db (mem \<sigma>) = Set ''k'' ''v'' zero_time newStore \<and> db (mem \<sigma>') = Set ''k'' ''v'' zero_time newStore"
proof -
  let ?h = "host_example\<lparr>clock := 5\<rparr>"
  from assms obtain \<sigma>1 \<sigma>2 \<sigma>3 \<sigma>4 \<sigma>5 cl where
    steps: "proc_step (started cfg w) (Accept 7) \<sigma>1" "proc_step \<sigma>1 (Receive 7 (EncodeRaw example_set)) \<sigma>2"
    "proc_step \<sigma>2 (Serve 7 plain_os ?h) \<sigma>3" "proc_step \<sigma>3 (Propagate 7) \<sigma>4" "proc_step \<sigma>4 (AppendLog 7 plain_os) \<sigma>5"
    and cl: "clients \<sigma>2 = [7 \<mapsto> cl]" "cl_stage cl = Reading" "ReadCommand (cl_buf cl) = Inr (example_set, [])"
    "answered (fst (client_first plain_os ?h 7 example_set (cl_conn cl) (mem \<sigma>2)))"
    and ends: "in_flight \<sigma>3 7 example_set" "\<forall>a cmd. \<not> in_flight \<sigma>5 a cmd"
    "db (mem \<sigma>3) = Set ''k'' ''v'' zero_time newStore" "db (mem \<sigma>5) = Set ''k'' ''v'' zero_time newStore"
    by (rule example_session)
  have "\<not> in_flight \<sigma>2 b cmd" for b cmd using cl(1,2) by (auto simp: in_flight_def split: if_splits)
  then have "keeps_up host_example \<sigma>2 (Serve 7 plain_os ?h)"
    using cl example_set_limits by (simp add: keeps_up_def logged_command_def clean_write_def writeCommands_def clock_free_def)
  then have k: "logged_step host_example (started cfg w) (Accept 7) \<sigma>1" "logged_step host_example \<sigma>1 (Receive 7 (EncodeRaw example_set)) \<sigma>2"
    "logged_step host_example \<sigma>2 (Serve 7 plain_os ?h) \<sigma>3" "logged_step host_example \<sigma>3 (Propagate 7) \<sigma>4"
    "logged_step host_example \<sigma>4 (AppendLog 7 plain_os) \<sigma>5"
    using steps by (simp_all add: logged_step_def keeps_up_def plain_os_def)
  have "run_of (logged_step host_example) (started cfg w) [Accept 7, Receive 7 (EncodeRaw example_set), Serve 7 plain_os ?h] \<sigma>3"
    "run_of (logged_step host_example) \<sigma>3 [Propagate 7, AppendLog 7 plain_os] \<sigma>5"
    unfolding run_of_Cons run_of_Nil using k by blast+
  with ends show ?thesis by blast
qed

lemma example_boot:
  fixes cfg :: config
  defines "cfg \<equiv> aof_config\<lparr>port := 6379\<rparr>"
  shows "parseFlags (\<lambda>a b. []) aof_flags = Inr cfg" and "clean_disk host_example cfg example_disk"
    and "appendOnly cfg" and "\<not> isReplica cfg" and "plain_word (appendFilename cfg)"
    and "boot (host_example\<lparr>clock := t\<rparr>) cfg example_disk =
      Ready \<lparr>db = newStore, srv = newServer cfg, aof = Some \<lparr>aof_file = [], aof_fsync = ''always''\<rparr>\<rparr>"
proof -
  have incr: "aof_incr_name cfg (manifest_file example_disk) = Inr (''a'', None)" unfolding cfg_def by code_simp
  show "parseFlags (\<lambda>a b. []) aof_flags = Inr cfg"
    by (simp add: cfg_def parseFlags_def aof_flags_def aof_config_def zero_config_def)
  show d: "appendOnly cfg" "\<not> isReplica cfg" "plain_word (appendFilename cfg)"
    by (simp_all add: cfg_def aof_config_def zero_config_def plain_word_def)
  have e: "open_incr example_disk ''a'' = Some []" by (simp add: example_disk_def)
  show "clean_disk host_example cfg example_disk"
    unfolding clean_disk_def using incr e by (intro exI [of _ "''a''"] exI [of _ None] exI [of _ "[]"]) simp
  show "boot (host_example\<lparr>clock := t\<rparr>) cfg example_disk =
      Ready \<lparr>db = newStore, srv = newServer cfg, aof = Some \<lparr>aof_file = [], aof_fsync = ''always''\<rparr>\<rparr>"
    using incr d e by (simp add: boot_def Let_def Replay_def replay_loop.simps [of _ "[]"] boot_rdb_def example_disk_def)
      (simp add: cfg_def aof_config_def zero_config_def)
qed

theorem crash_recovers_witness:
  "\<exists>join cfg \<sigma>0 \<sigma> \<sigma>' f f' \<sigma>1 \<sigma>1'. main_start join (host_example\<lparr>clock := 0\<rparr>) aof_flags example_disk True = Up \<sigma>0 \<and>
     run_of (logged_step host_example) \<sigma>0
       [Accept 7, Receive 7 (EncodeRaw example_set), Serve 7 plain_os (host_example\<lparr>clock := 5\<rparr>)] \<sigma> \<and> in_flight \<sigma> 7 example_set \<and>
     aof (mem \<sigma>) = Some f \<and> main_start join (host_example\<lparr>clock := 9\<rparr>) aof_flags (left_behind cfg example_disk f) True = Up \<sigma>1 \<and>
     (\<exists>r s w. run_data (host_example\<lparr>clock := 9\<rparr>) example_set (mem \<sigma>1) = (Answer r s, w) \<and> db w = db (mem \<sigma>)) \<and>
     run_of (logged_step host_example) \<sigma>0
       [Accept 7, Receive 7 (EncodeRaw example_set), Serve 7 plain_os (host_example\<lparr>clock := 5\<rparr>), Propagate 7, AppendLog 7 plain_os] \<sigma>' \<and>
     aof (mem \<sigma>') = Some f' \<and> main_start join (host_example\<lparr>clock := 9\<rparr>) aof_flags (left_behind cfg example_disk f') True = Up \<sigma>1' \<and>
     db (mem \<sigma>1') = db (mem \<sigma>') \<and> Get 9 ''k'' (db (mem \<sigma>1')) = (''v'', True)"
proof -
  let ?join = "\<lambda>a b. [] :: string" and ?cfg = "aof_config\<lparr>port := 6379\<rparr>"
  note ex = example_boot
  let ?w0 = "\<lparr>db = newStore, srv = newServer ?cfg, aof = Some \<lparr>aof_file = [], aof_fsync = ''always''\<rparr>\<rparr>"
  have up: "main_start ?join (host_example\<lparr>clock := 0\<rparr>) aof_flags example_disk True = Up (started ?cfg ?w0)"
    by (simp add: main_start_def ex)
  obtain \<sigma> \<sigma>' where run: "run_of (logged_step host_example) (started ?cfg ?w0)
      [Accept 7, Receive 7 (EncodeRaw example_set), Serve 7 plain_os (host_example\<lparr>clock := 5\<rparr>)] \<sigma>"
    and more: "run_of (logged_step host_example) \<sigma> [Propagate 7, AppendLog 7 plain_os] \<sigma>'"
    and fl: "in_flight \<sigma> 7 example_set" "\<And>a cmd. \<not> in_flight \<sigma>' a cmd"
    and db: "db (mem \<sigma>') = Set ''k'' ''v'' zero_time newStore" using example_logged [of ?w0 ?cfg] by auto
  have run': "run_of (logged_step host_example) (started ?cfg ?w0)
      [Accept 7, Receive 7 (EncodeRaw example_set), Serve 7 plain_os (host_example\<lparr>clock := 5\<rparr>), Propagate 7, AppendLog 7 plain_os] \<sigma>'"
    using run_of_append [OF run more] by simp
  note c = crash_recovers [where ?t1.0 = 9 and ?t2.0 = 9, OF ex(1,3-5,2) up]
  from c [OF run] fl(1) obtain f \<sigma>1 where
    1: "aof (mem \<sigma>) = Some f" "main_start ?join (host_example\<lparr>clock := 9\<rparr>) aof_flags (left_behind ?cfg example_disk f) True = Up \<sigma>1"
    "\<exists>r s w. run_data (host_example\<lparr>clock := 9\<rparr>) example_set (mem \<sigma>1) = (Answer r s, w) \<and> db w = db (mem \<sigma>)" by blast
  from c [OF run'] fl(2) obtain f' \<sigma>1' where
    2: "aof (mem \<sigma>') = Some f'" "main_start ?join (host_example\<lparr>clock := 9\<rparr>) aof_flags (left_behind ?cfg example_disk f') True = Up \<sigma>1'"
    "db (mem \<sigma>1') = db (mem \<sigma>')" by blast
  have "Get 9 ''k'' (db (mem \<sigma>1')) = (''v'', True)"
    by (simp add: 2(3) db Get_def Set_def Let_def zero_entry_def IsZero_def)
  with up run fl(1) 1 run' 2 show ?thesis by blast
qed

text \<open>C38. Defect: a write is applied, propagated and appended in three separate steps, so two clients can be appended in the
  other order than they were applied. Two connections of a server that has started on a clean file set the same key; the
  first is held up after its SET was applied. The live value is then that of the second, and a restart on the file,
  at any time, gives that of the first.\<close>

theorem append_order_race:
  assumes "appendOnly cfg" and "plain_word (appendFilename cfg)" and "clean_disk h cfg d"
    and "boot (h\<lparr>clock := t0\<rparr>) cfg d = Ready (shared \<sigma>)"
    and "a \<noteq> b" and "pcs \<sigma> a = Idle" and "pcs \<sigma> b = Idle"
    and "reaches_switch a ''SET'' [''SET'', k, x] (conns \<sigma> a) (shared \<sigma>)"
    and "reaches_switch b ''SET'' [''SET'', k, y] (conns \<sigma> b) (shared \<sigma>)"
    and "command_in_limits [''SET'', k, x]" and "command_in_limits [''SET'', k, y]" and "os_write os = WroteAll" and "x \<noteq> y"
  shows "\<exists>\<sigma>' f w. run_of sys_step \<sigma> [Event a os h' [''SET'', k, x], Event b os h' [''SET'', k, y],
      Event b os h' [''SET'', k, y], Event b os h' [''SET'', k, y], Event a os h' [''SET'', k, x], Event a os h' [''SET'', k, x]] \<sigma>' \<and>
    aof (shared \<sigma>') = Some f \<and> boot (h\<lparr>clock := t1\<rparr>) cfg (left_behind cfg d f) = Ready w \<and>
    Get now k (db (shared \<sigma>')) = (y, True) \<and> Get now k (db w) = (x, True) \<and> db w \<noteq> db (shared \<sigma>')"
proof -
  let ?x = "[''SET'', k, x]" and ?y = "[''SET'', k, y]" and ?h = "h\<lparr>clock := t1\<rparr>"
  let ?w = "\<lambda>s log. \<lparr>db = s, srv = newServer cfg, aof = Some \<lparr>aof_file = concat (map EncodeRaw log), aof_fsync = appendFsync cfg\<rparr>\<rparr>"
  from assms(3) obtain incr created log where
    d: "aof_incr_name cfg (manifest_file d) = Inr (incr, created)" "open_incr d incr = Some (concat (map EncodeRaw log))"
    and log: "list_all (clean_write h) log" by (auto simp: clean_disk_def)
  from assms(4) boot_clean [OF assms(1) d log] obtain s where s: "boot_rdb cfg d = (None, s)" "mkdir_ok d" "reopen_ok d"
    and w0: "go_fold (recover_cb (h\<lparr>clock := t0\<rparr>)) log (?w s log, None) = Ret (shared \<sigma>, None)" by auto
  have a0: "aof (shared \<sigma>) = Some \<lparr>aof_file = concat (map EncodeRaw log), aof_fsync = appendFsync cfg\<rparr>"
    using recover_keeps_aof [OF w0] by simp
  from append_order_run [OF assms(5-7) a0 assms(8,9,12), of h' now] obtain \<sigma>' where
    run: "run_of sys_step \<sigma> [Event a os h' ?x, Event b os h' ?y, Event b os h' ?y, Event b os h' ?y, Event a os h' ?x, Event a os h' ?x] \<sigma>'"
    and live: "Get now k (db (shared \<sigma>')) = (y, True)"
    and f: "aof (shared \<sigma>') = Some \<lparr>aof_file = concat (map EncodeRaw (log @ [?y, ?x])), aof_fsync = appendFsync cfg\<rparr>" by auto
  have clean: "list_all (clean_write h) (log @ [?y, ?x])"
    using log assms(10,11) by (simp add: clean_write_def writeCommands_def clock_free_def)
  have "go_fold (recover_cb (?h\<lparr>clock := t0\<rparr>)) log (?w s log, None) = Ret (shared \<sigma>, None)" "list_all (clean_write ?h) log"
    using w0 log by simp_all
  from clean_replay [OF this, of "?w s (log @ [?y, ?x])"] obtain v where
    v: "go_fold (recover_cb ?h) log (?w s (log @ [?y, ?x]), None) = Ret (v, None)" by (auto simp: agree_def)
  let ?v = "v\<lparr>db := Set k x zero_time (Set k y zero_time (db v))\<rparr>"
  have "go_fold (recover_cb ?h) (log @ [?y, ?x]) (?w s (log @ [?y, ?x]), None) = Ret (?v, None)"
    using v by (simp add: go_fold_append recover_cb_run SET_run)
  then have "boot ?h cfg (left_behind cfg d \<lparr>aof_file = concat (map EncodeRaw (log @ [?y, ?x])), aof_fsync = appendFsync cfg\<rparr>) = Ready ?v"
    using boot_left_behind [OF assms(1,2) d(1) s _ clean, of "\<lparr>aof_file = concat (map EncodeRaw (log @ [?y, ?x])), aof_fsync = appendFsync cfg\<rparr>" ?h]
    by simp
  moreover have "Get now k (db ?v) = (x, True)" by (simp add: Get_def Set_def Let_def zero_entry_def IsZero_def)
  ultimately show ?thesis using run live f assms(13) by fastforce
qed

text \<open>On the empty file of the example, with connections 3 and 4.\<close>

theorem append_order_race_witness:
  "\<exists>cfg \<sigma> \<sigma>' f w. boot (host_example\<lparr>clock := 0\<rparr>) cfg example_disk = Ready (shared \<sigma>) \<and>
     run_of sys_step \<sigma> [Event 3 plain_os host_example [''SET'', ''k'', ''x''], Event 4 plain_os host_example [''SET'', ''k'', ''y''],
       Event 4 plain_os host_example [''SET'', ''k'', ''y''], Event 4 plain_os host_example [''SET'', ''k'', ''y''],
       Event 3 plain_os host_example [''SET'', ''k'', ''x''], Event 3 plain_os host_example [''SET'', ''k'', ''x'']] \<sigma>' \<and>
     aof (shared \<sigma>') = Some f \<and> boot (host_example\<lparr>clock := 9\<rparr>) cfg (left_behind cfg example_disk f) = Ready w \<and>
     Get 9 ''k'' (db (shared \<sigma>')) = (''y'', True) \<and> Get 9 ''k'' (db w) = (''x'', True)"
proof -
  note ex = example_boot
  let ?cfg = "aof_config\<lparr>port := 6379\<rparr>"
  let ?\<sigma> = "example_sys\<lparr>shared := \<lparr>db = newStore, srv = newServer ?cfg, aof = Some \<lparr>aof_file = [], aof_fsync = ''always''\<rparr>\<rparr>\<rparr>"
  have b: "boot (host_example\<lparr>clock := 0\<rparr>) ?cfg example_disk = Ready (shared ?\<sigma>)" by (simp add: ex)
  have i: "pcs ?\<sigma> c = Idle" for c by (simp add: example_sys_def)
  have r: "reaches_switch 3 ''SET'' cmd (conns ?\<sigma> 3) (shared ?\<sigma>)" "reaches_switch 4 ''SET'' cmd (conns ?\<sigma> 4) (shared ?\<sigma>)" for cmd
    by (simp_all add: reaches_switch_def example_sys_def newStore_def zero_transaction_def)
  have l: "command_in_limits [''SET'', ''k'', ''x'']" "command_in_limits [''SET'', ''k'', ''y'']"
    by (simp_all add: command_in_limits_def maxArrayLen_def maxBulkLength_def)
  have o: "os_write plain_os = WroteAll" by (simp add: plain_os_def)
  have n: "(3::connid) \<noteq> 4" "''x'' \<noteq> ''y''" by simp_all
  from append_order_race [OF ex(3,5,2) b n(1) i i r l o n(2), of host_example 9 9] b show ?thesis by blast
qed

end
