(* ===== verification/WellFormed.thy ===== *)
theory WellFormed
  imports Transactions Lifecycle
begin

text \<open>
  The invariant of the keyspace in the running server: whatever connections do, and in whatever order, transactions and
  blocked commands included, the store stays well formed (\<open>wf_store\<close>): the slices of sorted sets agree with their score
  maps, streams are ordered, entries are of a known kind. The one exception of \<open>CommandProps\<close>, a NaN score, has to be
  excluded for the commands that are served, queued, replayed or sent by the master.
\<close>

section \<open>The invariant\<close>

abbreviation tame_all :: "host \<Rightarrow> bytes list list \<Rightarrow> bool" where
  "tame_all h \<equiv> list_all (\<lambda>cmd. \<not> nan_score h cmd)"

lemma nan_score_clock [simp]: "nan_score (h\<lparr>clock := t\<rparr>) = nan_score h"
  by (simp add: nan_score_def fun_eq_iff)

lemma plain_host_clock [simp]: "plain_host (h\<lparr>clock := t\<rparr>) = plain_host h"
  by (simp add: plain_host_def)

definition sound :: "host \<Rightarrow> store \<Rightarrow> bool" where
  "sound h s \<longleftrightarrow> wf_store s \<and> (\<forall>a. tame_all h (tx_queued (txs s a)))"

fun sound_blocked :: "host \<Rightarrow> blocked \<Rightarrow> bool" where
  "sound_blocked h (InExec out cmds) \<longleftrightarrow> tame_all h cmds"
| "sound_blocked h _ \<longleftrightarrow> True"

fun sound_result :: "host \<Rightarrow> client_result \<Rightarrow> bool" where
  "sound_result h (Continues out c w) \<longleftrightarrow> sound h (db w)"
| "sound_result h (Blocks out b c w) \<longleftrightarrow> sound h (db w) \<and> sound_blocked h b"
| "sound_result h Panics \<longleftrightarrow> True"

definition sound_proc :: "host \<Rightarrow> proc \<Rightarrow> bool" where
  "sound_proc h \<sigma> \<longleftrightarrow> sound h (db (mem \<sigma>)) \<and> (\<forall>a b. blocked_in \<sigma> a b \<longrightarrow> sound_blocked h b)"

lemma sound_same_data:
  assumes "sound h s" and "data s' = data s" and "\<And>a. set (tx_queued (txs s' a)) \<subseteq> set (tx_queued (txs s a))"
  shows "sound h s'"
proof -
  have "tame_all h (tx_queued (txs s' a))" for a
    using assms(1) assms(3) [of a] by (auto simp: sound_def list_all_iff)
  then show ?thesis using assms(1) wf_store_same_data [OF assms(2)] by (simp add: sound_def)
qed

lemma sound_queue_frame: "queue_frame s s' \<Longrightarrow> sound h s \<Longrightarrow> sound h s'"
  by (rule sound_same_data) (auto simp: queue_frame_def)

section \<open>Data commands and EXEC\<close>

lemma wf_handleCommands:
  assumes "wf_store s" and "plain_host h" and "\<not> nan_score h cmd"
  shows "outcome_all (\<lambda>r. True) wf_store (fst (handleCommands h cfg replid cmd (s, a)))"
proof (cases "cmd = []")
  case False
  have "outcome_all (\<lambda>r. True) wf_store (run cmd s)"
    if "map_of (command_table h cfg replid) (ToUpper (uni_upper h) (cmd ! 0)) = Some run" for run
    using table_answers [OF assms(1,2) that, of cmd] assms(3) False
    by (cases "run cmd s") (simp_all add: nan_score_def)
  then show ?thesis
    using assms(1) False by (simp add: handleCommands_def Let_def split: go.splits option.splits)
qed (simp add: handleCommands_def assms(1))

lemma sound_run:
  assumes "run_data (h\<lparr>clock := t\<rparr>) cmd w = (out, w')" and "sound h (db w)" and "plain_host h" and "\<not> nan_score h cmd"
  shows "sound h (db w')"
proof -
  have "tx_frame (db w) (db w')" using run_data_steps(1) [OF assms(1)] keyspace_step_frame by blast
  then have q: "tx_queued (txs (db w') a) = tx_queued (txs (db w) a)" for a by (simp add: tx_frame_def)
  have wf: "wf_store (db w)" using assms(2) by (simp add: sound_def)
  obtain acl' where "handleCommands (h\<lparr>clock := t\<rparr>) (srv_cfg (srv w)) (replicationID (srv w)) cmd (db w, srv_acl (srv w)) = (out, acl')"
    and w': "db w' = outcome_store out (db w)"
    using assms(1) by (auto simp: run_data_def split: prod.splits)
  with wf_handleCommands [OF wf, of "h\<lparr>clock := t\<rparr>" cmd] assms(3,4) have "outcome_all (\<lambda>r. True) wf_store out"
    by (metis fst_conv nan_score_clock plain_host_clock)
  with wf w' have "wf_store (db w')" by (cases out) (simp_all add: outcome_store_def)
  with q assms(2) show ?thesis by (simp add: sound_def)
qed

lemma sound_after: "after_command os nm cmd w = (sent, w') \<Longrightarrow> db w' = db w"
  by (auto simp: after_command_def split: if_splits prod.splits)

lemma sound_default:
  assumes "sound h (db w)" and "plain_host h" and "\<not> nan_score h cmd"
  shows "sound_result h (client_default os (h\<lparr>clock := t\<rparr>) a nm cmd c w)"
proof -
  obtain out w1 where run: "run_data (h\<lparr>clock := t\<rparr>) cmd w = (out, w1)" by fastforce
  from sound_run [OF run assms] show ?thesis
    by (auto simp: client_default_def run dest: sound_after split: outcome.splits prod.splits)
qed

lemma sound_exec_queued:
  assumes "exec_queued (h\<lparr>clock := t\<rparr>) a cmds w = Ret (rs, blk, w')" and "sound h (db w)" and "plain_host h" and "tame_all h cmds"
  shows "sound h (db w') \<and> (\<forall>out rest. blk = Some (out, rest) \<longrightarrow> tame_all h rest)"
  using assms
proof (induction cmds arbitrary: w rs)
  case (Cons cmd cmds)
  obtain out w1 where run: "run_data (h\<lparr>clock := t\<rparr>) cmd w = (out, w1)" by fastforce
  have s1: "sound h (db w1)" using sound_run [OF run] Cons.prems by simp
  show ?case
  proof (cases out)
    case (Answer r s)
    then obtain rs1 where "exec_queued (h\<lparr>clock := t\<rparr>) a cmds w1 = Ret (rs1, blk, w')"
      using Cons.prems(1) run by (auto simp: go_bind_eq_Ret)
    from Cons.IH [OF this s1] Cons.prems show ?thesis by simp
  qed (use Cons.prems run s1 in auto)
qed simp

lemma sound_exec_rest:
  assumes "sound h (db w)" and "plain_host h" and "tame_all h cmds"
  shows "sound_result h (exec_rest (h\<lparr>clock := t\<rparr>) a cmds c w)"
  using sound_exec_queued [OF _ assms]
  by (fastforce simp: exec_rest_def split: go.splits prod.splits option.splits)

section \<open>The other commands\<close>

lemma sound_zero: "sound h (db w) \<Longrightarrow> sound h (db (on_tx a (\<lambda>_. zero_transaction) w))"
  by (rule sound_same_data) (auto simp: zero_transaction_def)

lemma tx_queued_Unwatch_all: "tx_queued (txs (Unwatch a s) b) = tx_queued (txs s b)"
  using tx_queued_Unwatch [of a s] txs_Unwatch_other [of b a s] by (cases "b = a") simp_all

lemma sound_EXEC:
  assumes "sound h (db w)" and "plain_host h"
  shows "sound_result h (client_EXEC (h\<lparr>clock := t\<rparr>) a c w)"
proof -
  let ?w1 = "w\<lparr>db := Unwatch a (db w)\<rparr>"
  let ?w2 = "on_tx a (\<lambda>_. zero_transaction) ?w1" and ?q = "tx_queued (txs (db w) a)"
  have q: "tx_queued (txs (Unwatch a (db w)) a) = ?q" by (rule tx_queued_Unwatch)
  have "sound h (db ?w1)" by (rule sound_same_data [OF assms(1)]) (simp_all add: tx_queued_Unwatch_all)
  then have s2: "sound h (db ?w2)" by (rule sound_zero)
  have "tame_all h ?q" using assms(1) by (simp add: sound_def)
  note rest = sound_exec_queued [OF _ s2 assms(2) this, of t a]
  show ?thesis
    unfolding client_EXEC_def Let_def using assms(1) s2 rest
    by (auto simp: q split: go.splits prod.splits option.splits)
qed

lemma sound_tx_commands:
  assumes "sound h (db w)"
  shows "sound_result h (client_MULTI a c w)" "sound_result h (client_DISCARD a c w)"
    "sound_result h (client_WATCH a cmd c w)" "sound_result h (client_UNWATCH a c w)"
proof -
  have "sound h (db (on_tx a (\<lambda>tx. tx\<lparr>tx_active := True\<rparr>) w))" by (rule sound_same_data [OF assms]) simp_all
  then show "sound_result h (client_MULTI a c w)" using assms by (simp add: client_MULTI_def)
  show "sound_result h (client_DISCARD a c w)" using assms sound_zero by (simp add: client_DISCARD_def)
  have "sound h (Watch a ks (db w))" for ks by (rule sound_same_data [OF assms]) (simp_all add: Watch_txs)
  then show "sound_result h (client_WATCH a cmd c w)" using assms by (simp add: client_WATCH_def)
  have "sound h (Unwatch a (db w))" by (rule sound_same_data [OF assms]) (simp_all add: tx_queued_Unwatch_all)
  then show "sound_result h (client_UNWATCH a c w)" by (simp add: client_UNWATCH_def)
qed

lemma sound_beside:
  assumes "sound h (db w)" and "beside nm"
  shows "sound_result h (client_switch os h' a nm cmd c w)"
proof (cases "client_switch os h' a nm cmd c w")
  case (Continues out c' w')
  from beside_keeps [OF this assms(2)] show ?thesis using Continues assms(1) by simp
next
  case (Blocks out b c' w')
  have "\<not> is_data nm" "nm \<noteq> ''EXEC''" using assms(2) by (auto simp: beside_def is_data_def)
  from client_switch_Blocks [OF Blocks this] have w: "client_WAIT a cmd c w = Blocks out b c' w'" ..
  then have "sound_blocked h b"
    by (auto simp: client_WAIT_def Let_def split: if_splits wait_start.splits wait_state.splits)
  moreover have "db w' = db w" using WAIT_Blocks [OF w] by auto
  ultimately show ?thesis using Blocks assms(1) by simp
qed simp

lemma sound_switch:
  assumes "sound h (db w)" and "plain_host h" and "\<not> nan_score h cmd"
  shows "sound_result h (client_switch os (h\<lparr>clock := t\<rparr>) a nm cmd c w)"
proof (cases "beside nm")
  case True
  with assms(1) show ?thesis by (rule sound_beside)
next
  case False
  then have "client_switch os (h\<lparr>clock := t\<rparr>) a nm cmd c w =
    (if nm = ''MULTI'' then client_MULTI a c w else if nm = ''EXEC'' then client_EXEC (h\<lparr>clock := t\<rparr>) a c w
     else if nm = ''DISCARD'' then client_DISCARD a c w else if nm = ''WATCH'' then client_WATCH a cmd c w
     else if nm = ''UNWATCH'' then client_UNWATCH a c w else client_default os (h\<lparr>clock := t\<rparr>) a nm cmd c w)"
    by (simp add: client_switch_def beside_def)
  then show ?thesis
    using sound_tx_commands [OF assms(1), where a = a and c = c] sound_EXEC [OF assms(1,2), of t a c] sound_default [OF assms, of os t a nm c]
    by (simp only: split: if_split) blast
qed

lemma sound_command:
  assumes "sound h (db w)" and "plain_host h" and "\<not> nan_score h cmd"
  shows "sound_result h (client_command os (h\<lparr>clock := t\<rparr>) a cmd c w)"
proof (cases "cmd = []")
  case False
  then have "cmd \<noteq> []" "ToUpper (uni_upper h) (cmd ! 0) = ToUpper (uni_upper (h\<lparr>clock := t\<rparr>)) (cmd ! 0)" by simp_all
  then show ?thesis
  proof (cases rule: client_command_cases [where c = c and w = w and b = a and os = os])
    case queued
    let ?w = "on_tx a (\<lambda>tx. tx\<lparr>tx_queued := tx_queued tx @ [cmd]\<rparr>) w"
    have "sound h (db ?w)" using assms(1,3) wf_store_same_data [of "db ?w" "db w"] by (simp add: sound_def)
    then show ?thesis by (simp add: queued(2))
  next
    case switch
    then show ?thesis using sound_switch [OF assms] by simp
  qed (use assms(1) in simp_all)
qed (simp add: client_command_def)

section \<open>Blocked commands\<close>

lemma sound_before: "sound_result h res \<Longrightarrow> sound_result h (before_result out res)"
  by (cases res) simp_all

lemma sound_resume:
  assumes "client_resume os (h\<lparr>clock := t\<rparr>) wk a b c w = Some res" and "sound h (db w)" and "plain_host h" and "sound_blocked h b"
  shows "sound_result h res"
proof (cases b)
  case (InExec out cmds)
  show ?thesis
  proof (cases "outcome_wakes wk out (db w)")
    case (Answers r s)
    have "sound h (db (w\<lparr>db := s\<rparr>))" using sound_queue_frame [OF outcome_wakes_queue [OF Answers] assms(2)] by simp
    from sound_before [OF sound_exec_rest [OF this assms(3), of cmds t a c]] show ?thesis
      using assms(1,4) by (auto simp: InExec Answers)
  qed (use assms in \<open>auto simp: InExec\<close>)
next
  case (InCommand out nm cmd)
  show ?thesis
  proof (cases "outcome_wakes wk out (db w)")
    case (Answers r s)
    have "sound h s" using sound_queue_frame [OF outcome_wakes_queue [OF Answers] assms(2)] .
    then show ?thesis using assms(1) by (auto simp: InCommand Answers dest: sound_after split: prod.splits)
  qed (use assms in \<open>auto simp: InCommand\<close>)
qed (use assms in \<open>auto split: option.splits wait_state.splits\<close>)

section \<open>Their first sections\<close>

lemma sound_first:
  assumes "sound h (db w)" and "plain_host h" and "\<not> nan_score h cmd"
  shows "sound_result h (fst (client_first os (h\<lparr>clock := t\<rparr>) a cmd c w))"
proof -
  obtain out w1 where run: "run_data (h\<lparr>clock := t\<rparr>) cmd w = (out, w1)" by fastforce
  from sound_run [OF run assms] sound_command [OF assms, of os t a c] show ?thesis
    by (simp add: client_first_def Let_def run split: outcome.split)
qed

lemma sound_woken:
  assumes "client_woken os (h\<lparr>clock := t\<rparr>) wk a b c w = Some res" and "sound h (db w)" and "plain_host h" and "sound_blocked h b"
  shows "sound_result h (fst res)"
proof -
  have resumed: "sound_result h (fst res)"
    if "map_option (\<lambda>res. (res, None)) (client_resume os (h\<lparr>clock := t\<rparr>) wk a b c w) = Some res"
    using that sound_resume [OF _ assms(2-4)] by auto
  show ?thesis
  proof (cases "\<exists>out nm cmd r s. b = InCommand out nm cmd \<and> outcome_wakes wk out (db w) = Answers r s")
    case True
    then obtain out nm cmd r s where b: "b = InCommand out nm cmd" "outcome_wakes wk out (db w) = Answers r s" by blast
    have "sound h s" using sound_queue_frame [OF outcome_wakes_queue [OF b(2)] assms(2)] .
    with assms(1) b show ?thesis by (auto simp: client_woken_def)
  next
    case False
    with assms(1) show ?thesis by (intro resumed) (auto simp: client_woken_def split: blocked.splits wakeup.splits)
  qed
qed

section \<open>The replication goroutine\<close>

lemma sound_follow_read:
  assumes "follow_read (h\<lparr>clock := t\<rparr>) fo w = Follows fo' w'" and "sound h (db w)" and "plain_host h"
    and "\<And>cmd r. fo_at fo = Streaming \<Longrightarrow> ReadCommand (fo_buf fo) = Inr (cmd, r) \<Longrightarrow> \<not> nan_score h cmd"
  shows "sound h (db w')"
proof (cases "fo_at fo")
  case Streaming
  with assms(1) obtain cmd r where read: "ReadCommand (fo_buf fo) = Inr (cmd, r)"
    and cmd: "follow_command (h\<lparr>clock := t\<rparr>) cmd (fo\<lparr>fo_buf := r\<rparr>) w = Follows fo' w'"
    by (auto simp: follow_read_def split: sum.splits read_err.splits)
  obtain out w1 where run: "run_data (h\<lparr>clock := t\<rparr>) cmd w = (out, w1)" by fastforce
  from sound_run [OF run assms(2,3) assms(4) [OF Streaming read]] assms(2) cmd show ?thesis
    by (auto simp: follow_command_def Let_def run split: if_splits outcome.splits)
qed (use assms(1,2) in \<open>auto simp: follow_read_def split: option.splits prod.splits if_splits\<close>)

lemma sound_follow_wake:
  assumes "follow_wake wk fo w = Follows fo' w'" and "sound h (db w)"
  shows "sound h (db w')"
  using assms sound_queue_frame [OF outcome_wakes_queue]
  by (auto simp: follow_wake_def split: follow_at.splits wakeup.splits)

section \<open>The process\<close>

text \<open>Steps without a NaN score, on one platform at any times.\<close>

definition tame :: "host \<Rightarrow> proc \<Rightarrow> proc_event \<Rightarrow> bool" where
  "tame h \<sigma> e \<longleftrightarrow>
     (case e of
        Serve a os h' \<Rightarrow> h' = h\<lparr>clock := clock h'\<rparr> \<and>
          (\<forall>cl cmd rest. clients \<sigma> a = Some cl \<longrightarrow> ReadCommand (cl_buf cl) = Inr (cmd, rest) \<longrightarrow> \<not> nan_score h cmd)
      | Wake a wk os h' \<Rightarrow> h' = h\<lparr>clock := clock h'\<rparr>
      | Follow h' \<Rightarrow> h' = h\<lparr>clock := clock h'\<rparr> \<and>
          (\<forall>fo cmd rest. replicator \<sigma> = Some fo \<longrightarrow> fo_at fo = Streaming \<longrightarrow> ReadCommand (fo_buf fo) = Inr (cmd, rest) \<longrightarrow>
             \<not> nan_score h cmd)
      | _ \<Rightarrow> True)"

definition tame_step :: "host \<Rightarrow> proc \<Rightarrow> proc_event \<Rightarrow> proc \<Rightarrow> bool" where
  "tame_step h \<sigma> e \<sigma>' \<longleftrightarrow> proc_step \<sigma> e \<sigma>' \<and> tame h \<sigma> e"

lemma sound_evict: "sound h s \<Longrightarrow> sound h (evictExpired order now s)"
proof -
  have "sound h (evict_key now k s)" if "sound h s" for k s
    using that wf_delete [of "markWatchersLocked k s" k]
    by (auto simp: evict_key_def sound_def Let_def split: option.splits)
  then have "sound h (fold (evict_key now) ks s)" if "sound h s" for ks s
    using that by (induction ks arbitrary: s) simp_all
  then show "sound h s \<Longrightarrow> sound h (evictExpired order now s)" by (simp add: evictExpired_def)
qed

lemma sound_iterate:
  assumes "sound_proc h \<sigma>" and "sound_result h (fst res)"
  shows "sound_proc h (iterate a cl res \<sigma>)"
proof (cases res)
  case (Pair r p)
  with assms show ?thesis
    by (cases r) (auto simp: sound_proc_def blocked_in_def split: if_splits option.splits)
qed

lemma sound_followed:
  assumes "sound_proc h \<sigma>" and "\<And>fo w. res = Follows fo w \<Longrightarrow> sound h (db w)"
  shows "sound_proc h (followed res \<sigma>)"
  using assms by (cases res) (auto simp: sound_proc_def)

lemma sound_proc_step:
  assumes "tame_step h \<sigma> e \<sigma>'" and "sound_proc h \<sigma>" and "plain_host h"
  shows "sound_proc h \<sigma>'"
proof -
  from assms(1) have step: "proc_step \<sigma> e \<sigma>'" and t: "tame h \<sigma> e" by (simp_all add: tame_step_def)
  have s: "sound h (db (mem \<sigma>))" using assms(2) by (simp add: sound_proc_def)
  from step show ?thesis
  proof cases
    case (accept a)
    then show ?thesis
      using assms(2) sound_zero [OF s] by (auto simp: sound_proc_def new_client_def blocked_in_def split: if_splits)
  next
    case (tick h')
    then show ?thesis using assms(2) sound_evict s by (simp add: sound_proc_def sweep_def)
  next
    case (follow fo h')
    then have h': "h' = h\<lparr>clock := clock h'\<rparr>" using t by (simp add: tame_def)
    have "sound h (db w)" if "follow_read h' fo (mem \<sigma>) = Follows fo' w" for fo' w
      using that h' sound_follow_read [where t = "clock h'", OF _ s assms(3), of fo fo' w] t follow by (simp add: tame_def)
    then show ?thesis unfolding follow(2) by (rule sound_followed [OF assms(2)])
  next
    case (follow_wakes fo wk)
    then show ?thesis using sound_followed [OF assms(2)] sound_follow_wake [OF _ s] by blast
  next
    case (serve a cl cmd rest os h')
    then have "\<not> nan_score h cmd" "h' = h\<lparr>clock := clock h'\<rparr>" using t by (auto simp: tame_def)
    with sound_first [OF s assms(3), of cmd os "clock h'" a "cl_conn cl"] show ?thesis
      unfolding serve(2) by (intro sound_iterate [OF assms(2)]) simp
  next
    case (wake a cl b wk os h' res)
    then have "h' = h\<lparr>clock := clock h'\<rparr>" "sound_blocked h b"
      using t assms(2) by (auto simp: tame_def sound_proc_def blocked_in_def)
    then have "sound_result h (fst res)"
      using sound_woken [where h = h and t = "clock h'", OF _ s assms(3)] wake by metis
    then show ?thesis unfolding wake(2) by (rule sound_iterate [OF assms(2)])
  qed (use assms(2) in \<open>auto simp: sound_proc_def accept_error_def leave_def blocked_in_def split: if_splits\<close>)
qed

interpretation keyspace: step_invariant "sound_proc h" "tame_step h" "\<lambda>\<sigma>. plain_host h \<longrightarrow> sound_proc h \<sigma>" for h
  by unfold_locales (auto intro: sound_proc_step)

section \<open>The start\<close>

definition tame_log :: "host \<Rightarrow> config \<Rightarrow> disk \<Rightarrow> bool" where
  "tame_log h cfg d \<longleftrightarrow>
     (\<exists>incr created log. aof_incr_name cfg (manifest_file d) = Inr (incr, created) \<and>
        open_incr d incr = Some (concat (map EncodeRaw log)) \<and> list_all command_in_limits log \<and> tame_all h log)"

lemma sound_boot_rdb: "sound h (snd (boot_rdb cfg d))"
proof -
  have "wf_store (snd (boot_rdb cfg d))" by (rule boot_rdb_keeps) (simp_all add: wf_Set wf_store_newStore)
  then show ?thesis using quiet_boot_rdb [of cfg d] by (simp add: sound_def quiet_def zero_transaction_def)
qed

lemma sound_replay:
  assumes "go_fold (recover_cb (h\<lparr>clock := t\<rparr>)) log (w, st) = Ret (w', st')" and "sound h (db w)" and "plain_host h" and "tame_all h log"
  shows "sound h (db w')"
  using assms
proof (induction log arbitrary: w st)
  case (Cons cmd log)
  obtain w1 st1 where r: "recover_cb (h\<lparr>clock := t\<rparr>) cmd (w, st) = Ret (w1, st1)"
    and rest: "go_fold (recover_cb (h\<lparr>clock := t\<rparr>)) log (w1, st1) = Ret (w', st')"
    using Cons.prems(1) by (auto simp: go_bind_eq_Ret)
  have "sound h (db w1)"
    using r Cons.prems(2-4) sound_run [where h = h and t = t and cmd = cmd and w = w]
    by (auto simp: recover_cb_def split: option.splits prod.splits outcome.splits)
  then show ?case using Cons.IH [OF rest] Cons.prems(3,4) by simp
qed simp

lemma sound_boot:
  assumes "boot (h\<lparr>clock := t\<rparr>) cfg d = Ready w" and "plain_host h" and "appendOnly cfg \<longrightarrow> tame_log h cfg d"
  shows "sound h (db w)"
proof (cases "appendOnly cfg")
  case True
  with assms(3) obtain incr created log where d: "aof_incr_name cfg (manifest_file d) = Inr (incr, created)"
    "open_incr d incr = Some (concat (map EncodeRaw log))" and log: "list_all command_in_limits log" "tame_all h log"
    by (auto simp: tame_log_def)
  let ?v = "\<lambda>s. \<lparr>db = s, srv = newServer cfg,
    aof = Some \<lparr>aof_file = concat (map EncodeRaw log), aof_fsync = appendFsync cfg\<rparr>\<rparr>"
  from assms(1) boot_Ready [OF True d] obtain s where s: "boot_rdb cfg d = (None, s)"
    and w: "replay_loop (recover_cb (h\<lparr>clock := t\<rparr>)) (concat (map EncodeRaw log)) (?v s, None) = Ret (None, (w, None))" by blast
  from w have "go_fold (recover_cb (h\<lparr>clock := t\<rparr>)) log (?v s, None) = Ret (w, None)"
    by (simp only: replay_whole [OF log(1)])
  from sound_replay [OF this _ assms(2) log(2)] sound_boot_rdb [of h cfg d] s show ?thesis by simp
next
  case False
  with assms(1) sound_boot_rdb [of h cfg d] show ?thesis by (auto simp: boot_def split: prod.splits option.splits)
qed

section \<open>Properties\<close>

text \<open>C11. The keyspace of the running server is always well formed. Start with any flags on any RDB file and any append-only
  file of whole records, and let connections, transactions, blocked commands, the sweeper, the master of a replica, signals and
  shutdown interleave in any way: as long as no command gives a NaN as a score, every sorted set is sorted and agrees with its
  score map, every stream has strictly increasing IDs up to its last one, and every entry is of a known kind.\<close>

theorem keyspace_stays_well_formed:
  assumes "parseFlags join fl = Inr cfg" and "main_start join (h\<lparr>clock := t0\<rparr>) fl d True = Up \<sigma>0" and "plain_host h"
    and "appendOnly cfg \<longrightarrow> tame_log h cfg d" and "run_of (tame_step h) \<sigma>0 es \<sigma>"
  shows "wf_store (db (mem \<sigma>))"
proof -
  from assms(1,2) obtain w0 where b: "boot (h\<lparr>clock := t0\<rparr>) cfg d = Ready w0" and \<sigma>0: "\<sigma>0 = started cfg w0"
    by (auto simp: main_start_def split: boot_result.splits)
  have "sound_proc h \<sigma>0" using sound_boot [OF b assms(3,4)] by (simp add: sound_proc_def \<sigma>0 started_def blocked_in_def)
  from keyspace.run_from_init [OF this assms(5)] assms(3) show ?thesis by (simp add: sound_proc_def sound_def)
qed

theorem keyspace_stays_well_formed_witness:
  "\<exists>join \<sigma>0 \<sigma>. main_start join (host_example\<lparr>clock := 0\<rparr>) (aof_flags\<lparr>fl_appendonly := ''no''\<rparr>) example_disk True = Up \<sigma>0 \<and>
     run_of (tame_step host_example) \<sigma>0
       [Accept 7, Receive 7 (EncodeRaw example_set), Serve 7 plain_os (host_example\<lparr>clock := 5\<rparr>)] \<sigma> \<and>
     db (mem \<sigma>) = Set ''k'' ''v'' zero_time newStore \<and> wf_store (db (mem \<sigma>))"
proof -
  let ?join = "\<lambda>a b. [] :: string" and ?fl = "aof_flags\<lparr>fl_appendonly := ''no''\<rparr>"
  let ?cfg = "aof_config\<lparr>port := 6379, appendOnly := False\<rparr>" and ?h = "host_example\<lparr>clock := 5\<rparr>"
  let ?w = "\<lparr>db = newStore, srv = newServer ?cfg, aof = None\<rparr>"
  have p: "parseFlags ?join ?fl = Inr ?cfg"
    by (simp add: parseFlags_def aof_flags_def aof_config_def zero_config_def)
  have up: "main_start ?join (host_example\<lparr>clock := 0\<rparr>) ?fl example_disk True = Up (started ?cfg ?w)"
    by (simp add: main_start_def p boot_def boot_rdb_def aof_config_def zero_config_def)
  have w: "db ?w = newStore" "srv ?w = newServer ?cfg" by simp_all
  from example_session [OF w] obtain \<sigma>1 \<sigma>2 \<sigma>3 cl where
    steps: "proc_step (started ?cfg ?w) (Accept 7) \<sigma>1" "proc_step \<sigma>1 (Receive 7 (EncodeRaw example_set)) \<sigma>2"
    "proc_step \<sigma>2 (Serve 7 plain_os ?h) \<sigma>3"
    and cl: "clients \<sigma>2 = [7 \<mapsto> cl]" "ReadCommand (cl_buf cl) = Inr (example_set, [])"
    and db: "db (mem \<sigma>3) = Set ''k'' ''v'' zero_time newStore"
    by metis
  have "tame host_example \<sigma>2 (Serve 7 plain_os ?h)" using cl by (simp add: tame_def nan_score_def)
  moreover have "tame host_example \<tau> (Accept 7)" "tame host_example \<tau> (Receive 7 bs)" for \<tau> bs
    by (simp_all add: tame_def)
  ultimately have run: "run_of (tame_step host_example) (started ?cfg ?w)
      [Accept 7, Receive 7 (EncodeRaw example_set), Serve 7 plain_os ?h] \<sigma>3"
    unfolding run_of_Cons run_of_Nil using steps by (auto simp: tame_step_def)
  have "appendOnly ?cfg \<longrightarrow> tame_log host_example ?cfg example_disk" by simp
  from keyspace_stays_well_formed [OF p up plain_host_example this run] up run db show ?thesis by blast
qed

end
