(* ===== verification/Spec2Isabelle.thy ===== *)
theory Spec2Isabelle
  imports WellFormed
begin

text \<open>
  A model of the Redis server in \<^verbatim>\<open>src/app\<close> and the theorems that make it correct.

  \<^bold>\<open>The program.\<close> \<^verbatim>\<open>main.go\<close> reads the flags, loads an RDB file, replays the append-only file and accepts
  connections. Each connection is a goroutine in \<open>handleClient\<close> (\<^verbatim>\<open>client.go\<close>) that reads commands with the RESP
  reader (\<^verbatim>\<open>resp/reader.go\<close>), keeps the state of authentication, transaction and subscriptions, and
  hands data commands to \<open>handleCommands\<close> (\<^verbatim>\<open>handleCommands.go\<close>), which calls the methods of the keyspace
  (\<^verbatim>\<open>store.go\<close>) and writes the reply (\<^verbatim>\<open>resp_write.go\<close>). Writes then go to the replicas (\<^verbatim>\<open>replication.go\<close>) and to the
  append-only file (\<^verbatim>\<open>aof.go\<close>). Channels are in \<^verbatim>\<open>pubsub.go\<close>, users in \<^verbatim>\<open>server.go\<close>, flags in \<^verbatim>\<open>config.go\<close>, the RDB
  reader in \<^verbatim>\<open>rdb/rdb.go\<close>. What the goroutines share is guarded by one mutex per structure.

  \<^bold>\<open>The library.\<close>
  \<^item> \<open>Prelude\<close>: a computation that may panic (\<open>go\<close>, with \<open>go_bind\<close> and \<open>go_fold\<close>), ordered slices
    (\<open>key_order\<close>), runs of a step relation (\<open>run_of\<close>) and the locale \<open>step_invariant\<close> for their invariants.
  \<^item> \<open>GoLib\<close>: what the code uses of the Go library: \<open>strconv\<close>, \<open>strings\<close>, \<open>slices\<close>, \<open>sort.Search\<close>, 64-bit
    integers (\<open>wrap64\<close>), times in nanoseconds, \<open>float64\<close> as the 64 bits of IEEE 754 with its order and conversions.

  \<^bold>\<open>The model, theory by theory.\<close>
  \<^item> \<open>RespReader\<close>, \<open>RespWrite\<close>: the reader on a byte string in place of the buffered connection, and
    the encoders. Locale \<open>incremental_parser\<close>, interpreted for every reading function: a result on part of a
    stream is the result on the whole. Locale \<open>frame_codec\<close>, interpreted for both encoders: a stream of
    encoded commands is read back command by command, and a torn one never as a command.
  \<^item> \<open>Store\<close>: \<open>entry\<close>, \<open>store\<close>, \<open>transaction\<close> and the string, expiry and watch methods; locale \<open>expiring_map\<close>. A
    pointer to a transaction is the number of its connection.
  \<^item> \<open>Lists\<close>, \<open>Blocking\<close>: the list methods; BLPOP with RPUSH, LPUSH and \<open>cancelWait\<close> as the step relation \<open>bstep\<close>
    over their sections under the mutex, with conservation of elements, absence of deadlock and order of service.
  \<^item> \<open>Streams\<close>, \<open>Zsets\<close>, \<open>Bitmaps\<close>, \<open>Geo\<close>: the other types of the keyspace, each with its well-formedness
    invariant, the functional behaviour of its methods, and equivalence of search routines with plain definitions.
  \<^item> \<open>PubSub\<close>, \<open>Server\<close>, \<open>Replication\<close>, \<open>Aof\<close>, \<open>Rdb\<close>: the files of those names. Delivery reaches exactly the
    subscribers; passwords are enforced; a replica follows its master; the file replays what was appended; a
    well-formed RDB file is stored pair by pair.
  \<^item> \<open>Commands\<close>: one definition \<open>cmd_X\<close> per data command and the dispatch \<open>handleCommands\<close>. \<open>CommandProps\<close>: the invariant
    \<open>wf_store\<close> of the whole keyspace, the grammar \<open>resp_values\<close> of replies, and the causes of a panic.
  \<^item> \<open>Client\<close>: \<open>handleClient\<close>, with one definition \<open>client_X\<close> per case of its switch, one iteration
    \<open>client_command\<close> and the loop \<open>client_loop\<close>. \<open>Wakeup\<close>: what a command that blocks (BLPOP, XREAD, WAIT) does when a message,
    its timer or the end of the context wakes it, and the rest of the iteration, \<open>client_resume\<close>.
  \<^item> \<open>ClientProps\<close>: several connections as the step relation \<open>sys_step\<close> over the sections under a mutex, blocked commands
    included, and what holds in every interleaving. \<open>Transactions\<close>: EXEC of data commands as a refinement of sending them
    directly, WATCH, and the races of EXEC and of two writes.
  \<^item> \<open>Sessions\<close>: a session from its bytes to its replies, and the handshake of a replica against the commands of the master.
    \<open>Convergence\<close>: master and replica end to end, for the writes that are propagated and do not need the clock.
  \<^item> \<open>Boot\<close>: \<open>main\<close> up to the point where it listens; locale \<open>logged_system\<close>: a system whose every step is in the log can be
    stopped anywhere and recovers. \<open>Follower\<close>: the goroutine of \<open>startReplication\<close>, read by read, with every way in which it
    returns. \<open>Shutdown\<close>: the process after the start as the step relation \<open>proc_step\<close>: accept loop, signal
    handler, wait group, sweeper, watchers of the context, connections with their buffers, the replication goroutine; it
    drains and \<open>main\<close> returns. A write of a client is three steps: execution, propagation, append.
    \<open>Lifecycle\<close>: \<open>main\<close> from the flags on. The process beside the state that its file stands for interprets \<open>logged_system\<close>, so a
    killed server recovers all but the write that was between its execution and its append, as long as writes do
    not overlap; what two that overlap can do to the file is \<open>append_order_race\<close>.
    \<open>WellFormed\<close>: the invariant \<open>wf_store\<close> in every run of the process.

  \<^bold>\<open>Errors, loops and bounds.\<close> An error of the code is a value: \<open>store_error\<close>, \<open>read_err\<close>, \<open>aof_err\<close>, \<open>rdb_err\<close>, or a reply. A
  panic is \<open>Panic\<close> of type \<open>go\<close>, \<open>Crash\<close> or \<open>Panics\<close>; a goroutine that blocks is \<open>Stuck\<close>, \<open>ParkPop\<close>, \<open>ParkRead\<close> or
  \<open>Blocks\<close>. Loops over input terminate by the length of what is left of it, index loops by the distance to
  the bound; no definition uses fuel. The loop of a connection is a \<open>partial_function\<close>, whose totality is a
  theorem. The limits of the reader are those of its constants.

  \<^bold>\<open>Parameters.\<close> The clock, the order in which a map is walked, \<open>sha256\<close>, float arithmetic, \<open>ParseFloat\<close> and
  \<open>FormatFloat\<close>, upper-casing and folding of strings that are not ASCII, \<open>filepath.Join\<close> and the answers of the
  file system are arguments (records \<open>host\<close>, \<open>os\<close>, \<open>float_ops\<close>, \<open>disk\<close>); a theorem that needs something of
  one of them says so in a hypothesis (\<open>ranges\<close>, \<open>plain_host\<close>).

  \<^bold>\<open>Grain of steps.\<close> In \<open>sys_step\<close> and \<open>bstep\<close> a step is one section under a mutex. In \<open>proc_step\<close> it is one section of a write,
  one read of the replication goroutine, and otherwise one iteration of a connection or the part of it up to where it blocks; an
  EXEC with its queue is one step there, at one time of the clock, where \<open>sys_step\<close> takes the queue command by command with a
  platform for each.

  \<^bold>\<open>Defects.\<close> Where the code does not do what it means to, the theorem says what it does: lost elements of BLPOP on
  several keys, watches dropped by UNWATCH of another client, the window in EXEC, queued commands that EXEC does not know, the
  order of appends, the offset of a late replica, the longitude 180, panics on missing arguments, a replica that does not shut
  down, a logged BLPOP that blocks the next start. They are marked as defects where they stand.

  \<^bold>\<open>Not modelled.\<close> Log messages. Failed writes to a socket, which the code ignores. Data races of the methods that read
  without the mutex, which the README lists: every method is one atomic step. Real time: a timer fires, a ticker ticks and a
  signal comes at any moment, so liveness is stated as what the server can do by steps of its own. The parser of the
  \<open>flag\<close> package: \<open>parseFlags\<close> starts from the values of the flags. What the replica writes to its master is in
  \<open>startReplication\<close> but not in \<open>proc_step\<close>, where a failed write is \<open>HandshakeFails\<close>. When a push is stuck with the mutex,
  \<open>proc_step\<close> also holds up the few commands that do not need the mutex. The \<open>Unlock\<close> of a mutex held for reading in \<open>XRead\<close> is
  fatal in the model; in Go it is unless a writer waits at that moment. Memory does not run out: an allocation of a
  negative size or of more than \<open>maxAlloc\<close> bytes panics, any other succeeds.
\<close>

end
